(* ===== verification/Vibix_Prelude.thy ===== *)
theory Vibix_Prelude imports Main "HOL-Library.Word" begin

text \<open>Shared vocabulary of the development: the machine integer types of the
  kernel, the rewrite collections of the component theories, the byte literals
  of the sources, and generic facts on lists and words.

  \<^item> \<open>usize\<close>, \<open>u64\<close> and pointers are \<^typ>\<open>64 word\<close> where the code does address
    arithmetic (the release build wraps); array indices and loop counters that
    the code keeps below a small constant are \<^typ>\<open>nat\<close>.
  \<^item> A byte string literal \<open>b"..."\<close> is \<open>bytes ''...''\<close>.
  \<^item> Kernel results: \<open>Inl\<close> is the error, \<open>Inr\<close> the value.\<close>

type_synonym u8 = "8 word"
type_synonym u16 = "16 word"
type_synonym u32 = "32 word"
type_synonym u64 = "64 word"
type_synonym 'a result = "int + 'a"

named_theorems ring_simps "ring buffers as lists"
named_theorems pmm_simps "page bitmap"
named_theorems kmm_simps "kernel heap"
named_theorems proc_simps "process table"
named_theorems vfs_simps "file descriptors and open files"
named_theorems wf_intros "preservation of the component invariants"

unbundle bit_operations_syntax

text \<open>A Rust byte string.\<close>
definition bytes :: "string \<Rightarrow> u8 list" where
  "bytes s = map of_char s"

text \<open>The read loops of the kernel: take elements until the source is empty or
  the caller's buffer is full.\<close>
fun drain :: "('s \<Rightarrow> ('a \<times> 's) option) \<Rightarrow> nat \<Rightarrow> 's \<Rightarrow> 'a list \<times> 's" where
  "drain pop 0 s = ([], s)"
| "drain pop (Suc n) s =
     (case pop s of
        None \<Rightarrow> ([], s)
      | Some (b, s') \<Rightarrow> (let (bs, s'') = drain pop n s' in (b # bs, s'')))"

text \<open>Byte-addressed stores: reading and writing a run of bytes.\<close>
primrec read_bytes :: "(u64 \<Rightarrow> u8) \<Rightarrow> u64 \<Rightarrow> nat \<Rightarrow> u8 list" where
  "read_bytes m a 0 = []"
| "read_bytes m a (Suc n) = m a # read_bytes m (a + 1) n"

primrec write_bytes :: "u64 \<Rightarrow> u8 list \<Rightarrow> (u64 \<Rightarrow> u8) \<Rightarrow> (u64 \<Rightarrow> u8)" where
  "write_bytes a [] m = m"
| "write_bytes a (b # bs) m = write_bytes (a + 1) bs (m(a := b))"

text \<open>Little-endian encoding of a word in \<open>n\<close> bytes.\<close>
primrec le_bytes :: "nat \<Rightarrow> 'a::len word \<Rightarrow> u8 list" where
  "le_bytes 0 w = []"
| "le_bytes (Suc n) w = ucast w # le_bytes n (drop_bit 8 w)"

primrec of_le :: "u8 list \<Rightarrow> 'a::len word" where
  "of_le [] = 0"
| "of_le (b # bs) = ucast b OR push_bit 8 (of_le bs)"

definition load64 :: "(u64 \<Rightarrow> u8) \<Rightarrow> u64 \<Rightarrow> u64" where
  "load64 m a = of_le (read_bytes m a 8)"

text \<open>The syscall convention: \<open>(-e as i64) as u64\<close>.\<close>
definition neg_errno :: "int \<Rightarrow> u64" where
  "neg_errno e = of_int (- e)"

subsection \<open>Lists\<close>

lemma drain_None: "pop s = None \<Longrightarrow> drain pop n s = ([], s)"
  by (cases n) simp_all

lemma find_upt_None_iff:
  "find P [0..<n] = None \<longleftrightarrow> (\<forall>i<n. \<not> P i)"
  by (auto simp: find_None_iff)

lemma find_upt_Some_iff:
  "find P [0..<n] = Some i \<longleftrightarrow> i < n \<and> P i \<and> (\<forall>j<i. \<not> P j)"
proof
  assume "find P [0..<n] = Some i"
  then obtain k where "k < n" "P ([0..<n] ! k)" "i = [0..<n] ! k" "\<forall>j<k. \<not> P ([0..<n] ! j)"
    by (auto simp: find_Some_iff)
  then show "i < n \<and> P i \<and> (\<forall>j<i. \<not> P j)" by simp
next
  assume "i < n \<and> P i \<and> (\<forall>j<i. \<not> P j)"
  then show "find P [0..<n] = Some i"
    by (auto simp: find_Some_iff intro!: exI [of _ i])
qed

lemma find_append_case:
  "find P (xs @ ys) = (case find P xs of Some x \<Rightarrow> Some x | None \<Rightarrow> find P ys)"
  by (induction xs) auto

lemma mod_below_twice:
  "x < 2 * sz \<Longrightarrow> x mod sz = (if x < sz then x else x - (sz :: nat))"
  by (simp add: le_mod_geq)

lemma length_read_bytes [simp]: "length (read_bytes m a n) = n"
  by (induction n arbitrary: a) simp_all

lemma read_bytes_nth:
  "i < n \<Longrightarrow> read_bytes m a n ! i = m (a + of_nat i)"
proof (induction n arbitrary: a i)
  case (Suc n)
  then show ?case by (cases i) (simp_all add: add.assoc)
qed simp

text \<open>A written run reads back, and bytes outside the run are untouched, as long
  as the run is shorter than the address space.\<close>

lemma write_bytes_other:
  "(\<forall>i < length bs. p \<noteq> a + of_nat i) \<Longrightarrow> write_bytes a bs m p = m p"
proof (induction bs arbitrary: a m)
  case (Cons b bs)
  have "p \<noteq> a" using Cons.prems by force
  moreover have "\<forall>i < length bs. p \<noteq> a + 1 + of_nat i"
  proof (intro allI impI)
    fix i assume "i < length bs"
    then show "p \<noteq> a + 1 + of_nat i"
      using Cons.prems [rule_format, of "Suc i"] by (simp add: add.assoc)
  qed
  ultimately show ?case by (simp add: Cons.IH)
qed simp

lemma of_nat_word_inj64:
  "i < 2 ^ 64 \<Longrightarrow> j < 2 ^ 64 \<Longrightarrow> (of_nat i :: u64) = of_nat j \<longleftrightarrow> i = j"
  by (simp add: word_of_nat_eq_iff take_bit_nat_eq_self)

lemma write_bytes_nth:
  assumes "i < length bs" "length bs < 2 ^ 64"
  shows "write_bytes a bs m (a + of_nat i) = bs ! i"
  using assms
proof (induction bs arbitrary: a m i)
  case (Cons b bs)
  show ?case
  proof (cases i)
    case 0
    have "\<forall>j < length bs. a \<noteq> a + 1 + of_nat j"
    proof (intro allI impI notI)
      fix j assume j: "j < length bs" and eq: "a = a + 1 + of_nat j"
      from eq have "(of_nat (Suc j) :: u64) = of_nat 0" by (simp add: add.assoc)
      then show False
        using Cons.prems(2) j by (subst (asm) of_nat_word_inj64) simp_all
    qed
    then show ?thesis using 0 by (simp add: write_bytes_other)
  next
    case (Suc k)
    then show ?thesis
      using Cons.prems Cons.IH [where a = "a + 1" and i = k] by (simp add: add.assoc)
  qed
qed simp

lemma read_write_bytes:
  "length bs < 2 ^ 64 \<Longrightarrow> read_bytes (write_bytes a bs m) a (length bs) = bs"
  by (rule nth_equalityI) (simp_all add: read_bytes_nth write_bytes_nth)

subsection \<open>Words\<close>

lemma unat_of_nat64 [simp]: "n < 2 ^ 64 \<Longrightarrow> unat (of_nat n :: u64) = n"
  by (simp add: unat_of_nat take_bit_nat_eq_self)

lemma unat_of_nat32: "n < 2 ^ 32 \<Longrightarrow> unat (of_nat n :: u32) = n"
  by (simp add: unat_of_nat take_bit_nat_eq_self)

lemma unat_add64:
  "unat (a :: u64) + unat b < 2 ^ 64 \<Longrightarrow> unat (a + b) = unat a + unat b"
  by (subst unat_plus_simple [THEN iffD1]) (simp_all add: no_olen_add_nat)

lemma unat_mult64:
  "unat (a :: u64) * unat b < 2 ^ 64 \<Longrightarrow> unat (a * b) = unat a * unat b"
  by (simp add: unat_word_ariths)

lemma unat_ucast_8_64 [simp]: "unat (ucast (x :: u8) :: u64) = unat x"
  using unsigned_less [of x, where 'a = nat]
  by (simp add: unsigned_ucast_eq take_bit_nat_eq_self)

lemma unat_sub64:
  "b \<le> (a :: u64) \<Longrightarrow> unat (a - b) = unat a - unat b"
  by (simp add: unat_sub)

lemma and_not_mask_eq: "(x :: 'a::len word) AND NOT (mask n) = x - take_bit n x"
proof -
  have "x - take_bit n x = x AND NOT (take_bit n x)"
    by (rule disjunctive_diff) (simp add: bit_take_bit_iff)
  also have "\<dots> = x AND NOT (mask n)"
    by (rule bit_eqI) (auto simp: bit_simps)
  finally show ?thesis by simp
qed

lemma unat_and_not_mask:
  "unat ((x :: 'a::len word) AND NOT (mask n)) = unat x div 2 ^ n * 2 ^ n"
proof -
  have t: "unat (take_bit n x) = unat x mod 2 ^ n"
    by (simp add: unsigned_take_bit_eq take_bit_nat_def)
  then have "take_bit n x \<le> x" by (simp add: word_le_nat_alt)
  then show ?thesis
    using t by (simp add: and_not_mask_eq unat_sub minus_mod_eq_div_mult)
qed
lemma mask_3_64: "(7 :: 64 word) = mask 3" by (simp add: mask_eq_exp_minus_1)

lemma mask_12_64: "(0xFFF :: 64 word) = mask 12" by (simp add: mask_eq_exp_minus_1)

lemma length_le_bytes [simp]: "length (le_bytes n w) = n"
  by (induction n arbitrary: w) simp_all

lemma of_le_le_bytes: "of_le (le_bytes n w) = take_bit (8 * n) (w :: 'a::len word)"
proof (induction n arbitrary: w)
  case (Suc n)
  have "ucast (ucast w :: u8) OR push_bit 8 (take_bit (8 * n) (drop_bit 8 w)) = take_bit (8 * Suc n) w"
    by (rule bit_eqI) (auto simp: bit_simps)
  then show ?case using Suc by simp
qed simp

lemma of_le_le_bytes_64 [simp]: "of_le (le_bytes 8 w) = (w :: u64)"
  by (simp add: of_le_le_bytes take_bit_word_eq_self)

lemma of_le_le_bytes_32 [simp]: "of_le (le_bytes 4 w) = (w :: u32)"
  by (simp add: of_le_le_bytes take_bit_word_eq_self)

lemma of_le_le_bytes_16 [simp]: "of_le (le_bytes 2 w) = (w :: u16)"
  by (simp add: of_le_le_bytes take_bit_word_eq_self)

end
