(* ===== verification/Ring.thy ===== *)
theory Ring imports Vibix_Prelude begin

text \<open>Ring buffers.  The keyboard buffer, the terminal's completed-line buffer and
  the pipe buffer are the same structure: an array with a write index \<open>head\<close> and
  a read index \<open>tail\<close>, empty when they agree and full one short of the array's
  size.  \<open>ring_contents\<close> is the list such an array stands for, and the locale
  \<open>byte_fifo\<close> is the contract the readers and writers of the kernel rely on.\<close>

definition ring_contents :: "nat \<Rightarrow> 'a list \<Rightarrow> nat \<Rightarrow> nat \<Rightarrow> 'a list" where
  "ring_contents sz buf head tail =
     map (\<lambda>k. buf ! ((tail + k) mod sz)) [0..<(head + sz - tail) mod sz]"

definition ring_ok :: "nat \<Rightarrow> 'a list \<Rightarrow> nat \<Rightarrow> nat \<Rightarrow> bool" where
  "ring_ok sz buf head tail \<longleftrightarrow> length buf = sz \<and> head < sz \<and> tail < sz"

lemma ring_dist_cases:
  assumes "head < sz" "tail < (sz :: nat)"
  shows "(head + sz - tail) mod sz = (if tail \<le> head then head - tail else head + sz - tail)"
  using assms by (simp add: mod_below_twice)

lemma ring_succ_cases:
  "head < (sz :: nat) \<Longrightarrow> Suc head mod sz = (if Suc head = sz then 0 else Suc head)"
  by (simp add: mod_Suc)

lemma ring_length:
  "ring_ok sz buf head tail \<Longrightarrow>
   length (ring_contents sz buf head tail) = (if tail \<le> head then head - tail else head + sz - tail)"
  by (simp add: ring_contents_def ring_ok_def ring_dist_cases)

lemma ring_bounded:
  "ring_ok sz buf head tail \<Longrightarrow> length (ring_contents sz buf head tail) \<le> sz - 1"
  by (auto simp: ring_length) (auto simp: ring_ok_def)

lemma ring_empty_iff [ring_simps]:
  "ring_ok sz buf head tail \<Longrightarrow> ring_contents sz buf head tail = [] \<longleftrightarrow> head = tail"
  using ring_length [of sz buf head tail] by (auto simp: ring_ok_def split: if_splits)

lemma ring_full_iff [ring_simps]:
  "ring_ok sz buf head tail \<Longrightarrow>
   length (ring_contents sz buf head tail) < sz - 1 \<longleftrightarrow> (head + 1) mod sz \<noteq> tail"
  by (auto simp: ring_length ring_ok_def ring_succ_cases)

lemma ring_slot_mod:
  assumes "tail < sz" "head < (sz :: nat)"
  shows "(tail + (if tail \<le> head then head - tail else head + sz - tail)) mod sz = head"
  using assms by (auto simp: le_mod_geq)

lemma ring_slot_ne_head:
  assumes "ring_ok sz buf head tail" "k < length (ring_contents sz buf head tail)"
  shows "(tail + k) mod sz \<noteq> head"
  using assms by (auto simp: ring_length ring_ok_def mod_below_twice split: if_splits)

lemma ring_push_length:
  assumes "ring_ok sz buf head tail" "(head + 1) mod sz \<noteq> tail"
  shows "((head + 1) mod sz + sz - tail) mod sz = Suc ((head + sz - tail) mod sz)"
proof -
  have "Suc head mod sz < sz" using assms(1) by (auto simp: ring_ok_def)
  then show ?thesis
    using assms by (auto simp: ring_ok_def ring_dist_cases ring_succ_cases split: if_splits)
qed

lemma ring_push [ring_simps]:
  assumes ok: "ring_ok sz buf head tail" and room: "(head + 1) mod sz \<noteq> tail"
  shows "ring_contents sz (buf[head := b]) ((head + 1) mod sz) tail
           = ring_contents sz buf head tail @ [b]"
proof -
  have hd: "(tail + (head + sz - tail) mod sz) mod sz = head"
    using ok ring_slot_mod [of tail sz head] by (simp add: ring_ok_def ring_dist_cases)
  have "\<forall>k \<in> set [0..<(head + sz - tail) mod sz]. (tail + k) mod sz \<noteq> head"
    using ring_slot_ne_head [OF ok] by (simp add: ring_contents_def)
  then show ?thesis
    using ok hd
    by (auto simp: ring_contents_def ring_push_length [OF ok room, simplified] ring_ok_def
        nth_list_update)
qed

lemma ring_pop_length:
  assumes "ring_ok sz buf head tail" "head \<noteq> tail"
  shows "(head + sz - tail) mod sz = Suc ((head + sz - (tail + 1) mod sz) mod sz)"
proof -
  have "Suc tail mod sz < sz" using assms(1) by (auto simp: ring_ok_def)
  then show ?thesis
    using assms by (auto simp: ring_ok_def ring_dist_cases ring_succ_cases split: if_splits)
qed

lemma ring_pop [ring_simps]:
  assumes ok: "ring_ok sz buf head tail" and ne: "head \<noteq> tail"
  shows "ring_contents sz buf head tail
           = buf ! tail # ring_contents sz buf head ((tail + 1) mod sz)"
proof -
  have "[0..<Suc n] = 0 # map Suc [0..<n]" for n :: nat
    by (simp add: map_Suc_upt upt_conv_Cons)
  then show ?thesis
    using ok by (simp add: ring_contents_def ring_pop_length [OF ok ne, simplified] ring_ok_def
        mod_simps o_def)
qed

lemma ring_ok_push [ring_simps]:
  "ring_ok sz buf head tail \<Longrightarrow> ring_ok sz (buf[head := b]) ((head + 1) mod sz) tail"
  by (auto simp: ring_ok_def)

lemma ring_ok_pop [ring_simps]:
  "ring_ok sz buf head tail \<Longrightarrow> ring_ok sz buf head ((tail + 1) mod sz)"
  by (auto simp: ring_ok_def)

text \<open>The contract of a bounded byte queue: a push appends, or is dropped when
  \<open>cap\<close> bytes are waiting; a pop removes the oldest byte.\<close>

locale byte_fifo =
  fixes push :: "'a \<Rightarrow> 's \<Rightarrow> 's"
    and pop :: "'s \<Rightarrow> ('a \<times> 's) option"
    and contents :: "'s \<Rightarrow> 'a list"
    and inv :: "'s \<Rightarrow> bool"
    and cap :: nat
  assumes inv_push: "inv s \<Longrightarrow> inv (push b s)"
    and inv_pop: "inv s \<Longrightarrow> pop s = Some (b, s') \<Longrightarrow> inv s'"
    and push_contents: "inv s \<Longrightarrow> contents (push b s) =
          (if length (contents s) < cap then contents s @ [b] else contents s)"
    and pop_None_iff: "inv s \<Longrightarrow> pop s = None \<longleftrightarrow> contents s = []"
    and pop_contents: "inv s \<Longrightarrow> pop s = Some (b, s') \<Longrightarrow> contents s = b # contents s'"
    and contents_bounded: "inv s \<Longrightarrow> length (contents s) \<le> cap"
begin

lemma drain_contents:
  "inv s \<Longrightarrow> drain pop n s = (bs, s') \<Longrightarrow>
   bs = take n (contents s) \<and> contents s' = drop n (contents s) \<and> inv s'"
proof (induction n arbitrary: s bs)
  case (Suc n)
  show ?case
  proof (cases "pop s")
    case None
    then show ?thesis using Suc.prems pop_None_iff [of s] by simp
  next
    case (Some q)
    obtain b s1 where q: "q = (b, s1)" by (cases q)
    obtain bs1 s2 where d: "drain pop n s1 = (bs1, s2)" by (cases "drain pop n s1")
    have "inv s1" "contents s = b # contents s1"
      using Some q Suc.prems(1) inv_pop pop_contents by auto
    then show ?thesis using Suc.IH [of s1 bs1] Suc.prems(2) Some q d by simp
  qed
qed simp

lemma drain_inv: "inv s \<Longrightarrow> inv (snd (drain pop n s))"
  using drain_contents [of s n "fst (drain pop n s)" "snd (drain pop n s)"] by simp

lemma pushes_contents:
  "inv s \<Longrightarrow> inv (fold push bs s) \<and> contents (fold push bs s) = take cap (contents s @ bs)"
proof (induction bs arbitrary: s)
  case Nil
  then show ?case using contents_bounded [of s] by simp
next
  case (Cons b bs)
  have "take cap (contents (push b s) @ bs) = take cap (contents s @ b # bs)"
    using contents_bounded [OF Cons.prems]
    by (auto simp: push_contents [OF Cons.prems] take_Cons' Suc_diff_Suc)
  then show ?case using Cons.IH [OF inv_push [OF Cons.prems, of b]] by simp
qed

text \<open>What is written comes out in order, cut at the capacity.\<close>

lemma write_then_read:
  assumes "inv s" "contents s = []" "drain pop n (fold push bs s) = (out, s')"
  shows "out = take n (take cap bs)" "contents s' = drop n (take cap bs)"
  using pushes_contents [OF assms(1), of bs] assms(2)
    drain_contents [OF _ assms(3)] by auto

end

end
