(* ===== verification/Keyboard.thy ===== *)
theory Keyboard imports Ring begin

text \<open>The PS/2 keyboard driver (\<open>keyboard.rs\<close>): the scan code tables, the IRQ1
  handler and the ring buffer it fills.  The two port reads of the handler are
  its arguments (\<open>status\<close> from port 0x64, \<open>data\<close> from port 0x60).\<close>

definition KBD_BUF_SIZE :: nat where
  "KBD_BUF_SIZE = 256"

record keyboard =
  kbd_buf :: "u8 list"
  kbd_head :: nat
  kbd_tail :: nat
  kbd_shift :: bool

definition keyboard_new :: keyboard where
  "keyboard_new = \<lparr>kbd_buf = replicate KBD_BUF_SIZE 0, kbd_head = 0, kbd_tail = 0, kbd_shift = False\<rparr>"

definition scan_row :: "nat \<Rightarrow> string \<Rightarrow> u8 option list \<Rightarrow> u8 option list" where
  "scan_row start s t = fold (\<lambda>(i, c) t. t[start + i := Some c]) (enumerate 0 (bytes s)) t"

definition SCANCODE_MAKE :: "u8 option list" where
  "SCANCODE_MAKE =
     (let t = replicate 0x3B None;
          t = scan_row 0x02 ''1234567890'' t;
          t = scan_row 0x10 ''qwertyuiop'' t;
          t = scan_row 0x1E ''asdfghjkl'' t;
          t = scan_row 0x2C ''zxcvbnm'' t
      in t[0x39 := Some 0x20, 0x1C := Some 0x0A, 0x0E := Some 0x08, 0x0F := Some 0x09])"

definition SCANCODE_MAKE_SHIFT :: "u8 option list" where
  "SCANCODE_MAKE_SHIFT =
     (let t = replicate 0x3B None;
          t = scan_row 0x02 ''!@#$%^&*()'' t;
          t = scan_row 0x10 ''QWERTYUIOP'' t;
          t = scan_row 0x1E ''ASDFGHJKL'' t
      in scan_row 0x2C ''ZXCVBNM'' t)"

definition kbd_push :: "u8 \<Rightarrow> keyboard \<Rightarrow> keyboard" where
  "kbd_push b k =
     (let next_head = (kbd_head k + 1) mod KBD_BUF_SIZE in
      if next_head \<noteq> kbd_tail k
      then k\<lparr>kbd_buf := (kbd_buf k)[kbd_head k := b], kbd_head := next_head\<rparr>
      else k)"

definition handle_keyboard :: "u8 \<Rightarrow> u8 \<Rightarrow> keyboard \<Rightarrow> keyboard" where
  "handle_keyboard status data k =
     (if status AND 0x01 = 0 then k
      else if data = 0xE0 \<or> data = 0xE1 then k
      else if data = 0x2A \<or> data = 0x36 then k\<lparr>kbd_shift := True\<rparr>
      else if data = 0xAA \<or> data = 0xB6 then k\<lparr>kbd_shift := False\<rparr>
      else if data AND 0x80 \<noteq> 0 then k
      else if unat data \<ge> length SCANCODE_MAKE then k
      else (let table = if kbd_shift k then SCANCODE_MAKE_SHIFT else SCANCODE_MAKE in
            case table ! unat data of
              Some byte \<Rightarrow> kbd_push byte k
            | None \<Rightarrow> k))"

definition kbd_pop :: "keyboard \<Rightarrow> (u8 \<times> keyboard) option" where
  "kbd_pop k =
     (if kbd_head k \<noteq> kbd_tail k
      then Some (kbd_buf k ! kbd_tail k, k\<lparr>kbd_tail := (kbd_tail k + 1) mod KBD_BUF_SIZE\<rparr>)
      else None)"

definition kbd_read :: "nat \<Rightarrow> keyboard \<Rightarrow> u8 list \<times> keyboard" where
  "kbd_read len k = drain kbd_pop len k"

text \<open>The bytes waiting to be read, oldest first, and the driver's invariant.\<close>

definition kbd_contents :: "keyboard \<Rightarrow> u8 list" where
  "kbd_contents k = ring_contents KBD_BUF_SIZE (kbd_buf k) (kbd_head k) (kbd_tail k)"

definition kbd_inv :: "keyboard \<Rightarrow> bool" where
  "kbd_inv k \<longleftrightarrow> ring_ok KBD_BUF_SIZE (kbd_buf k) (kbd_head k) (kbd_tail k)"

text \<open>What a scan code stands for under a shift state.\<close>

definition scancode_byte :: "bool \<Rightarrow> u8 \<Rightarrow> u8 option" where
  "scancode_byte shift data =
     (if data AND 0x80 = 0 \<and> unat data < 0x3B
      then (if shift then SCANCODE_MAKE_SHIFT else SCANCODE_MAKE) ! unat data
      else None)"

lemma length_scan_row [simp]: "length (scan_row st s t) = length t"
proof -
  have "length (fold (\<lambda>(i, c) t. t[st + i := Some c]) xs t) = length t" for xs
    by (induction xs arbitrary: t) auto
  then show ?thesis by (simp add: scan_row_def)
qed

lemma length_SCANCODE_MAKE [simp]: "length SCANCODE_MAKE = 0x3B"
  by (simp add: SCANCODE_MAKE_def Let_def)

lemma length_SCANCODE_MAKE_SHIFT [simp]: "length SCANCODE_MAKE_SHIFT = 0x3B"
  by (simp add: SCANCODE_MAKE_SHIFT_def Let_def)

interpretation kbd: byte_fifo kbd_push kbd_pop kbd_contents kbd_inv "KBD_BUF_SIZE - 1"
proof
  fix s b
  assume i: "kbd_inv s"
  then have ok: "ring_ok KBD_BUF_SIZE (kbd_buf s) (kbd_head s) (kbd_tail s)"
    by (simp add: kbd_inv_def)
  show "kbd_inv (kbd_push b s)"
    using ok by (simp add: kbd_push_def Let_def kbd_inv_def ring_simps [simplified])
  show "kbd_contents (kbd_push b s) =
      (if length (kbd_contents s) < KBD_BUF_SIZE - 1 then kbd_contents s @ [b] else kbd_contents s)"
    unfolding kbd_contents_def ring_full_iff [OF ok]
    using ring_push [OF ok, of b] by (simp add: kbd_push_def Let_def)
  show "kbd_pop s = None \<longleftrightarrow> kbd_contents s = []"
    using ring_empty_iff [OF ok] by (simp add: kbd_pop_def kbd_contents_def)
  show "length (kbd_contents s) \<le> KBD_BUF_SIZE - 1"
    using ring_bounded [OF ok] by (simp add: kbd_contents_def)
next
  fix s b s'
  assume i: "kbd_inv s" and p: "kbd_pop s = Some (b, s')"
  then have ok: "ring_ok KBD_BUF_SIZE (kbd_buf s) (kbd_head s) (kbd_tail s)"
    by (simp add: kbd_inv_def)
  show "kbd_inv s'"
    using ring_ok_pop [OF ok] p by (auto simp: kbd_pop_def kbd_inv_def split: if_splits)
  show "kbd_contents s = b # kbd_contents s'"
    using ring_pop [OF ok] p by (auto simp: kbd_pop_def kbd_contents_def split: if_splits)
qed

lemma kbd_inv_new: "kbd_inv keyboard_new"
  by (simp add: kbd_inv_def keyboard_new_def ring_ok_def KBD_BUF_SIZE_def)

lemma kbd_contents_new: "kbd_contents keyboard_new = []"
  by (simp add: kbd_contents_def keyboard_new_def ring_contents_def KBD_BUF_SIZE_def)

lemma kbd_shift_new: "kbd_shift keyboard_new = False"
  by (simp add: keyboard_new_def)

lemma kbd_contents_shift [simp]: "kbd_contents (k\<lparr>kbd_shift := b\<rparr>) = kbd_contents k"
  by (simp add: kbd_contents_def)

lemma kbd_inv_shift [simp]: "kbd_inv (k\<lparr>kbd_shift := b\<rparr>) = kbd_inv k"
  by (simp add: kbd_inv_def)

lemma kbd_shift_push [simp]: "kbd_shift (kbd_push b k) = kbd_shift k"
  by (simp add: kbd_push_def Let_def)

text \<open>The driver as a decoder: the bytes a sequence of scan codes types, starting
  from a shift state.  This is the specification the interrupt handler refines.\<close>

fun decode_keys :: "bool \<Rightarrow> u8 list \<Rightarrow> u8 list" where
  "decode_keys sh [] = []"
| "decode_keys sh (d # ds) =
     (if d = 0x2A \<or> d = 0x36 then decode_keys True ds
      else if d = 0xAA \<or> d = 0xB6 then decode_keys False ds
      else case scancode_byte sh d of
             Some b \<Rightarrow> b # decode_keys sh ds
           | None \<Rightarrow> decode_keys sh ds)"

lemma handle_keyboard_inv [wf_intros]: "kbd_inv k \<Longrightarrow> kbd_inv (handle_keyboard st d k)"
  by (auto simp: handle_keyboard_def Let_def kbd.inv_push split: option.split)

lemma handle_keyboard_cases:
  "handle_keyboard 1 d k =
     (if d = 0x2A \<or> d = 0x36 then k\<lparr>kbd_shift := True\<rparr>
      else if d = 0xAA \<or> d = 0xB6 then k\<lparr>kbd_shift := False\<rparr>
      else case scancode_byte (kbd_shift k) d of Some b \<Rightarrow> kbd_push b k | None \<Rightarrow> k)"
  by (auto simp: handle_keyboard_def scancode_byte_def Let_def not_le)

lemma fold_handle_keyboard:
  assumes "kbd_inv k"
  shows "kbd_inv (fold (handle_keyboard 1) ds k) \<and>
         kbd_contents (fold (handle_keyboard 1) ds k) =
           take (KBD_BUF_SIZE - 1) (kbd_contents k @ decode_keys (kbd_shift k) ds)"
  using assms
proof (induction ds arbitrary: k)
  case Nil
  then show ?case using kbd.contents_bounded [OF Nil] by simp
next
  case (Cons d ds)
  let ?k = "handle_keyboard 1 d k"
  have inv: "kbd_inv ?k" using Cons.prems by (rule handle_keyboard_inv)
  have "take (KBD_BUF_SIZE - 1) (kbd_contents ?k @ decode_keys (kbd_shift ?k) ds) =
        take (KBD_BUF_SIZE - 1) (kbd_contents k @ decode_keys (kbd_shift k) (d # ds))"
  proof (cases "scancode_byte (kbd_shift k) d")
    case None
    then show ?thesis by (simp add: handle_keyboard_cases)
  next
    case (Some b)
    then show ?thesis
      using kbd.contents_bounded [OF Cons.prems]
      by (auto simp: handle_keyboard_cases kbd.push_contents [OF Cons.prems] take_Cons'
          Suc_diff_Suc)
  qed
  then show ?case using Cons.IH [OF inv] by simp
qed

text \<open>C24.  Typing refines decoding: after any sequence of key interrupts, a read of
  \<open>n\<close> bytes returns the first \<open>n\<close> of the decoded characters in order (later keys
  are dropped once 255 are waiting), and leaves the rest queued.\<close>

theorem keyboard_types_decoded:
  "kbd_read n (fold (handle_keyboard 1) ds keyboard_new) = (out, k') \<Longrightarrow>
   out = take n (take 255 (decode_keys False ds)) \<and>
   kbd_contents k' = drop n (take 255 (decode_keys False ds))"
  using fold_handle_keyboard [OF kbd_inv_new, of ds]
    kbd.drain_contents [of "fold (handle_keyboard 1) ds keyboard_new" n out k']
  by (simp add: kbd_read_def kbd_contents_new KBD_BUF_SIZE_def kbd_shift_new)

theorem keyboard_types_decoded_witness:
  "fst (kbd_read 2 (fold (handle_keyboard 1) [0x2A, 0x23, 0xAA, 0x17, 0x1C] keyboard_new))
     = bytes ''Hi''"
proof -
  have "decode_keys False [0x2A, 0x23, 0xAA, 0x17, 0x1C] = [0x48, 0x69, 0x0A]"
    by code_simp
  moreover have "bytes ''Hi'' = [0x48, 0x69]" by code_simp
  ultimately show ?thesis
    using keyboard_types_decoded
      [of 2 "[0x2A, 0x23, 0xAA, 0x17, 0x1C]"
          "fst (kbd_read 2 (fold (handle_keyboard 1) [0x2A, 0x23, 0xAA, 0x17, 0x1C] keyboard_new))"
          "snd (kbd_read 2 (fold (handle_keyboard 1) [0x2A, 0x23, 0xAA, 0x17, 0x1C] keyboard_new))"]
    by simp
qed

end
