(* ===== verification/Page_Allocator.thy ===== *)
theory Page_Allocator imports Vibix_Prelude begin

text \<open>The contract between the physical page allocator and its clients (page
  tables, the ELF loader, process stacks): \<open>palloc\<close> hands out a non-null page that
  was available, or null when there is none; \<open>pfree\<close> of a managed page makes it
  available again.  The clients' roll back argument is proved here once.\<close>

locale page_allocator =
  fixes palloc :: "'s \<Rightarrow> u64 \<times> 's"
    and pfree :: "u64 \<Rightarrow> 's \<Rightarrow> 's"
    and avail :: "'s \<Rightarrow> u64 set"
    and frames :: "'s \<Rightarrow> u64 set"
    and inv :: "'s \<Rightarrow> bool"
  assumes alloc_null: "inv s \<Longrightarrow> palloc s = (0, s') \<Longrightarrow> s' = s \<and> avail s = {}"
    and alloc_page: "inv s \<Longrightarrow> palloc s = (a, s') \<Longrightarrow> a \<noteq> 0 \<Longrightarrow>
          a \<in> avail s \<and> avail s' = avail s - {a} \<and> frames s' = frames s \<and> inv s'"
    and free_page: "inv s \<Longrightarrow> a \<in> frames s \<Longrightarrow>
          avail (pfree a s) = insert a (avail s) \<and> frames (pfree a s) = frames s \<and> inv (pfree a s)"
    and avail_frames: "inv s \<Longrightarrow> avail s \<subseteq> frames s"
    and null_frame: "inv s \<Longrightarrow> 0 \<notin> frames s"
begin

lemma free_all:
  "inv s \<Longrightarrow> set as \<subseteq> frames s \<Longrightarrow>
   avail (fold pfree as s) = set as \<union> avail s \<and> frames (fold pfree as s) = frames s
   \<and> inv (fold pfree as s)"
proof (induction as arbitrary: s)
  case (Cons a as)
  then show ?case using free_page [of s a] Cons.IH [of "pfree a s"] by simp
qed simp

text \<open>A page in use is never handed out twice, and giving back what was taken
  restores the pool.\<close>

lemma alloc_free_restores:
  assumes "inv s" "palloc s = (a, s')" "a \<noteq> 0"
  shows "avail (pfree a s') = avail s"
  using alloc_page [OF assms] free_page [of s' a] avail_frames [OF assms(1)] by auto

end

text \<open>Clients take pages one by one and keep the list of what they own.\<close>

fun take_pages :: "('s \<Rightarrow> u64 \<times> 's) \<Rightarrow> nat \<Rightarrow> 's \<Rightarrow> u64 list \<times> 's" where
  "take_pages pa 0 s = ([], s)"
| "take_pages pa (Suc n) s =
     (let (a, s1) = pa s in
      if a = 0 then ([], s1)
      else let (as, s2) = take_pages pa n s1 in (a # as, s2))"

context page_allocator begin

lemma take_pages_distinct:
  "inv s \<Longrightarrow> take_pages palloc n s = (as, s') \<Longrightarrow>
   distinct as \<and> set as \<subseteq> avail s \<and> avail s' = avail s - set as \<and> frames s' = frames s \<and> inv s'"
proof (induction n arbitrary: s as s')
  case (Suc n)
  obtain a s1 where a: "palloc s = (a, s1)" by (cases "palloc s")
  show ?case
  proof (cases "a = 0")
    case True
    then show ?thesis using alloc_null [of s s1] Suc.prems a by auto
  next
    case False
    obtain as1 s2 where r: "take_pages palloc n s1 = (as1, s2)" by (cases "take_pages palloc n s1")
    have p: "a \<in> avail s" "avail s1 = avail s - {a}" "frames s1 = frames s" "inv s1"
      using alloc_page [OF Suc.prems(1) a False] by auto
    show ?thesis using Suc.IH [OF p(4) r] Suc.prems(2) a False r p by auto
  qed
qed auto

lemma take_pages_rollback:
  assumes "inv s" "take_pages palloc n s = (as, s')"
  shows "avail (fold pfree as s') = avail s"
  using take_pages_distinct [OF assms] free_all [of s' as] avail_frames [OF assms(1)] by auto

end

end
