(* ===== verification/Pmm.thy ===== *)
theory Pmm imports Page_Allocator begin

text \<open>The physical page allocator (\<open>pmm.rs\<close>): a bitmap with one bit per 4 KiB page,
  first-fit allocation, and the multi-page allocation that rolls back.  The
  bitmap is one static shared by the boot allocator and the global one, so it is
  a field of the state beside \<open>total_pages\<close> and \<open>memory_start\<close>.\<close>

definition PMM_PAGE_SIZE :: u64 where
  "PMM_PAGE_SIZE = 4096"

definition PMM_MAX_PAGES :: nat where
  "PMM_MAX_PAGES = 0x10000"

definition BITMAP_SIZE :: nat where
  "BITMAP_SIZE = PMM_MAX_PAGES div 8"

record pmm =
  total_pages :: nat
  memory_start :: u64
  pmm_bitmap :: "u8 list"

definition pmm_new :: "u8 list \<Rightarrow> pmm" where
  "pmm_new bm = \<lparr>total_pages = 0, memory_start = 0, pmm_bitmap = bm\<rparr>"

text \<open>\<open>init_global\<close> copies the two fields of the boot allocator.\<close>
definition init_global :: "pmm \<Rightarrow> pmm \<Rightarrow> pmm" where
  "init_global loc g = g\<lparr>total_pages := total_pages loc, memory_start := memory_start loc\<rparr>"

definition page_used :: "u8 list \<Rightarrow> nat \<Rightarrow> bool" where
  "page_used bm i \<longleftrightarrow> bm ! (i div 8) AND push_bit (i mod 8) 1 \<noteq> 0"

definition set_page :: "nat \<Rightarrow> u8 list \<Rightarrow> u8 list" where
  "set_page i bm = bm[i div 8 := bm ! (i div 8) OR push_bit (i mod 8) 1]"

definition clear_page :: "nat \<Rightarrow> u8 list \<Rightarrow> u8 list" where
  "clear_page i bm = bm[i div 8 := bm ! (i div 8) AND NOT (push_bit (i mod 8) 1)]"

definition capped_pages :: "u64 \<Rightarrow> u64 \<Rightarrow> nat" where
  "capped_pages s e = (let n = unat ((e - s) div PMM_PAGE_SIZE) in
     if n > PMM_MAX_PAGES then PMM_MAX_PAGES else n)"

definition pmm_init :: "u64 \<Rightarrow> u64 \<Rightarrow> pmm \<Rightarrow> pmm" where
  "pmm_init s e p =
     \<lparr>total_pages = capped_pages s e, memory_start = s,
      pmm_bitmap = fold set_page [0..<4] (map (\<lambda>_. 0) (pmm_bitmap p))\<rparr>"

definition init_all_used :: "u64 \<Rightarrow> u64 \<Rightarrow> pmm \<Rightarrow> pmm" where
  "init_all_used s e p =
     \<lparr>total_pages = capped_pages s e, memory_start = s,
      pmm_bitmap = map (\<lambda>_. 0xFF) (pmm_bitmap p)\<rparr>"

definition page_addr :: "pmm \<Rightarrow> nat \<Rightarrow> u64" where
  "page_addr p i = memory_start p + of_nat i * PMM_PAGE_SIZE"

definition alloc :: "pmm \<Rightarrow> u64 \<times> pmm" where
  "alloc p =
     (case find (\<lambda>i. \<not> page_used (pmm_bitmap p) i) [0..<total_pages p] of
        Some i \<Rightarrow> (page_addr p i, p\<lparr>pmm_bitmap := set_page i (pmm_bitmap p)\<rparr>)
      | None \<Rightarrow> (0, p))"

definition free :: "u64 \<Rightarrow> pmm \<Rightarrow> pmm" where
  "free a p =
     (if a < memory_start p then p
      else let page = unat ((a - memory_start p) div PMM_PAGE_SIZE) in
        if page \<ge> PMM_MAX_PAGES then p
        else p\<lparr>pmm_bitmap := clear_page page (pmm_bitmap p)\<rparr>)"

text \<open>The loop of \<open>alloc_pages\<close> at index \<open>i\<close>, with the roll back of its early return.\<close>
function alloc_pages_loop :: "u64 \<Rightarrow> nat \<Rightarrow> nat \<Rightarrow> pmm \<Rightarrow> u64 \<times> pmm" where
  "alloc_pages_loop first i count p =
     (if i < count then
        (let (q, p1) = alloc p in
         if q = 0 \<or> q \<noteq> first + of_nat i * PMM_PAGE_SIZE then
           (let p2 = if q \<noteq> 0 then free q p1 else p1 in
            (0, fold (\<lambda>j. free (first + of_nat j * PMM_PAGE_SIZE)) [0..<i] p2))
         else alloc_pages_loop first (i + 1) count p1)
      else (first, p))"
  by pat_completeness auto

termination
  by (relation "measure (\<lambda>(_, i, count, _). count - i)") auto

declare alloc_pages_loop.simps [simp del]

definition alloc_pages :: "nat \<Rightarrow> pmm \<Rightarrow> u64 \<times> pmm" where
  "alloc_pages count p =
     (if count = 0 then (0, p)
      else let (first, p1) = alloc p in
        if first = 0 then (0, p1) else alloc_pages_loop first 1 count p1)"

definition available_pages :: "pmm \<Rightarrow> nat" where
  "available_pages p =
     length (filter (\<lambda>i. \<not> page_used (pmm_bitmap p) i) [0..<total_pages p])"

text \<open>The page range \<open>reserve\<close> and \<open>init_region\<close> walk: inclusive bounds, the last one
  capped unless the size is 0.\<close>
definition region_pages :: "u64 \<Rightarrow> u64 \<Rightarrow> pmm \<Rightarrow> nat \<times> nat" where
  "region_pages base sz p =
     (let start_page = unat ((base - memory_start p) div PMM_PAGE_SIZE);
          end_page = (if sz = 0 then start_page
                      else let e = unat ((base - memory_start p + sz - 1) div PMM_PAGE_SIZE) in
                           if e \<ge> PMM_MAX_PAGES then PMM_MAX_PAGES - 1 else e)
      in (start_page, end_page))"

text \<open>An index past the bitmap panics; \<open>None\<close> is that panic.\<close>
definition reserve :: "u64 \<Rightarrow> u64 \<Rightarrow> pmm \<Rightarrow> pmm option" where
  "reserve base sz p =
     (if base < memory_start p then Some p
      else let (s, e) = region_pages base sz p in
        if s \<le> e \<and> e \<ge> PMM_MAX_PAGES then None
        else Some (p\<lparr>pmm_bitmap := fold set_page [s..<e + 1] (pmm_bitmap p)\<rparr>))"

definition init_region :: "u64 \<Rightarrow> u64 \<Rightarrow> pmm \<Rightarrow> pmm option" where
  "init_region base sz p =
     (if base < memory_start p then Some p
      else let (s, e) = region_pages base sz p in
        if s \<le> e \<and> e \<ge> PMM_MAX_PAGES then None
        else Some (p\<lparr>pmm_bitmap := fold clear_page [s..<e + 1] (pmm_bitmap p)\<rparr>))"

text \<open>The boot self-test; the result is the verdict it prints.\<close>
datatype pmm_verdict = TestFailedAllocation | TestFailedReallocation | TestPassed

definition pmm_test :: "pmm \<Rightarrow> pmm_verdict \<times> pmm" where
  "pmm_test p =
     (let (p1, s) = alloc p; (p2, s) = alloc s; (p3, s) = alloc s in
      if p1 = 0 \<or> p2 = 0 \<or> p3 = 0 then (TestFailedAllocation, s)
      else let s = free p2 s; (p4, s) = alloc s in
        if p4 \<noteq> p2 then (TestFailedReallocation, s)
        else (TestPassed, free p4 (free p3 (free p1 s))))"

subsection \<open>The bitmap as a set of used pages\<close>

definition pmm_inv :: "pmm \<Rightarrow> bool" where
  "pmm_inv p \<longleftrightarrow> length (pmm_bitmap p) = BITMAP_SIZE \<and> total_pages p \<le> PMM_MAX_PAGES
     \<and> memory_start p \<noteq> 0 \<and> unat (memory_start p) + PMM_MAX_PAGES * 4096 \<le> 2 ^ 64"

definition used_pages :: "pmm \<Rightarrow> nat set" where
  "used_pages p = {i. i < PMM_MAX_PAGES \<and> page_used (pmm_bitmap p) i}"

definition free_addrs :: "pmm \<Rightarrow> u64 set" where
  "free_addrs p = page_addr p ` ({..<total_pages p} - used_pages p)"

lemma page_used_bit: "page_used bm i \<longleftrightarrow> bit (bm ! (i div 8)) (i mod 8)"
  by (simp add: page_used_def bit_iff_and_push_bit_not_eq_0)

lemma page_used_set [pmm_simps]:
  assumes "i < 8 * length bm" "j < 8 * length bm"
  shows "page_used (set_page i bm) j \<longleftrightarrow> j = i \<or> page_used bm j"
proof (cases "i div 8 = j div 8")
  case True
  have "i div 8 < length bm" using assms by auto
  moreover have "i = j \<longleftrightarrow> i mod 8 = j mod 8"
    using True by (metis div_mult_mod_eq)
  ultimately show ?thesis
    using True by (auto simp: page_used_bit set_page_def bit_simps)
next
  case False
  then have "j \<noteq> i" by auto
  with False show ?thesis by (simp add: page_used_bit set_page_def)
qed

lemma page_used_clear [pmm_simps]:
  assumes "i < 8 * length bm" "j < 8 * length bm"
  shows "page_used (clear_page i bm) j \<longleftrightarrow> j \<noteq> i \<and> page_used bm j"
proof (cases "i div 8 = j div 8")
  case True
  have "i div 8 < length bm" using assms by auto
  moreover have "i = j \<longleftrightarrow> i mod 8 = j mod 8"
    using True by (metis div_mult_mod_eq)
  ultimately show ?thesis
    using True by (auto simp: page_used_bit clear_page_def bit_simps)
next
  case False
  then have "j \<noteq> i" by auto
  with False show ?thesis by (simp add: page_used_bit clear_page_def)
qed

lemma length_set_page [simp]: "length (set_page i bm) = length bm"
  by (simp add: set_page_def)

lemma length_clear_page [simp]: "length (clear_page i bm) = length bm"
  by (simp add: clear_page_def)

lemma byte_bits_eqI: "(\<And>k. k < 8 \<Longrightarrow> bit (a :: u8) k = bit b k) \<Longrightarrow> a = b"
  by (rule bit_word_eqI) simp

lemma clear_set_page:
  assumes "i < 8 * length bm" "\<not> page_used bm i"
  shows "clear_page i (set_page i bm) = bm"
proof -
  have l: "i div 8 < length bm" using assms(1) by auto
  have "bm ! (i div 8) = (bm ! (i div 8) OR push_bit (i mod 8) 1) AND NOT (push_bit (i mod 8) 1)"
    using assms(2) by (intro byte_bits_eqI) (auto simp: page_used_bit bit_simps)
  then show ?thesis using l by (simp add: clear_page_def set_page_def)
qed

lemma bitmap_eqI:
  assumes "length bm = length bm'" "\<And>i. i < 8 * length bm \<Longrightarrow> page_used bm i = page_used bm' i"
  shows "bm = bm'"
proof (rule nth_equalityI)
  fix n assume n: "n < length bm"
  show "bm ! n = bm' ! n"
  proof (rule byte_bits_eqI)
    fix k :: nat assume "k < 8"
    then show "bit (bm ! n) k = bit (bm' ! n) k"
      using assms(2) [of "8 * n + k"] n by (simp add: page_used_bit)
  qed
qed (use assms in simp)

lemma length_fold_set_page [simp]: "length (fold set_page is bm) = length bm"
  by (induction "is" arbitrary: bm) simp_all

lemma length_fold_clear_page [simp]: "length (fold clear_page is bm) = length bm"
  by (induction "is" arbitrary: bm) simp_all

lemma page_used_fold_set [pmm_simps]:
  "set is \<subseteq> {..<8 * length bm} \<Longrightarrow> j < 8 * length bm \<Longrightarrow>
   page_used (fold set_page is bm) j \<longleftrightarrow> j \<in> set is \<or> page_used bm j"
  by (induction "is" arbitrary: bm) (auto simp: page_used_set)

lemma page_used_fold_clear [pmm_simps]:
  "set is \<subseteq> {..<8 * length bm} \<Longrightarrow> j < 8 * length bm \<Longrightarrow>
   page_used (fold clear_page is bm) j \<longleftrightarrow> j \<notin> set is \<and> page_used bm j"
  by (induction "is" arbitrary: bm) (auto simp: page_used_clear)

lemma fold_clear_set:
  assumes "set is \<subseteq> {..<8 * length bm}" "\<forall>i \<in> set is. \<not> page_used bm i"
  shows "fold clear_page is (fold set_page is bm) = bm"
  using assms by (intro bitmap_eqI) (auto simp: page_used_fold_clear page_used_fold_set)

subsection \<open>Page addresses\<close>

lemma pmm_inv_len [simp]: "pmm_inv p \<Longrightarrow> 8 * length (pmm_bitmap p) = PMM_MAX_PAGES"
  by (simp add: pmm_inv_def BITMAP_SIZE_def PMM_MAX_PAGES_def)

lemma pmm_inv_bitmap [simp]:
  "length bm = length (pmm_bitmap p) \<Longrightarrow> pmm_inv (p\<lparr>pmm_bitmap := bm\<rparr>) = pmm_inv p"
  by (simp add: pmm_inv_def)

lemma page_addr_bitmap [simp]: "page_addr (p\<lparr>pmm_bitmap := bm\<rparr>) i = page_addr p i"
  by (simp add: page_addr_def)

lemma unat_page_addr:
  assumes "pmm_inv p" "i < PMM_MAX_PAGES"
  shows "unat (page_addr p i) = unat (memory_start p) + i * 4096"
proof -
  have "unat (of_nat i * (4096 :: u64)) = i * 4096"
    using assms(2) unat_of_nat64 [of "i * 4096"] by (simp add: PMM_MAX_PAGES_def)
  then show ?thesis
    using assms unat_add64 [of "memory_start p" "of_nat i * 4096"]
    by (simp add: page_addr_def PMM_PAGE_SIZE_def pmm_inv_def PMM_MAX_PAGES_def)
qed

lemma page_addr_inject [pmm_simps]:
  assumes "pmm_inv p" "i < PMM_MAX_PAGES" "j < PMM_MAX_PAGES"
  shows "page_addr p i = page_addr p j \<longleftrightarrow> i = j"
proof
  assume "page_addr p i = page_addr p j"
  then have "unat (page_addr p i) = unat (page_addr p j)" by simp
  then show "i = j"
    by (simp add: unat_page_addr [OF assms(1,2)] unat_page_addr [OF assms(1,3)])
qed simp

lemma page_addr_nonzero [pmm_simps]:
  assumes "pmm_inv p" "i < PMM_MAX_PAGES"
  shows "page_addr p i \<noteq> 0"
  using unat_page_addr [OF assms] assms(1) by (auto simp: pmm_inv_def unat_eq_zero)

lemma page_addr_add: "page_addr p f + of_nat i * PMM_PAGE_SIZE = page_addr p (f + i)"
  by (simp add: page_addr_def algebra_simps)

lemma free_page_addr [pmm_simps]:
  assumes "pmm_inv p" "i < PMM_MAX_PAGES"
  shows "free (page_addr p i) p = p\<lparr>pmm_bitmap := clear_page i (pmm_bitmap p)\<rparr>"
proof -
  have le: "memory_start p \<le> page_addr p i"
    using unat_page_addr [OF assms] by (simp add: word_le_nat_alt)
  then have "unat ((page_addr p i - memory_start p) div PMM_PAGE_SIZE) = i"
    using unat_page_addr [OF assms] by (simp add: unat_div unat_sub PMM_PAGE_SIZE_def)
  then show ?thesis using le assms(2) by (simp add: free_def Let_def)
qed

lemma free_after_set:
  assumes "pmm_inv p" "i < PMM_MAX_PAGES" "\<not> page_used (pmm_bitmap p) i"
  shows "free (page_addr p i) (p\<lparr>pmm_bitmap := set_page i (pmm_bitmap p)\<rparr>) = p"
  using assms free_page_addr [of "p\<lparr>pmm_bitmap := set_page i (pmm_bitmap p)\<rparr>" i]
  by (simp add: clear_set_page)

lemma fold_free_pages:
  assumes "pmm_inv p" "\<forall>i \<in> set is. i < PMM_MAX_PAGES"
  shows "fold (\<lambda>j. free (page_addr p j)) is p = p\<lparr>pmm_bitmap := fold clear_page is (pmm_bitmap p)\<rparr>"
  using assms
proof (induction "is" arbitrary: p)
  case (Cons i "is")
  let ?p = "p\<lparr>pmm_bitmap := clear_page i (pmm_bitmap p)\<rparr>"
  have "fold (\<lambda>j. free (page_addr p j)) is ?p = fold (\<lambda>j. free (page_addr ?p j)) is ?p"
    by (rule fold_cong) simp_all
  then show ?case
    using Cons.IH [of ?p] Cons.prems by (simp add: free_page_addr)
qed simp

subsection \<open>Allocation\<close>

definition lowest_free :: "pmm \<Rightarrow> nat option" where
  "lowest_free p = find (\<lambda>i. \<not> page_used (pmm_bitmap p) i) [0..<total_pages p]"

lemma alloc_alt:
  "alloc p = (case lowest_free p of
      Some i \<Rightarrow> (page_addr p i, p\<lparr>pmm_bitmap := set_page i (pmm_bitmap p)\<rparr>) | None \<Rightarrow> (0, p))"
  by (simp add: alloc_def lowest_free_def)

lemma lowest_free_Some:
  "lowest_free p = Some i \<longleftrightarrow>
   i < total_pages p \<and> \<not> page_used (pmm_bitmap p) i \<and> (\<forall>j<i. page_used (pmm_bitmap p) j)"
  by (simp add: lowest_free_def find_upt_Some_iff)

lemma lowest_free_None:
  "lowest_free p = None \<longleftrightarrow> (\<forall>i<total_pages p. page_used (pmm_bitmap p) i)"
  by (simp add: lowest_free_def find_upt_None_iff)

lemma lowest_free_bound: "pmm_inv p \<Longrightarrow> lowest_free p = Some i \<Longrightarrow> i < PMM_MAX_PAGES"
  by (auto simp: lowest_free_Some pmm_inv_def)

lemma used_pages_set:
  "pmm_inv p \<Longrightarrow> i < PMM_MAX_PAGES \<Longrightarrow>
   used_pages (p\<lparr>pmm_bitmap := set_page i (pmm_bitmap p)\<rparr>) = insert i (used_pages p)"
  by (auto simp: used_pages_def page_used_set)

lemma used_pages_clear:
  "pmm_inv p \<Longrightarrow> i < PMM_MAX_PAGES \<Longrightarrow>
   used_pages (p\<lparr>pmm_bitmap := clear_page i (pmm_bitmap p)\<rparr>) = used_pages p - {i}"
  by (auto simp: used_pages_def page_used_clear)

lemma alloc_inv [wf_intros]: "pmm_inv p \<Longrightarrow> pmm_inv (snd (alloc p))"
  by (simp add: alloc_alt split: option.split)

lemma free_inv [wf_intros]: "pmm_inv p \<Longrightarrow> pmm_inv (free a p)"
  by (simp add: free_def Let_def)

lemma free_addrs_subset: "free_addrs p \<subseteq> page_addr p ` {..<total_pages p}"
  by (auto simp: free_addrs_def)

lemma free_addrs_insert:
  assumes "pmm_inv p" "i < total_pages p"
  shows "free_addrs (p\<lparr>pmm_bitmap := set_page i (pmm_bitmap p)\<rparr>) = free_addrs p - {page_addr p i}"
proof -
  have t: "total_pages p \<le> PMM_MAX_PAGES" using assms(1) by (simp add: pmm_inv_def)
  then have "inj_on (page_addr p) {..<total_pages p}"
    using assms(1) by (auto simp: inj_on_def page_addr_inject)
  then have "page_addr p ` ({..<total_pages p} - insert i (used_pages p))
      = page_addr p ` ({..<total_pages p} - used_pages p) - {page_addr p i}"
    using assms(2) by (auto simp: inj_on_def)
  then show ?thesis
    using assms t by (simp add: free_addrs_def used_pages_set image_def)
qed

lemma free_addrs_remove:
  assumes "pmm_inv p" "i < total_pages p"
  shows "free_addrs (p\<lparr>pmm_bitmap := clear_page i (pmm_bitmap p)\<rparr>)
           = insert (page_addr p i) (free_addrs p)"
proof -
  have "i < PMM_MAX_PAGES" using assms by (simp add: pmm_inv_def)
  then show ?thesis
    using assms by (auto simp: free_addrs_def used_pages_clear image_def)
qed

interpretation phys: page_allocator alloc free free_addrs "\<lambda>p. page_addr p ` {..<total_pages p}" pmm_inv
proof (unfold_locales, goal_cases)
  case (1 s s')
  have "lowest_free s = None"
    using 1 page_addr_nonzero [OF 1(1)] lowest_free_bound [OF 1(1)]
    by (auto simp: alloc_alt split: option.splits)
  then show ?case
    using 1 by (auto simp: alloc_alt free_addrs_def used_pages_def pmm_inv_def)
      (simp add: lowest_free_None)
next
  case (2 s a s')
  then obtain i where i: "lowest_free s = Some i" "a = page_addr s i"
      "s' = s\<lparr>pmm_bitmap := set_page i (pmm_bitmap s)\<rparr>"
    by (auto simp: alloc_alt split: option.splits)
  then have "i < total_pages s" "i \<notin> used_pages s"
    by (auto simp: lowest_free_Some used_pages_def)
  moreover then have "a \<in> free_addrs s" using i by (simp add: free_addrs_def)
  ultimately show ?case using 2(1) i by (simp add: free_addrs_insert)
next
  case (3 s a)
  then obtain i where "i < total_pages s" "a = page_addr s i" by auto
  moreover then have "i < PMM_MAX_PAGES" using 3(1) by (simp add: pmm_inv_def)
  ultimately show ?case using 3(1) by (simp add: free_page_addr free_addrs_remove)
next
  case (4 s)
  show ?case by (rule free_addrs_subset)
next
  case (5 s)
  then show ?case using page_addr_nonzero [OF 5] by (force simp: pmm_inv_def)
qed

subsection \<open>Contiguous allocation\<close>

text \<open>The reference behaviour of \<open>alloc_pages\<close>: the run of pages that starts at the
  lowest free page is taken whole, or nothing is.\<close>

definition run_free :: "pmm \<Rightarrow> nat \<Rightarrow> nat \<Rightarrow> bool" where
  "run_free p f n \<longleftrightarrow> f + n \<le> total_pages p \<and> (\<forall>j \<in> {f..<f + n}. \<not> page_used (pmm_bitmap p) j)"

definition take_run :: "pmm \<Rightarrow> nat \<Rightarrow> nat \<Rightarrow> pmm" where
  "take_run p f n = p\<lparr>pmm_bitmap := fold set_page [f..<f + n] (pmm_bitmap p)\<rparr>"

definition alloc_pages_ref :: "nat \<Rightarrow> pmm \<Rightarrow> u64 \<times> pmm" where
  "alloc_pages_ref n p =
     (case lowest_free p of
        Some f \<Rightarrow> if 0 < n \<and> run_free p f n then (page_addr p f, take_run p f n) else (0, p)
      | None \<Rightarrow> (0, p))"

lemma take_run_Suc:
  "take_run p f (Suc i) = (take_run p f i)\<lparr>pmm_bitmap := set_page (f + i) (pmm_bitmap (take_run p f i))\<rparr>"
  by (simp add: take_run_def)

lemma take_run_simps [simp]:
  "total_pages (take_run p f i) = total_pages p" "page_addr (take_run p f i) = page_addr p"
  "pmm_inv (take_run p f i) = pmm_inv p"
  by (simp_all add: take_run_def fun_eq_iff)

lemma page_used_take_run:
  assumes "pmm_inv p" "run_free p f i" "j < PMM_MAX_PAGES"
  shows "page_used (pmm_bitmap (take_run p f i)) j \<longleftrightarrow> j \<in> {f..<f + i} \<or> page_used (pmm_bitmap p) j"
proof -
  have "set [f..<f + i] \<subseteq> {..<8 * length (pmm_bitmap p)}"
    using assms(1,2) by (auto simp: run_free_def pmm_inv_def BITMAP_SIZE_def PMM_MAX_PAGES_def)
  then show ?thesis using assms by (simp add: take_run_def page_used_fold_set)
qed

lemma lowest_free_take_run:
  assumes inv: "pmm_inv p" and f: "lowest_free p = Some f" and run: "run_free p f i"
    and k: "lowest_free (take_run p f i) = Some k"
  shows "f + i \<le> k \<and> (k = f + i \<longleftrightarrow> run_free p f (Suc i))"
proof -
  have t: "total_pages p \<le> PMM_MAX_PAGES" using inv by (simp add: pmm_inv_def)
  have k': "k < total_pages p" "\<not> page_used (pmm_bitmap (take_run p f i)) k"
      "\<forall>j<k. page_used (pmm_bitmap (take_run p f i)) j"
    using k by (auto simp: lowest_free_Some)
  have used: "page_used (pmm_bitmap (take_run p f i)) j \<longleftrightarrow> j \<in> {f..<f + i} \<or> page_used (pmm_bitmap p) j"
    if "j < total_pages p" for j
    using page_used_take_run [OF inv run] that t by simp
  have "\<forall>j<f. page_used (pmm_bitmap p) j" using f by (simp add: lowest_free_Some)
  then have "f + i \<le> k" using k' used by (meson atLeastLessThan_iff leI)
  moreover have "k = f + i" if "run_free p f (Suc i)"
  proof (rule ccontr)
    assume "k \<noteq> f + i"
    then have "page_used (pmm_bitmap (take_run p f i)) (f + i)" "f + i < total_pages p"
      using k'(1,3) \<open>f + i \<le> k\<close> by auto
    then show False using used [of "f + i"] that by (simp add: run_free_def)
  qed
  moreover have "run_free p f (Suc i)" if "k = f + i"
    using k' used [of k] that run by (auto simp: run_free_def less_Suc_eq)
  ultimately show ?thesis by blast
qed

lemma lowest_free_take_run_None:
  assumes inv: "pmm_inv p" and run: "run_free p f i"
    and k: "lowest_free (take_run p f i) = None"
  shows "\<not> run_free p f (Suc i)"
  using k inv page_used_take_run [OF inv run, of "f + i"]
  by (auto simp: lowest_free_None run_free_def pmm_inv_def)

lemma rollback_take_run:
  assumes inv: "pmm_inv p" and run: "run_free p f i"
  shows "fold (\<lambda>j. free (page_addr p f + of_nat j * PMM_PAGE_SIZE)) [0..<i] (take_run p f i) = p"
proof -
  have b: "\<forall>j \<in> set [f..<f + i]. j < PMM_MAX_PAGES"
    using run inv by (auto simp: run_free_def pmm_inv_def)
  have "fold (\<lambda>j. free (page_addr p f + of_nat j * PMM_PAGE_SIZE)) [0..<i] (take_run p f i)
      = fold (\<lambda>j. free (page_addr (take_run p f i) j)) (map ((+) f) [0..<i]) (take_run p f i)"
    by (simp add: page_addr_add fold_map o_def)
  also have "map ((+) f) [0..<i] = [f..<f + i]" by (rule nth_equalityI) simp_all
  also have "fold (\<lambda>j. free (page_addr (take_run p f i) j)) [f..<f + i] (take_run p f i)
      = (take_run p f i)\<lparr>pmm_bitmap := fold clear_page [f..<f + i] (pmm_bitmap (take_run p f i))\<rparr>"
    using b inv by (intro fold_free_pages) simp_all
  also have "\<dots> = p"
    using run b inv by (simp add: take_run_def) (subst fold_clear_set, auto simp: run_free_def)
  finally show ?thesis .
qed

lemma alloc_pages_loop_ref:
  assumes inv: "pmm_inv p" and f: "lowest_free p = Some f"
  shows "run_free p f i \<Longrightarrow> i \<le> n \<Longrightarrow>
    alloc_pages_loop (page_addr p f) i n (take_run p f i) =
      (if run_free p f n then (page_addr p f, take_run p f n) else (0, p))"
proof (induction "n - i" arbitrary: i)
  case 0
  then show ?case by (simp add: alloc_pages_loop.simps)
next
  case (Suc m)
  let ?s = "take_run p f i"
  have inv': "pmm_inv ?s" using inv by simp
  have step: "i < n" "m = n - Suc i" "Suc i \<le> n" using Suc.hyps(2) by auto
  show ?case
  proof (cases "run_free p f (Suc i)")
    case True
    then obtain k where k: "lowest_free ?s = Some k"
      using lowest_free_take_run_None [OF inv Suc.prems(1)] by fastforce
    then have kf: "k = f + i" using lowest_free_take_run [OF inv f Suc.prems(1) k] True by simp
    have a: "alloc ?s = (page_addr p (f + i), take_run p f (Suc i))"
      using k kf by (simp add: alloc_alt take_run_Suc)
    have "page_addr p (f + i) \<noteq> 0"
      using lowest_free_bound [OF inv' k] inv kf by (simp add: page_addr_nonzero)
    then show ?thesis
      using Suc.hyps(1) [OF step(2) True step(3)] step(1) a
      by (simp add: alloc_pages_loop.simps [of _ i] page_addr_add)
  next
    case False
    obtain q s1 where a: "alloc ?s = (q, s1)" by (cases "alloc ?s")
    have undo: "(q = 0 \<or> q \<noteq> page_addr p (f + i)) \<and> (if q \<noteq> 0 then free q s1 else s1) = ?s"
    proof (cases "lowest_free ?s")
      case None
      then show ?thesis using a by (simp add: alloc_alt)
    next
      case (Some k)
      have kb: "k < PMM_MAX_PAGES" "\<not> page_used (pmm_bitmap ?s) k"
        using lowest_free_bound [OF inv' Some] Some by (auto simp: lowest_free_Some)
      have kf: "f + i < k" using lowest_free_take_run [OF inv f Suc.prems(1) Some] False by simp
      have q: "q = page_addr ?s k" "s1 = ?s\<lparr>pmm_bitmap := set_page k (pmm_bitmap ?s)\<rparr>"
        using a Some by (auto simp: alloc_alt)
      have "free (page_addr ?s k) s1 = ?s" using q(2) free_after_set [OF inv' kb] by simp
      moreover have "page_addr p k \<noteq> page_addr p (f + i)"
        using kf kb(1) inv by (simp add: page_addr_inject)
      ultimately show ?thesis using q page_addr_nonzero [OF inv' kb(1)] by simp
    qed
    have "\<not> run_free p f n" using False step(1) by (auto simp: run_free_def)
    then show ?thesis
      using undo step(1) a rollback_take_run [OF inv Suc.prems(1)]
      by (simp add: alloc_pages_loop.simps [of _ i] page_addr_add Let_def)
  qed
qed

subsection \<open>A boot allocator with eight pages\<close>

lemma boot_total:
  "total_pages (pmm_init 0x100000 0x108000 (pmm_new (replicate BITMAP_SIZE 0))) = 8"
  by (simp add: pmm_init_def capped_pages_def PMM_PAGE_SIZE_def PMM_MAX_PAGES_def)

lemma boot_inv: "pmm_inv (pmm_init 0x100000 0x108000 (pmm_new (replicate BITMAP_SIZE 0)))"
  using boot_total by (simp add: pmm_inv_def pmm_init_def pmm_new_def PMM_MAX_PAGES_def)

lemma boot_page_used:
  "j < 8 \<Longrightarrow> page_used (pmm_bitmap (pmm_init 0x100000 0x108000 (pmm_new (replicate BITMAP_SIZE 0)))) j
     \<longleftrightarrow> j < 4"
  by (simp add: pmm_init_def pmm_new_def page_used_fold_set BITMAP_SIZE_def PMM_MAX_PAGES_def
      subset_iff) (simp add: page_used_bit)

lemma boot_lowest_free:
  "lowest_free (pmm_init 0x100000 0x108000 (pmm_new (replicate BITMAP_SIZE 0))) = Some 4"
  unfolding lowest_free_Some using boot_page_used boot_total by simp

subsection \<open>Properties\<close>

text \<open>C23.  \<open>alloc_pages\<close> is all or nothing and first-fit: it agrees with the reference
  that takes the whole run at the lowest free page, and in every other case it
  returns null with the allocator exactly as it was (the roll back is exact).\<close>

theorem alloc_pages_all_or_nothing:
  "pmm_inv p \<Longrightarrow> alloc_pages n p = alloc_pages_ref n p"
proof (cases "lowest_free p")
  case None
  then show ?thesis by (simp add: alloc_pages_def alloc_pages_ref_def alloc_alt)
next
  case (Some f)
  assume inv: "pmm_inv p"
  have f: "f < total_pages p" "\<not> page_used (pmm_bitmap p) f"
    using Some by (auto simp: lowest_free_Some)
  then have r1: "run_free p f (Suc 0)" by (simp add: run_free_def)
  have nz: "page_addr p f \<noteq> 0"
    using inv Some lowest_free_bound by (simp add: page_addr_nonzero)
  have a: "alloc p = (page_addr p f, take_run p f (Suc 0))"
    using Some by (simp add: alloc_alt take_run_def)
  show ?thesis
    using alloc_pages_loop_ref [OF inv Some r1, of n] Some nz a
    by (cases "n = 0") (auto simp: alloc_pages_def alloc_pages_ref_def)
qed

theorem alloc_pages_all_or_nothing_witness:
  "let p = pmm_init 0x100000 0x108000 (pmm_new (replicate BITMAP_SIZE 0)) in
   pmm_inv p \<and> alloc_pages 3 p = alloc_pages_ref 3 p \<and> fst (alloc_pages 3 p) = 0x104000"
proof -
  let ?p = "pmm_init 0x100000 0x108000 (pmm_new (replicate BITMAP_SIZE 0))"
  have "run_free ?p 4 3"
    using boot_page_used boot_total by (simp add: run_free_def)
  moreover have "page_addr ?p 4 = 0x104000"
    by (simp add: page_addr_def pmm_init_def PMM_PAGE_SIZE_def)
  ultimately show ?thesis
    using alloc_pages_all_or_nothing [OF boot_inv, of 3] boot_inv boot_lowest_free
    by (simp add: alloc_pages_ref_def)
qed

text \<open>C34.  A single page: \<open>alloc\<close> returns null exactly when every page is used and
  then changes nothing; otherwise it returns the lowest free page, marks that page
  and no other, and \<open>free\<close> of the returned pointer undoes it exactly.\<close>

theorem alloc_free_exact:
  assumes "pmm_inv p" "alloc p = (q, p')"
  shows "(q = 0 \<longleftrightarrow> {..<total_pages p} \<subseteq> used_pages p) \<and> (q = 0 \<longrightarrow> p' = p) \<and>
     (q \<noteq> 0 \<longrightarrow> free q p' = p \<and> (\<exists>i<total_pages p. q = page_addr p i \<and> i \<notin> used_pages p
         \<and> {..<i} \<subseteq> used_pages p \<and> used_pages p' = insert i (used_pages p)))"
proof (cases "lowest_free p")
  case None
  then have "\<forall>i<total_pages p. page_used (pmm_bitmap p) i" by (simp add: lowest_free_None)
  then show ?thesis
    using None assms by (auto simp: alloc_alt used_pages_def pmm_inv_def)
next
  case (Some i)
  then have i: "i < total_pages p" "\<not> page_used (pmm_bitmap p) i" "\<forall>j<i. page_used (pmm_bitmap p) j"
    by (simp_all add: lowest_free_Some)
  have ib: "i < PMM_MAX_PAGES" using i(1) assms(1) by (simp add: pmm_inv_def)
  have q: "q = page_addr p i" "p' = p\<lparr>pmm_bitmap := set_page i (pmm_bitmap p)\<rparr>"
    using assms(2) Some by (auto simp: alloc_alt)
  have "q \<noteq> 0" "free q p' = p"
    using q page_addr_nonzero [OF assms(1) ib] free_after_set [OF assms(1) ib i(2)] by simp_all
  moreover have "i \<notin> used_pages p" "{..<i} \<subseteq> used_pages p" "used_pages p' = insert i (used_pages p)"
    using i ib q assms(1) by (auto simp: used_pages_set) (auto simp: used_pages_def)
  ultimately show ?thesis using q(1) i(1) by blast
qed

theorem alloc_free_exact_witness:
  "let p = pmm_init 0x100000 0x108000 (pmm_new (replicate BITMAP_SIZE 0)) in
   free (fst (alloc p)) (snd (alloc p)) = p \<and> fst (alloc p) = 0x104000"
proof -
  let ?p = "pmm_init 0x100000 0x108000 (pmm_new (replicate BITMAP_SIZE 0))"
  have "fst (alloc ?p) = 0x104000"
    using boot_lowest_free by (simp add: alloc_alt page_addr_def pmm_init_def PMM_PAGE_SIZE_def)
  then show ?thesis
    using alloc_free_exact [OF boot_inv, of "fst (alloc ?p)" "snd (alloc ?p)"]
    by (simp add: prod_eq_iff)
qed

text \<open>The pages an aligned or unaligned byte range touches, below the bitmap's limit.\<close>

definition touched :: "pmm \<Rightarrow> u64 \<Rightarrow> u64 \<Rightarrow> nat set" where
  "touched p base n = {i. i < PMM_MAX_PAGES \<and>
      unat base - unat (memory_start p) < (i + 1) * 4096 \<and>
      i * 4096 < unat base - unat (memory_start p) + unat n}"

lemma region_pages_touched:
  assumes inv: "memory_start p \<le> base" and n: "n \<noteq> 0"
    and nw: "unat base - unat (memory_start p) + unat n < 2 ^ 64"
    and r: "region_pages base n p = (s, e)"
  shows "set [s..<e + 1] \<inter> {..<PMM_MAX_PAGES} = touched p base n \<and> (s \<le> e \<longrightarrow> e < PMM_MAX_PAGES)"
proof -
  define d where "d = unat base - unat (memory_start p)"
  have d: "unat (base - memory_start p) = d" using inv by (simp add: d_def unat_sub)
  have n1: "1 \<le> unat n" using n by (simp add: Suc_le_eq unat_gt_0)
  have s: "s = d div 4096"
    using r d by (simp add: region_pages_def Let_def unat_div PMM_PAGE_SIZE_def)
  have "unat (base - memory_start p + n) = d + unat n"
    using unat_add64 [of "base - memory_start p" n] nw d d_def by simp
  moreover have "(1 :: u64) \<le> base - memory_start p + n"
    using calculation n1 by (simp add: word_le_nat_alt)
  ultimately have en: "unat (base - memory_start p + n - 1) = d + unat n - 1"
    by (simp add: unat_sub)
  have e: "e = (let x = (d + unat n - 1) div 4096 in
        if x \<ge> PMM_MAX_PAGES then PMM_MAX_PAGES - 1 else x)"
    using r n en by (simp add: region_pages_def Let_def unat_div PMM_PAGE_SIZE_def)
  have lo: "d div 4096 \<le> i \<longleftrightarrow> d < (i + 1) * 4096" for i by auto
  have hi: "i \<le> (d + unat n - 1) div 4096 \<longleftrightarrow> i * 4096 < d + unat n" for i using n1 by auto
  have "i \<le> e \<longleftrightarrow> i * 4096 < d + unat n" if "i < PMM_MAX_PAGES" for i
    using that hi [of i] by (auto simp: e Let_def)
  then have "{i. s \<le> i \<and> i \<le> e} \<inter> {..<PMM_MAX_PAGES} = touched p base n"
    unfolding touched_def s d_def [symmetric] using lo by blast
  moreover have "set [s..<e + 1] = {i. s \<le> i \<and> i \<le> e}"
    by (auto simp del: upt_Suc)
  moreover have "e < PMM_MAX_PAGES" by (auto simp: e Let_def PMM_MAX_PAGES_def)
  ultimately show ?thesis by simp
qed

lemma region_ops_touched:
  assumes inv: "pmm_inv p" and b: "memory_start p \<le> base" and n: "n \<noteq> 0"
    and nw: "unat base - unat (memory_start p) + unat n < 2 ^ 64"
  shows "(\<exists>p'. reserve base n p = Some p' \<and> pmm_inv p' \<and>
            used_pages p' = used_pages p \<union> touched p base n) \<and>
         (\<exists>p'. init_region base n p = Some p' \<and> pmm_inv p' \<and>
            used_pages p' = used_pages p - touched p base n)"
proof -
  obtain s e where r: "region_pages base n p = (s, e)" by (cases "region_pages base n p")
  note t = region_pages_touched [OF b n nw r]
  have le: "s \<le> e \<Longrightarrow> e < PMM_MAX_PAGES" using t by blast
  then have e: "\<not> (s \<le> e \<and> PMM_MAX_PAGES \<le> e)" by linarith
  have sub: "set [s..<e + 1] \<subseteq> {..<PMM_MAX_PAGES}"
  proof
    fix x assume "x \<in> set [s..<e + 1]"
    then have "s \<le> x" "x \<le> e" by (simp_all del: upt_Suc)
    then show "x \<in> {..<PMM_MAX_PAGES}" using le by simp
  qed
  have eq: "set [s..<e + 1] = touched p base n" using t sub by blast
  have nlt: "\<not> base < memory_start p" using b by simp
  have len: "8 * length (pmm_bitmap p) = PMM_MAX_PAGES" using inv by simp
  have "reserve base n p = Some (p\<lparr>pmm_bitmap := fold set_page [s..<e + 1] (pmm_bitmap p)\<rparr>)"
    using nlt r e by (auto simp: reserve_def)
  moreover have "used_pages (p\<lparr>pmm_bitmap := fold set_page [s..<e + 1] (pmm_bitmap p)\<rparr>)
      = used_pages p \<union> touched p base n"
    using page_used_fold_set [of "[s..<e + 1]" "pmm_bitmap p"] sub unfolding len eq [symmetric]
    by (auto simp: used_pages_def simp del: upt_Suc set_upt)
  moreover have "init_region base n p = Some (p\<lparr>pmm_bitmap := fold clear_page [s..<e + 1] (pmm_bitmap p)\<rparr>)"
    using nlt r e by (auto simp: init_region_def)
  moreover have "used_pages (p\<lparr>pmm_bitmap := fold clear_page [s..<e + 1] (pmm_bitmap p)\<rparr>)
      = used_pages p - touched p base n"
    using page_used_fold_clear [of "[s..<e + 1]" "pmm_bitmap p"] sub unfolding len eq [symmetric]
    by (auto simp: used_pages_def simp del: upt_Suc set_upt)
  ultimately show ?thesis using inv by (simp del: upt_Suc)
qed

text \<open>C35.  \<open>reserve\<close> and \<open>init_region\<close> on a non-empty range above \<open>memory_start\<close> never
  index past the bitmap, and mark or release exactly the pages that the byte
  range touches, partial pages at either end included.\<close>

theorem reserve_release_touched_pages:
  assumes inv: "pmm_inv p" and b: "memory_start p \<le> base" and n: "n \<noteq> 0"
    and nw: "unat base - unat (memory_start p) + unat n < 2 ^ 64"
  shows "(\<exists>p'. reserve base n p = Some p' \<and> pmm_inv p' \<and>
            used_pages p' = used_pages p \<union> touched p base n) \<and>
         (\<exists>p'. init_region base n p = Some p' \<and> pmm_inv p' \<and>
            used_pages p' = used_pages p - touched p base n)"
  using region_ops_touched [OF assms] .

theorem reserve_release_touched_pages_witness:
  "let p = pmm_init 0x100000 0x108000 (pmm_new (replicate BITMAP_SIZE 0)) in
   \<exists>p'. reserve 0x105FFF 2 p = Some p' \<and> used_pages p' = used_pages p \<union> {5, 6}"
proof -
  let ?p = "pmm_init 0x100000 0x108000 (pmm_new (replicate BITMAP_SIZE 0))"
  have m: "memory_start ?p = 0x100000" by (simp add: pmm_init_def)
  have t: "touched ?p 0x105FFF 2 = {5, 6}" by (auto simp: touched_def m PMM_MAX_PAGES_def)
  show ?thesis
    using reserve_release_touched_pages [OF boot_inv, of "0x105FFF" 2] by (auto simp: m t)
qed

end
