(* ===== verification/Kmm.thy ===== *)
theory Kmm imports Pmm begin

text \<open>The kernel heap (\<open>kmm.rs\<close>): a first-fit allocator over an address-ordered free
  list threaded through block headers.  Headers are a typed store \<open>hdr\<close> from
  addresses to \<open>block_header\<close>; the walks over the list are \<open>partial_function\<close>s, so a
  cyclic list shows as \<^term>\<open>None\<close>, and the theorems prove they return.

  The specification is the heap as a list of adjacent blocks \<open>(size, free?)\<close>, with
  \<open>h_alloc\<close> and \<open>h_free\<close> on such lists; \<open>kmm_rep\<close> relates the two.\<close>

record block_header =
  bh_magic :: u32
  bh_size :: u64
  bh_next :: u64

record kmm =
  kfree_list :: u64
  heap_low :: u64
  heap_high :: u64
  hdr :: "u64 \<Rightarrow> block_header"

definition MAGIC :: u32 where
  "MAGIC = 0x564B4841"

definition MIN_BLOCK_SIZE :: u64 where
  "MIN_BLOCK_SIZE = 64"

definition KMALLOC_ALIGN :: u64 where
  "KMALLOC_ALIGN = 8"

definition HEADER_SIZE :: u64 where
  "HEADER_SIZE = 24"

definition INITIAL_HEAP_PAGES :: nat where
  "INITIAL_HEAP_PAGES = 256"

definition block_end :: "kmm \<Rightarrow> u64 \<Rightarrow> u64" where
  "block_end k b = b + bh_size (hdr k b)"

definition data_ptr :: "u64 \<Rightarrow> u64" where
  "data_ptr b = b + HEADER_SIZE"

text \<open>Stores through a block pointer, one field at a time.\<close>
definition set_magic :: "u64 \<Rightarrow> u32 \<Rightarrow> kmm \<Rightarrow> kmm" where
  "set_magic b v k = k\<lparr>hdr := (hdr k)(b := (hdr k b)\<lparr>bh_magic := v\<rparr>)\<rparr>"

definition set_size :: "u64 \<Rightarrow> u64 \<Rightarrow> kmm \<Rightarrow> kmm" where
  "set_size b v k = k\<lparr>hdr := (hdr k)(b := (hdr k b)\<lparr>bh_size := v\<rparr>)\<rparr>"

definition set_next :: "u64 \<Rightarrow> u64 \<Rightarrow> kmm \<Rightarrow> kmm" where
  "set_next b v k = k\<lparr>hdr := (hdr k)(b := (hdr k b)\<lparr>bh_next := v\<rparr>)\<rparr>"

definition kmm_init :: "pmm \<Rightarrow> kmm \<Rightarrow> pmm \<times> kmm" where
  "kmm_init p k =
     (let (heap_base, p') = alloc_pages INITIAL_HEAP_PAGES p in
      if heap_base = 0 then (p', k)
      else let heap_size = of_nat INITIAL_HEAP_PAGES * PMM_PAGE_SIZE;
               k = k\<lparr>heap_low := heap_base, heap_high := heap_base + heap_size\<rparr>;
               k = set_magic heap_base MAGIC k;
               k = set_size heap_base heap_size k;
               k = set_next heap_base 0 k
           in (p', k\<lparr>kfree_list := heap_base\<rparr>))"

text \<open>The first-fit walk; the result is \<open>(prev, cur)\<close> at the first block that fits.\<close>
partial_function (option) first_fit ::
  "(u64 \<Rightarrow> block_header) \<Rightarrow> u64 \<Rightarrow> u64 \<Rightarrow> u64 \<Rightarrow> (u64 \<times> u64) option option" where
  "first_fit h needed prev cur =
     (if cur = 0 then Some None
      else if bh_size (h cur) \<ge> needed then Some (Some (prev, cur))
      else first_fit h needed cur (bh_next (h cur)))"

definition set_link :: "u64 \<Rightarrow> u64 \<Rightarrow> kmm \<Rightarrow> kmm" where
  "set_link prev b k = (if prev = 0 then k\<lparr>kfree_list := b\<rparr> else set_next prev b k)"

definition take_block :: "u64 \<Rightarrow> u64 \<Rightarrow> u64 \<Rightarrow> kmm \<Rightarrow> kmm" where
  "take_block needed prev cur k =
     (let remainder = bh_size (hdr k cur) - needed;
          k = (if remainder \<ge> MIN_BLOCK_SIZE
               then let k = set_size cur needed k;
                        new_free = cur + needed;
                        k = set_magic new_free MAGIC k;
                        k = set_size new_free remainder k;
                        k = set_next new_free (bh_next (hdr k cur)) k;
                        k = set_next cur new_free k
                    in set_link prev new_free k
               else set_link prev (bh_next (hdr k cur)) k)
      in set_magic cur MAGIC k)"

definition needed_size :: "u64 \<Rightarrow> u64" where
  "needed_size sz = HEADER_SIZE + ((sz + KMALLOC_ALIGN - 1) AND NOT (KMALLOC_ALIGN - 1))"

definition kmalloc :: "u64 \<Rightarrow> kmm \<Rightarrow> (u64 \<times> kmm) option" where
  "kmalloc sz k =
     (if sz = 0 then Some (0, k)
      else case first_fit (hdr k) (needed_size sz) 0 (kfree_list k) of
             None \<Rightarrow> None
           | Some None \<Rightarrow> Some (0, k)
           | Some (Some (prev, cur)) \<Rightarrow>
               Some (data_ptr cur, take_block (needed_size sz) prev cur k))"

text \<open>The walk of \<open>kfree\<close> to the insertion point; the result is \<open>(prev, cur)\<close>.\<close>
partial_function (option) insert_point ::
  "(u64 \<Rightarrow> block_header) \<Rightarrow> u64 \<Rightarrow> u64 \<Rightarrow> u64 \<Rightarrow> (u64 \<times> u64) option" where
  "insert_point h block prev cur =
     (if cur \<noteq> 0 \<and> cur < block then insert_point h block cur (bh_next (h cur))
      else Some (prev, cur))"

definition link_block :: "u64 \<Rightarrow> u64 \<Rightarrow> u64 \<Rightarrow> kmm \<Rightarrow> kmm" where
  "link_block block prev cur k =
     (let k = (if cur \<noteq> 0 \<and> block_end k block = cur
               then let k = set_size block (bh_size (hdr k block) + bh_size (hdr k cur)) k
                    in set_next block (bh_next (hdr k cur)) k
               else set_next block cur k)
      in if prev \<noteq> 0 \<and> block_end k prev = block
         then let k = set_size prev (bh_size (hdr k prev) + bh_size (hdr k block)) k
              in set_next prev (bh_next (hdr k block)) k
         else if prev = 0 then k\<lparr>kfree_list := block\<rparr>
         else set_next prev block k)"

definition kfree :: "u64 \<Rightarrow> kmm \<Rightarrow> kmm option" where
  "kfree p k =
     (if p = 0 then Some k
      else let block = p - HEADER_SIZE in
        if bh_magic (hdr k block) \<noteq> MAGIC then Some k
        else case insert_point (hdr k) block 0 (kfree_list k) of
               None \<Rightarrow> None
             | Some (prev, cur) \<Rightarrow> Some (link_block block prev cur k))"

partial_function (option) free_bytes_from :: "(u64 \<Rightarrow> block_header) \<Rightarrow> u64 \<Rightarrow> u64 \<Rightarrow> u64 option" where
  "free_bytes_from h acc cur =
     (if cur = 0 then Some acc
      else free_bytes_from h (acc + bh_size (h cur)) (bh_next (h cur)))"

definition compute_free_bytes :: "kmm \<Rightarrow> u64 option" where
  "compute_free_bytes k = free_bytes_from (hdr k) 0 (kfree_list k)"

partial_function (option) count_from :: "(u64 \<Rightarrow> block_header) \<Rightarrow> nat \<Rightarrow> u64 \<Rightarrow> nat option" where
  "count_from h n cur =
     (if cur = 0 then Some n else count_from h (n + 1) (bh_next (h cur)))"

subsection \<open>The specification: adjacent blocks\<close>

type_synonym aheap = "(nat \<times> bool) list"

fun h_alloc :: "nat \<Rightarrow> aheap \<Rightarrow> (nat \<times> aheap) option" where
  "h_alloc n [] = None"
| "h_alloc n ((s, f) # bs) =
     (if f \<and> n \<le> s
      then Some (0, if s - n \<ge> 64 then (n, False) # (s - n, True) # bs else (s, False) # bs)
      else case h_alloc n bs of
             None \<Rightarrow> None
           | Some (i, bs') \<Rightarrow> Some (s + i, (s, f) # bs'))"

definition cons_free :: "nat \<Rightarrow> aheap \<Rightarrow> aheap" where
  "cons_free s bs = (case bs of (t, True) # r \<Rightarrow> (s + t, True) # r | _ \<Rightarrow> (s, True) # bs)"

fun h_free :: "nat \<Rightarrow> aheap \<Rightarrow> aheap option" where
  "h_free i [] = None"
| "h_free i ((s, f) # bs) =
     (if i = 0 then (if f then None else Some (cons_free s bs))
      else if i < s then None
      else case h_free (i - s) bs of
             None \<Rightarrow> None
           | Some bs' \<Rightarrow> Some (if f then cons_free s bs' else (s, f) # bs'))"

definition span :: "aheap \<Rightarrow> nat" where
  "span bs = sum_list (map fst bs)"

fun coalesced :: "aheap \<Rightarrow> bool" where
  "coalesced ((s, f) # (t, g) # bs) \<longleftrightarrow> \<not> (f \<and> g) \<and> coalesced ((t, g) # bs)"
| "coalesced bs \<longleftrightarrow> True"

definition blocks_ok :: "aheap \<Rightarrow> bool" where
  "blocks_ok bs \<longleftrightarrow> (\<forall>(s, f) \<in> set bs. 32 \<le> s \<and> 8 dvd s)"

fun free_ptrs :: "nat \<Rightarrow> aheap \<Rightarrow> u64 list" where
  "free_ptrs a [] = []"
| "free_ptrs a ((s, f) # bs) = (if f then [of_nat a] else []) @ free_ptrs (a + s) bs"

fun hdrs_ok :: "(u64 \<Rightarrow> block_header) \<Rightarrow> nat \<Rightarrow> aheap \<Rightarrow> bool" where
  "hdrs_ok h a [] \<longleftrightarrow> True"
| "hdrs_ok h a ((s, f) # bs) \<longleftrightarrow> bh_magic (h (of_nat a)) = MAGIC \<and>
     bh_size (h (of_nat a)) = of_nat s \<and> hdrs_ok h (a + s) bs"

fun chain :: "(u64 \<Rightarrow> block_header) \<Rightarrow> u64 \<Rightarrow> u64 list \<Rightarrow> bool" where
  "chain h p [] \<longleftrightarrow> p = 0"
| "chain h p (a # as) \<longleftrightarrow> p = a \<and> a \<noteq> 0 \<and> chain h (bh_next (h a)) as"

definition kmm_rep :: "kmm \<Rightarrow> aheap \<Rightarrow> bool" where
  "kmm_rep k bs \<longleftrightarrow> 0 < unat (heap_low k) \<and> unat (heap_low k) + span bs = unat (heap_high k) \<and>
     hdrs_ok (hdr k) (unat (heap_low k)) bs \<and>
     chain (hdr k) (kfree_list k) (free_ptrs (unat (heap_low k)) bs) \<and>
     blocks_ok bs \<and> coalesced bs"

subsection \<open>Block lists\<close>

lemma span_simps [simp]:
  "span [] = 0" "span ((s, f) # bs) = s + span bs" "span (xs @ ys) = span xs + span ys"
  by (simp_all add: span_def)

lemma blocks_ok_simps [simp]:
  "blocks_ok []" "blocks_ok ((s, f) # bs) \<longleftrightarrow> 32 \<le> s \<and> 8 dvd s \<and> blocks_ok bs"
  "blocks_ok (xs @ ys) \<longleftrightarrow> blocks_ok xs \<and> blocks_ok ys"
  by (auto simp: blocks_ok_def)

lemma free_ptrs_append [simp]:
  "free_ptrs a (xs @ ys) = free_ptrs a xs @ free_ptrs (a + span xs) ys"
  by (induction a xs rule: free_ptrs.induct) (auto simp: add.assoc)

lemma hdrs_ok_append [simp]:
  "hdrs_ok h a (xs @ ys) \<longleftrightarrow> hdrs_ok h a xs \<and> hdrs_ok h (a + span xs) ys"
  by (induction h a xs rule: hdrs_ok.induct) (auto simp: add.assoc)

lemma coalesced_append:
  "coalesced (xs @ (s, f) # ys) \<longleftrightarrow>
   coalesced xs \<and> coalesced ((s, f) # ys) \<and> (xs \<noteq> [] \<longrightarrow> \<not> (snd (last xs) \<and> f))"
proof (induction xs rule: coalesced.induct)
  case (1 s f t g bs)
  then show ?case by auto
qed (auto split: prod.splits)

lemma coalesced_Cons:
  "coalesced ((s, f) # bs) \<longleftrightarrow> coalesced bs \<and> (bs \<noteq> [] \<longrightarrow> \<not> (f \<and> snd (hd bs)))"
  by (cases bs) auto

lemma span_pos: "blocks_ok bs \<Longrightarrow> bs \<noteq> [] \<Longrightarrow> 32 \<le> span bs"
  by (cases bs) auto

lemma h_alloc_split:
  "h_alloc n bs = Some (i, bs') \<Longrightarrow>
   \<exists>pre s post. bs = pre @ (s, True) # post \<and> i = span pre \<and> n \<le> s \<and>
     (\<forall>(t, f) \<in> set pre. \<not> (f \<and> n \<le> t)) \<and>
     bs' = pre @ (if s - n \<ge> 64 then [(n, False), (s - n, True)] else [(s, False)]) @ post"
proof (induction n bs arbitrary: i bs' rule: h_alloc.induct)
  case (2 n s f bs)
  show ?case
  proof (cases "f \<and> n \<le> s")
    case True
    then show ?thesis using 2(2) by (intro exI [of _ "[]"] exI [of _ s] exI [of _ bs]) auto
  next
    case False
    then obtain j bs1 where "h_alloc n bs = Some (j, bs1)" "i = s + j" "bs' = (s, f) # bs1"
      using 2(2) by (auto split: option.splits)
    then obtain pre t post where "bs = pre @ (t, True) # post" "j = span pre" "n \<le> t"
      "\<forall>(t, f) \<in> set pre. \<not> (f \<and> n \<le> t)"
      "bs1 = pre @ (if t - n \<ge> 64 then [(n, False), (t - n, True)] else [(t, False)]) @ post"
      using 2(1) [OF False] by blast
    then show ?thesis
      using False \<open>i = s + j\<close> \<open>bs' = (s, f) # bs1\<close>
      by (intro exI [of _ "(s, f) # pre"] exI [of _ t] exI [of _ post]) auto
  qed
qed simp

lemma h_alloc_None: "h_alloc n bs = None \<longleftrightarrow> (\<forall>(t, f) \<in> set bs. \<not> (f \<and> n \<le> t))"
  by (induction n bs rule: h_alloc.induct) (auto split: option.splits if_splits)

lemma h_alloc_Some:
  "\<forall>(t, f) \<in> set pre. \<not> (f \<and> n \<le> t) \<Longrightarrow> n \<le> s \<Longrightarrow>
   h_alloc n (pre @ (s, True) # post) = Some (span pre,
     pre @ (if s - n \<ge> 64 then [(n, False), (s - n, True)] else [(s, False)]) @ post)"
  by (induction pre) auto

definition last_free :: "aheap \<Rightarrow> bool" where
  "last_free pre \<longleftrightarrow> pre \<noteq> [] \<and> snd (last pre)"

lemma h_free_Some:
  assumes "blocks_ok pre" "coalesced (pre @ (s, False) # post)"
  shows "h_free (span pre) (pre @ (s, False) # post) =
     Some (if last_free pre then butlast pre @ cons_free (fst (last pre)) (cons_free s post)
           else pre @ cons_free s post)"
  using assms
proof (induction pre)
  case (Cons b pre)
  obtain t f where b: "b = (t, f)" by (cases b)
  have t: "32 \<le> t" using Cons.prems b by simp
  show ?case
  proof (cases pre)
    case Nil
    then show ?thesis using b t by (auto simp: last_free_def)
  next
    case (Cons c pre')
    obtain u g where c: "c = (u, g)" by (cases c)
    have co: "coalesced (pre @ (s, False) # post)" "\<not> (f \<and> g)"
      using Cons.prems(2) b c Cons by auto
    have ih: "h_free (span pre) (pre @ (s, False) # post) =
     Some (if last_free pre then butlast pre @ cons_free (fst (last pre)) (cons_free s post)
           else pre @ cons_free s post)"
      using Cons.IH Cons.prems(1) b co(1) by simp
    show ?thesis
      using ih b c co(2) t Cons
      by (cases pre') (auto simp: last_free_def cons_free_def split: list.splits bool.splits)
  qed
qed (simp add: last_free_def)

subsection \<open>Field stores\<close>

lemma set_field_simps [kmm_simps]:
  "bh_magic (hdr (set_magic b v k) p) = (if p = b then v else bh_magic (hdr k p))"
  "bh_size (hdr (set_magic b v k) p) = bh_size (hdr k p)"
  "bh_next (hdr (set_magic b v k) p) = bh_next (hdr k p)"
  "bh_magic (hdr (set_size b w k) p) = bh_magic (hdr k p)"
  "bh_size (hdr (set_size b w k) p) = (if p = b then w else bh_size (hdr k p))"
  "bh_next (hdr (set_size b w k) p) = bh_next (hdr k p)"
  "bh_magic (hdr (set_next b w k) p) = bh_magic (hdr k p)"
  "bh_size (hdr (set_next b w k) p) = bh_size (hdr k p)"
  "bh_next (hdr (set_next b w k) p) = (if p = b then w else bh_next (hdr k p))"
  by (simp_all add: set_magic_def set_size_def set_next_def)

lemma set_field_globals [kmm_simps]:
  "kfree_list (set_magic b v k) = kfree_list k" "kfree_list (set_size b w k) = kfree_list k"
  "kfree_list (set_next b w k) = kfree_list k"
  "heap_low (set_magic b v k) = heap_low k" "heap_low (set_size b w k) = heap_low k"
  "heap_low (set_next b w k) = heap_low k"
  "heap_high (set_magic b v k) = heap_high k" "heap_high (set_size b w k) = heap_high k"
  "heap_high (set_next b w k) = heap_high k"
  by (simp_all add: set_magic_def set_size_def set_next_def)

lemma set_link_simps [kmm_simps]:
  "bh_magic (hdr (set_link q b k) p) = bh_magic (hdr k p)"
  "bh_size (hdr (set_link q b k) p) = bh_size (hdr k p)"
  "bh_next (hdr (set_link q b k) p) = (if p = q \<and> q \<noteq> 0 then b else bh_next (hdr k p))"
  "kfree_list (set_link q b k) = (if q = 0 then b else kfree_list k)"
  "heap_low (set_link q b k) = heap_low k" "heap_high (set_link q b k) = heap_high k"
  by (simp_all add: set_link_def kmm_simps)

subsection \<open>Chains\<close>

lemma chain_nonzero: "chain h p as \<Longrightarrow> 0 \<notin> set as"
  by (induction h p as rule: chain.induct) auto

lemma chain_cong:
  "(\<And>x. x \<in> set as \<Longrightarrow> bh_next (h' x) = bh_next (h x)) \<Longrightarrow> chain h' p as = chain h p as"
  by (induction h p as rule: chain.induct) auto

lemma chain_suffix: "chain h p (xs @ y # ys) \<Longrightarrow> y \<noteq> 0 \<and> chain h (bh_next (h y)) ys"
  by (induction xs arbitrary: p) auto

lemma chain_relink:
  "chain h p (xs @ ys) \<Longrightarrow> xs \<noteq> [] \<Longrightarrow> distinct xs \<Longrightarrow>
   (\<And>x. x \<in> set xs \<Longrightarrow> x \<noteq> last xs \<Longrightarrow> bh_next (h' x) = bh_next (h x)) \<Longrightarrow>
   chain h' (bh_next (h' (last xs))) zs \<Longrightarrow> chain h' p (xs @ zs)"
proof (induction xs arbitrary: p)
  case (Cons x xs)
  show ?case
  proof (cases "xs = []")
    case True
    then show ?thesis using Cons.prems by simp
  next
    case False
    then have "x \<noteq> last xs" using Cons.prems(3) by auto
    then show ?thesis using Cons False by auto
  qed
qed simp

lemma chain_head: "chain h p (a # as) \<Longrightarrow> p = a" by simp

lemma last_Cons_Cons: "last (x # y # ys) = last (y # ys)"
  by simp

text \<open>The walks return, at the first pointer of the chain that stops them.\<close>

lemma first_fit_chain:
  "chain h p as \<Longrightarrow> first_fit h n prev p =
     Some (case dropWhile (\<lambda>a. bh_size (h a) < n) as of
             [] \<Rightarrow> None
           | y # _ \<Rightarrow> Some (last (prev # takeWhile (\<lambda>a. bh_size (h a) < n) as), y))"
proof (induction as arbitrary: p prev)
  case Nil
  then show ?case by (simp add: first_fit.simps)
next
  case (Cons a as)
  then have pa: "p = a" "a \<noteq> 0" "chain h (bh_next (h a)) as" by auto
  show ?case
  proof (cases "n \<le> bh_size (h a)")
    case True
    then have "\<not> bh_size (h a) < n" by simp
    then show ?thesis unfolding pa(1) using pa(2) True by (subst first_fit.simps) simp
  next
    case False
    then have "bh_size (h a) < n" by simp
    then show ?thesis
      unfolding pa(1) using pa(2) False Cons.IH [OF pa(3), of a]
      by (subst first_fit.simps)
        (cases "dropWhile (\<lambda>a. bh_size (h a) < n) as";
          simp add: last_Cons_Cons del: dropWhile_eq_Nil_conv)
  qed
qed

lemma insert_point_chain:
  "chain h p as \<Longrightarrow> insert_point h b prev p =
     Some (last (prev # takeWhile (\<lambda>a. a < b) as),
           case dropWhile (\<lambda>a. a < b) as of [] \<Rightarrow> 0 | y # _ \<Rightarrow> y)"
proof (induction as arbitrary: p prev)
  case Nil
  then show ?case by (simp add: insert_point.simps)
next
  case (Cons a as)
  then have pa: "p = a" "a \<noteq> 0" "chain h (bh_next (h a)) as" by auto
  show ?case
    unfolding pa(1) using pa(2) Cons.IH [OF pa(3), of a]
    by (subst insert_point.simps) simp
qed

subsection \<open>Headers and free pointers of a block list\<close>

lemma unat_of_nat_le: "x < 2 ^ 64 \<Longrightarrow> unat (of_nat x :: u64) = x"
  by simp

lemma free_ptrs_range:
  "blocks_ok bs \<Longrightarrow> a + span bs < 2 ^ 64 \<Longrightarrow> p \<in> set (free_ptrs a bs) \<Longrightarrow>
   a \<le> unat p \<and> unat p < a + span bs"
proof (induction a bs rule: free_ptrs.induct)
  case (2 a s f bs)
  show ?case
  proof (cases "p \<in> set (free_ptrs (a + s) bs)")
    case True
    then show ?thesis using 2 by (simp add: add.assoc)
  next
    case False
    then have "p = of_nat a" using 2(4) by (simp split: if_splits)
    then show ?thesis using 2(2,3) by simp
  qed
qed simp

lemma free_ptrs_distinct:
  "blocks_ok bs \<Longrightarrow> a + span bs < 2 ^ 64 \<Longrightarrow> distinct (free_ptrs a bs)"
proof (induction a bs rule: free_ptrs.induct)
  case (2 a s f bs)
  have "of_nat a \<notin> set (free_ptrs (a + s) bs)"
  proof
    assume "of_nat a \<in> set (free_ptrs (a + s) bs)"
    then have "a + s \<le> unat (of_nat a :: u64)"
      using free_ptrs_range [of bs "a + s" "of_nat a"] 2(2,3) by simp
    then show False using 2(2,3) by simp
  qed
  then show ?case using 2 by (simp add: add.assoc)
qed simp

lemma hdrs_ok_cong:
  "blocks_ok bs \<Longrightarrow> a + span bs < 2 ^ 64 \<Longrightarrow>
   (\<And>p. a \<le> unat p \<Longrightarrow> unat p < a + span bs \<Longrightarrow>
      bh_magic (h' p) = bh_magic (h p) \<and> bh_size (h' p) = bh_size (h p)) \<Longrightarrow>
   hdrs_ok h' a bs = hdrs_ok h a bs"
proof (induction h a bs rule: hdrs_ok.induct)
  case (2 h a s f bs)
  have "bh_magic (h' (of_nat a)) = bh_magic (h (of_nat a)) \<and>
        bh_size (h' (of_nat a)) = bh_size (h (of_nat a))"
    using 2(2,3) by (intro 2(4)) simp_all
  moreover have "hdrs_ok h' (a + s) bs = hdrs_ok h (a + s) bs"
    using 2(2,3) by (intro 2(1) 2(4)) (simp_all add: add.assoc)
  ultimately show ?case by simp
qed simp

lemma free_ptrs_split:
  "hdrs_ok h a bs \<Longrightarrow> span bs < 2 ^ 64 \<Longrightarrow>
   dropWhile (\<lambda>p. bh_size (h p) < n) (free_ptrs a bs) = y # ys \<Longrightarrow>
   \<exists>pre s post. bs = pre @ (s, True) # post \<and> y = of_nat (a + span pre) \<and>
     takeWhile (\<lambda>p. bh_size (h p) < n) (free_ptrs a bs) = free_ptrs a pre \<and>
     unat n \<le> s \<and> (\<forall>(t, f) \<in> set pre. \<not> (f \<and> unat n \<le> t))"
proof (induction h a bs rule: hdrs_ok.induct)
  case (2 h a s f bs)
  have s: "unat (of_nat s :: u64) = s" using 2(3) by simp
  have sz: "bh_size (h (of_nat a)) < n \<longleftrightarrow> s < unat n"
    using 2(2) s by (simp add: word_less_nat_alt)
  show ?case
  proof (cases "f \<and> unat n \<le> s")
    case True
    then show ?thesis
      using 2(2-4) sz by (intro exI [of _ "[]"] exI [of _ s] exI [of _ bs]) simp
  next
    case False
    then have "dropWhile (\<lambda>p. bh_size (h p) < n) (free_ptrs (a + s) bs) = y # ys"
      using 2(4) sz by (auto split: if_splits)
    then obtain pre t post where r: "bs = pre @ (t, True) # post" "y = of_nat (a + s + span pre)"
      "takeWhile (\<lambda>p. bh_size (h p) < n) (free_ptrs (a + s) bs) = free_ptrs (a + s) pre"
      "unat n \<le> t" "\<forall>(t, f) \<in> set pre. \<not> (f \<and> unat n \<le> t)"
      using 2(1) 2(2,3) by auto
    have tw: "takeWhile (\<lambda>p. bh_size (h p) < n) (free_ptrs a ((s, f) # bs)) = free_ptrs a ((s, f) # pre)"
      using r(3) False sz by (cases f) simp_all
    have al: "\<forall>(t, f) \<in> set ((s, f) # pre). \<not> (f \<and> unat n \<le> t)"
      using r(5) False by simp
    have yy: "y = of_nat (a + span ((s, f) # pre))" using r(2) by (simp add: add.assoc)
    have "(s, f) # bs = ((s, f) # pre) @ (t, True) # post" using r(1) by simp
    then show ?thesis using yy tw r(4) al by (intro exI conjI)
  qed
qed simp

lemma free_ptrs_none:
  "hdrs_ok h a bs \<Longrightarrow> span bs < 2 ^ 64 \<Longrightarrow>
   dropWhile (\<lambda>p. bh_size (h p) < n) (free_ptrs a bs) = [] \<Longrightarrow> h_alloc (unat n) bs = None"
proof (induction h a bs rule: hdrs_ok.induct)
  case (2 h a s f bs)
  have "unat (of_nat s :: u64) = s" using 2(3) by simp
  then have "bh_size (h (of_nat a)) < n \<longleftrightarrow> s < unat n"
    using 2(2) by (simp add: word_less_nat_alt)
  then show ?case using 2 by (auto split: if_splits)
qed simp

subsection \<open>Refinement of kmalloc\<close>

lemma unat_needed_size:
  assumes "unat sz < 2 ^ 64 - 32"
  shows "unat (needed_size sz) = 24 + (unat sz + 7) div 8 * 8"
proof -
  have "unat (sz + 7) = unat sz + 7" using assms by (intro unat_add64 [THEN trans]) simp_all
  then have "unat ((sz + 7) AND NOT 7) = (unat sz + 7) div 8 * 8"
    using unat_and_not_mask [of "sz + 7" 3] by (simp add: mask_3_64 [symmetric])
  moreover have "(unat sz + 7) div 8 * 8 \<le> unat sz + 7" by simp
  ultimately have "unat (24 + ((sz + 7) AND NOT 7)) = 24 + (unat sz + 7) div 8 * 8"
    using assms by (subst unat_add64) simp_all
  moreover have "needed_size sz = 24 + ((sz + 7) AND NOT 7)"
    by (simp add: needed_size_def HEADER_SIZE_def KMALLOC_ALIGN_def add.commute [of sz])
  ultimately show ?thesis by simp
qed

lemma needed_size_ok:
  assumes "unat sz < 2 ^ 64 - 32" "sz \<noteq> 0"
  shows "32 \<le> unat (needed_size sz)" "8 dvd unat (needed_size sz)"
    "unat sz + 24 \<le> unat (needed_size sz)"
proof -
  have "0 < unat sz" using assms(2) by (simp add: unat_gt_0)
  then show "32 \<le> unat (needed_size sz)" "unat sz + 24 \<le> unat (needed_size sz)"
    unfolding unat_needed_size [OF assms(1)] by presburger+
  show "8 dvd unat (needed_size sz)"
    unfolding unat_needed_size [OF assms(1)] by presburger
qed

lemma kmm_repD:
  assumes "kmm_rep k bs"
  shows "unat (heap_low k) + span bs < 2 ^ 64" "0 < unat (heap_low k)"
    "hdrs_ok (hdr k) (unat (heap_low k)) bs"
    "chain (hdr k) (kfree_list k) (free_ptrs (unat (heap_low k)) bs)"
    "blocks_ok bs" "coalesced bs" "unat (heap_low k) + span bs = unat (heap_high k)"
  using assms unsigned_less [of "heap_high k"] by (auto simp: kmm_rep_def)

text \<open>Replacing a run of blocks \<open>mid\<close> by another of the same span: the headers outside
  the run are untouched, and the free pointer before the run leads to the run's
  own free blocks and from there to the rest of the list.\<close>

lemma kmm_rep_replace:
  assumes rep: "kmm_rep k (pre @ mid @ post)"
    and a: "a = unat (heap_low k) + span pre" and xs: "xs = free_ptrs (unat (heap_low k)) pre"
    and bounds: "heap_low k' = heap_low k" "heap_high k' = heap_high k"
    and mid': "span mid' = span mid" "blocks_ok mid'" "coalesced (pre @ mid' @ post)"
      "hdrs_ok (hdr k') a mid'"
    and outside: "\<And>p. unat p < a \<or> a + span mid \<le> unat p \<Longrightarrow>
        bh_magic (hdr k' p) = bh_magic (hdr k p) \<and> bh_size (hdr k' p) = bh_size (hdr k p)"
    and nexts: "\<And>p. p \<in> set xs \<Longrightarrow> p \<noteq> last xs \<Longrightarrow> bh_next (hdr k' p) = bh_next (hdr k p)"
    and link: "chain (hdr k') (if xs = [] then kfree_list k' else bh_next (hdr k' (last xs)))
        (free_ptrs a mid' @ free_ptrs (a + span mid) post)"
    and head: "xs \<noteq> [] \<Longrightarrow> kfree_list k' = kfree_list k"
  shows "kmm_rep k' (pre @ mid' @ post)"
proof -
  note R = kmm_repD [OF rep]
  have ok: "blocks_ok pre" "blocks_ok post" and lim: "a + span mid + span post < 2 ^ 64"
    using R(1,5) a by auto
  have "hdrs_ok (hdr k') (unat (heap_low k)) pre = hdrs_ok (hdr k) (unat (heap_low k)) pre"
    using ok lim a by (intro hdrs_ok_cong outside) auto
  moreover have "hdrs_ok (hdr k') (a + span mid) post = hdrs_ok (hdr k) (a + span mid) post"
    using ok lim by (intro hdrs_ok_cong outside) auto
  ultimately have h: "hdrs_ok (hdr k') (unat (heap_low k)) (pre @ mid' @ post)"
    using R(3) mid'(1,4) a by (simp add: add.assoc)
  have "chain (hdr k') (kfree_list k') (xs @ free_ptrs a mid' @ free_ptrs (a + span mid) post)"
  proof (cases "xs = []")
    case False
    have "distinct xs" using free_ptrs_distinct [OF ok(1), of "unat (heap_low k)"] lim a xs by simp
    moreover have "chain (hdr k) (kfree_list k) (xs @ free_ptrs a (mid @ post))"
      using R(4) a xs by simp
    ultimately show ?thesis
      using chain_relink [of "hdr k" "kfree_list k" xs _ "hdr k'"] False nexts link head by simp
  qed (use link in simp)
  then have "chain (hdr k') (kfree_list k') (free_ptrs (unat (heap_low k)) (pre @ mid' @ post))"
    using a xs mid'(1) by (simp add: add.assoc)
  then show ?thesis
    using h R(2,5,7) mid'(1,2,3) bounds by (simp add: kmm_rep_def)
qed

text \<open>Where the free pointers of the blocks before and after an address lie.\<close>

lemma rep_ptrs:
  assumes rep: "kmm_rep k (pre @ mid @ post)" and a: "a = unat (heap_low k) + span pre"
    and xs: "xs = free_ptrs (unat (heap_low k)) pre" and ys: "ys = free_ptrs (a + span mid) post"
  shows "a + span mid + span post < 2 ^ 64" "\<And>x. x \<in> set xs \<Longrightarrow> unat x < a \<and> x \<noteq> 0"
    "\<And>y. y \<in> set ys \<Longrightarrow> a + span mid \<le> unat y \<and> y \<noteq> 0"
    "chain (hdr k) (kfree_list k) (xs @ free_ptrs a mid @ ys)" "hdrs_ok (hdr k) a mid"
    "coalesced (pre @ mid @ post)" "blocks_ok pre" "blocks_ok mid" "blocks_ok post"
proof -
  note R = kmm_repD [OF rep]
  show lim: "a + span mid + span post < 2 ^ 64" using R(1) a by simp
  show ok: "blocks_ok pre" "blocks_ok mid" "blocks_ok post" using R(5) by auto
  show ch: "chain (hdr k) (kfree_list k) (xs @ free_ptrs a mid @ ys)"
    using R(4) a xs ys by (simp add: add.assoc)
  then have z: "0 \<notin> set xs" "0 \<notin> set ys" using chain_nonzero by fastforce+
  show "unat x < a \<and> x \<noteq> 0" if "x \<in> set xs" for x
    using free_ptrs_range [OF ok(1), of "unat (heap_low k)" x] that lim a xs z by auto
  show "a + span mid \<le> unat y \<and> y \<noteq> 0" if "y \<in> set ys" for y
    using free_ptrs_range [OF ok(3), of "a + span mid" y] that lim ys z by auto
  show "hdrs_ok (hdr k) a mid" "coalesced (pre @ mid @ post)" using R(3,6) a by auto
qed

lemma last_or_null: "0 \<notin> set xs \<Longrightarrow> last (0 # xs) = (if xs = [] then 0 else last xs)"
  by simp

lemma take_block_fields:
  fixes n prev cur k
  defines "k' \<equiv> take_block n prev cur k" and "new \<equiv> cur + n"
    and "split \<equiv> MIN_BLOCK_SIZE \<le> bh_size (hdr k cur) - n"
  shows "heap_low k' = heap_low k" "heap_high k' = heap_high k"
    "kfree_list k' = (if prev = 0 then if split then new else bh_next (hdr k cur) else kfree_list k)"
    "bh_magic (hdr k' p) = (if p = cur \<or> split \<and> p = new then MAGIC else bh_magic (hdr k p))"
    "bh_size (hdr k' p) = (if split then if p = new then bh_size (hdr k cur) - n
         else if p = cur then n else bh_size (hdr k p) else bh_size (hdr k p))"
    "cur \<noteq> new \<Longrightarrow> bh_next (hdr k' p) = (if p = prev \<and> prev \<noteq> 0 then if split then new else bh_next (hdr k cur)
         else if split \<and> p = cur then new
         else if split \<and> p = new then bh_next (hdr k cur) else bh_next (hdr k p))"
  by (auto simp: k'_def new_def split_def take_block_def Let_def kmm_simps)

lemma fit_block_facts:
  fixes a n k
  defines "cur \<equiv> (of_nat a :: u64)" and "new \<equiv> (of_nat a :: u64) + n"
  assumes rep: "kmm_rep k (pre @ [(s, True)] @ post)"
    and a: "a = unat (heap_low k) + span pre" and xs: "xs = free_ptrs (unat (heap_low k)) pre"
    and ys: "ys = free_ptrs (a + span [(s, True)]) post"
    and n: "unat n \<le> s" "32 \<le> unat n"
  shows "unat cur = a" "unat new = a + unat n" "of_nat (a + unat n) = new"
    "bh_size (hdr k cur) = of_nat s" "bh_magic (hdr k cur) = MAGIC"
    "MIN_BLOCK_SIZE \<le> bh_size (hdr k cur) - n \<longleftrightarrow> 64 \<le> s - unat n"
    "bh_size (hdr k cur) - n = of_nat (s - unat n)"
    "chain (hdr k) (bh_next (hdr k cur)) ys"
    "cur \<notin> set xs" "new \<notin> set xs" "cur \<notin> set ys" "64 \<le> s - unat n \<Longrightarrow> new \<notin> set ys"
    "cur \<noteq> new" "new \<noteq> 0" "cur \<noteq> 0"
proof -
  note P = rep_ptrs [OF rep a xs ys]
  show ua: "unat cur = a" using P(1) by (simp add: cur_def)
  show unew: "unat new = a + unat n" and "of_nat (a + unat n) = new"
    using ua n(1) P(1) unat_add64 [of cur n] by (simp_all add: new_def cur_def)
  show sz: "bh_size (hdr k cur) = of_nat s" "bh_magic (hdr k cur) = MAGIC"
    using P(5) by (auto simp: cur_def)
  then have rem: "unat (bh_size (hdr k cur) - n) = s - unat n"
    using n(1) P(1) by (simp add: unat_sub word_le_nat_alt)
  then show "MIN_BLOCK_SIZE \<le> bh_size (hdr k cur) - n \<longleftrightarrow> 64 \<le> s - unat n"
    by (simp add: word_le_nat_alt MIN_BLOCK_SIZE_def)
  show "bh_size (hdr k cur) - n = of_nat (s - unat n)"
    using arg_cong [OF rem, of "of_nat :: nat \<Rightarrow> u64"] by simp
  show "chain (hdr k) (bh_next (hdr k cur)) ys" "cur \<noteq> 0"
    using chain_suffix [of "hdr k" "kfree_list k" xs cur ys] P(4) by (auto simp: cur_def)
  show "cur \<notin> set xs" "new \<notin> set xs" "cur \<notin> set ys" "64 \<le> s - unat n \<Longrightarrow> new \<notin> set ys"
    "cur \<noteq> new" "new \<noteq> 0"
    using P(2,3) ua unew P(8) n(2) by (fastforce simp: unat_eq_zero)+
qed

lemma take_block_rep:
  assumes rep: "kmm_rep k (pre @ [(s, True)] @ post)"
    and a: "a = unat (heap_low k) + span pre" and xs: "xs = free_ptrs (unat (heap_low k)) pre"
    and n: "unat n \<le> s" "32 \<le> unat n" "8 dvd unat n"
  shows "kmm_rep (take_block n (last (0 # xs)) (of_nat a) k)
     (pre @ (if s - unat n \<ge> 64 then [(unat n, False), (s - unat n, True)] else [(s, False)]) @ post)"
    (is "kmm_rep _ (pre @ ?mid @ post)")
proof -
  define ys where "ys = free_ptrs (a + span [(s, True)]) post"
  define prev where "prev = last (0 # xs)"
  define cur where "cur = (of_nat a :: u64)"
  define new where "new = cur + n"
  define k' where "k' = take_block n prev cur k"
  have yd: "free_ptrs (a + s) post = ys" by (simp add: ys_def)
  note P = rep_ptrs [OF rep a xs ys_def]
  note G = fit_block_facts [OF rep a xs ys_def n(1,2), folded cur_def, folded new_def]
  have lx: "xs \<noteq> [] \<Longrightarrow> unat (last xs) < a \<and> last xs \<noteq> 0" using P(2) [of "last xs"] by simp
  have prevx: "prev = 0 \<longleftrightarrow> xs = []" "xs \<noteq> [] \<Longrightarrow> last xs = prev"
    using lx by (auto simp: prev_def)
  have pv: "prev \<notin> set ys" "prev \<noteq> cur" "prev \<noteq> new \<or> prev = 0"
  proof -
    have pr: "prev = 0 \<or> unat prev < a" using lx prevx by auto
    then show "prev \<notin> set ys" using P(3) [of prev] by auto
    show "prev \<noteq> cur" "prev \<noteq> new \<or> prev = 0" using pr G(1,2,14,15) by auto
  qed
  note F = take_block_fields [where n = n and prev = prev and cur = cur and k = k,
      folded new_def k'_def, unfolded G(6)]
  have chy: "chain (hdr k') (bh_next (hdr k cur)) ys"
    using G(8,11,12,13) pv by (subst chain_cong [where h = "hdr k"]) (auto simp: F(6))
  have out: "p \<noteq> cur \<and> (64 \<le> s - unat n \<longrightarrow> p \<noteq> new)" if "unat p < a \<or> a + span [(s, True)] \<le> unat p" for p
    using that G(1,2) n(2) P(8) by auto
  have "kmm_rep k' (pre @ ?mid @ post)"
  proof (rule kmm_rep_replace [OF rep a xs], goal_cases)
    case 5
    then show ?case using P(6) by (auto simp: coalesced_append coalesced_Cons)
  next
    case 6
    then show ?case
      using F(4,5) G(3,4,5,7,13) n by (simp add: cur_def [symmetric])
  next
    case (8 p)
    then show ?case using F(6) G(9,10,13) prevx by auto
  next
    case 9
    then show ?case
      using chy F(3) F(6) [OF G(13)] G(3,13,14) prevx pv yd
      by (cases "xs = []"; cases "64 \<le> s - unat n"; simp)
  qed (use F(1-5) n P(8) out prevx in \<open>simp_all add: dvd_diff_nat\<close>)
  then show ?thesis by (simp add: k'_def prev_def cur_def)
qed

lemma take_block_low [simp]:
  "heap_low (take_block n prev cur k) = heap_low k"
  "heap_high (take_block n prev cur k) = heap_high k"
  by (simp_all add: take_block_fields)

lemma kmalloc_rep:
  assumes rep: "kmm_rep k bs" and sz: "sz \<noteq> 0" "unat sz < 2 ^ 64 - 32"
  shows "case h_alloc (unat (needed_size sz)) bs of
      None \<Rightarrow> kmalloc sz k = Some (0, k)
    | Some (i, bs') \<Rightarrow> \<exists>k'. kmalloc sz k = Some (heap_low k + of_nat i + 24, k') \<and> kmm_rep k' bs' \<and>
        heap_low k' = heap_low k \<and> heap_high k' = heap_high k"
proof -
  let ?n = "needed_size sz" and ?as = "free_ptrs (unat (heap_low k)) bs"
  note R = kmm_repD [OF rep]
  have sp: "span bs < 2 ^ 64" using R(1) by simp
  note ff = first_fit_chain [OF R(4), of ?n 0]
  show ?thesis
  proof (cases "dropWhile (\<lambda>p. bh_size (hdr k p) < ?n) ?as")
    case Nil
    then show ?thesis
      using free_ptrs_none [OF R(3) sp Nil] ff sz(1)
      by (simp add: kmalloc_def del: dropWhile_eq_Nil_conv)
  next
    case (Cons y ys)
    obtain pre s post where b: "bs = pre @ (s, True) # post"
      "y = of_nat (unat (heap_low k) + span pre)"
      "takeWhile (\<lambda>p. bh_size (hdr k p) < ?n) ?as = free_ptrs (unat (heap_low k)) pre"
      "unat ?n \<le> s" "\<forall>(t, f) \<in> set pre. \<not> (f \<and> unat ?n \<le> t)"
      using free_ptrs_split [OF R(3) sp Cons] by blast
    have "kmm_rep k (pre @ [(s, True)] @ post)" using rep b(1) by simp
    note T = take_block_rep [OF this refl refl b(4) needed_size_ok(1,2) [OF sz(2,1)]]
    have y: "data_ptr y = heap_low k + of_nat (span pre) + 24"
      using b(2) by (simp add: data_ptr_def HEADER_SIZE_def)
    show ?thesis
      using h_alloc_Some [OF b(5,4), of post] T ff Cons b(1,2,3) sz(1) y
      by (simp add: kmalloc_def)
  qed
qed

subsection \<open>Refinement of kfree\<close>

lemma link_block_fields:
  fixes b prev cur k
  defines "k' \<equiv> link_block b prev cur k"
    and "mn \<equiv> cur \<noteq> 0 \<and> b + bh_size (hdr k b) = cur"
    and "mp \<equiv> prev \<noteq> 0 \<and> prev + bh_size (hdr k prev) = b"
  defines "bsz \<equiv> bh_size (hdr k b) + (if mn then bh_size (hdr k cur) else 0)"
    and "bnx \<equiv> if mn then bh_next (hdr k cur) else cur"
  assumes "prev \<noteq> b" "cur \<noteq> b"
  shows "heap_low k' = heap_low k" "heap_high k' = heap_high k"
    "kfree_list k' = (if prev = 0 then b else kfree_list k)"
    "bh_magic (hdr k' p) = bh_magic (hdr k p)"
    "bh_size (hdr k' p) = (if mp \<and> p = prev then bh_size (hdr k prev) + bsz
        else if p = b then bsz else bh_size (hdr k p))"
    "bh_next (hdr k' p) = (if prev \<noteq> 0 \<and> p = prev then (if mp then bnx else b)
        else if p = b then bnx else bh_next (hdr k p))"
  using assms(6,7)
  by (auto simp: k'_def mn_def mp_def bsz_def bnx_def link_block_def Let_def kmm_simps block_end_def)

lemma no_free_last: "free_ptrs a p = [] \<Longrightarrow> p \<noteq> [] \<Longrightarrow> \<not> snd (last p)"
  by (induction a p rule: free_ptrs.induct) (auto split: if_splits)

lemma last_free_ptr:
  "free_ptrs a pre \<noteq> [] \<Longrightarrow>
   \<exists>p1 u p2. pre = p1 @ (u, True) # p2 \<and> last (free_ptrs a pre) = of_nat (a + span p1) \<and>
     free_ptrs (a + span p1 + u) p2 = []"
proof (induction pre rule: rev_induct)
  case (snoc b pre)
  obtain t f where b: "b = (t, f)" by (cases b)
  show ?case
  proof (cases f)
    case True
    then show ?thesis using b by (intro exI [of _ pre] exI [of _ t] exI [of _ "[]"]) simp
  next
    case False
    then obtain p1 u p2 where "pre = p1 @ (u, True) # p2"
      "last (free_ptrs a pre) = of_nat (a + span p1)" "free_ptrs (a + span p1 + u) p2 = []"
      using snoc b by auto
    then show ?thesis
      using b False by (intro exI [of _ p1] exI [of _ u] exI [of _ "p2 @ [b]"]) simp
  qed
qed simp

text \<open>The last free block before an address ends there exactly when it is the block
  in front of it; the first free block after starts there exactly when it is next.\<close>

lemma prev_adjacent:
  assumes h: "hdrs_ok h lo pre" and ok: "blocks_ok pre" and lim: "lo + span pre < 2 ^ 64"
    and xs: "xs = free_ptrs lo pre" "xs \<noteq> []"
  shows "last xs + bh_size (h (last xs)) = of_nat (lo + span pre) \<longleftrightarrow> last_free pre"
proof -
  obtain p1 u p2 where p: "pre = p1 @ (u, True) # p2" "last xs = of_nat (lo + span p1)"
    "free_ptrs (lo + span p1 + u) p2 = []"
    using last_free_ptr [of lo pre, folded xs(1)] xs(2) by blast
  have "bh_size (h (last xs)) = of_nat u" using h p by simp
  then have "last xs + bh_size (h (last xs)) = of_nat (lo + span p1 + u)"
    using p(2) by simp
  moreover have "(of_nat (lo + span p1 + u) :: u64) = of_nat (lo + span pre)
      \<longleftrightarrow> lo + span p1 + u = lo + span pre"
    using lim p(1) by (intro of_nat_word_inj64) simp_all
  moreover have "lo + span p1 + u = lo + span pre \<longleftrightarrow> p2 = []"
    using p(1) ok span_pos [of p2] by (cases "p2 = []") auto
  moreover have "last_free pre \<longleftrightarrow> p2 = []"
    using no_free_last [OF p(3)] p(1) by (auto simp: last_free_def)
  ultimately show ?thesis by simp
qed

lemma next_adjacent:
  assumes ok: "blocks_ok post" and lim: "e + span post < 2 ^ 64"
    and ys: "ys = free_ptrs e post" "ys \<noteq> []"
  shows "of_nat e = hd ys \<longleftrightarrow> (\<exists>t r. post = (t, True) # r)"
proof -
  obtain t f r where post: "post = (t, f) # r" using ys by (cases post) auto
  show ?thesis
  proof (cases f)
    case False
    then have "hd ys \<in> set (free_ptrs (e + t) r)" using ys post by auto
    then have "e + t \<le> unat (hd ys)"
      using free_ptrs_range [of r "e + t" "hd ys"] lim ok post by simp
    moreover have "unat (of_nat e :: u64) = e" using lim by simp
    ultimately have "of_nat e \<noteq> hd ys" using ok post by auto
    then show ?thesis using post False by simp
  qed (use post ys in simp)
qed

lemma free_block_facts:
  fixes a k s
  defines "b \<equiv> (of_nat a :: u64)"
  assumes rep: "kmm_rep k (pre @ [(s, False)] @ post)"
    and a: "a = unat (heap_low k) + span pre" and xs: "xs = free_ptrs (unat (heap_low k)) pre"
    and ys: "ys = free_ptrs (a + s) post"
  shows "unat b = a" "b \<notin> set xs" "b \<notin> set ys" "b \<noteq> 0" "bh_size (hdr k b) = of_nat s"
    "bh_magic (hdr k b) = MAGIC" "takeWhile (\<lambda>x. x < b) (xs @ ys) = xs" "dropWhile (\<lambda>x. x < b) (xs @ ys) = ys"
    "xs \<noteq> [] \<Longrightarrow> last xs + bh_size (hdr k (last xs)) = b \<longleftrightarrow> last_free pre"
    "ys \<noteq> [] \<Longrightarrow> b + bh_size (hdr k b) = hd ys \<longleftrightarrow> (\<exists>t r. post = (t, True) # r)"
proof -
  have ys': "ys = free_ptrs (a + span [(s, False)]) post" using ys by simp
  note P = rep_ptrs [OF rep a xs ys']
  show ua: "unat b = a" using P(1) by (simp add: b_def)
  show bx: "b \<notin> set xs" "b \<notin> set ys" using P(2,3,8) ua by fastforce+
  show "b \<noteq> 0" using kmm_repD(2) [OF rep] ua a by (auto simp: unat_eq_zero)
  show sz: "bh_size (hdr k b) = of_nat s" "bh_magic (hdr k b) = MAGIC" using P(5) by (auto simp: b_def)
  have "\<forall>x \<in> set xs. x < b" "\<forall>y \<in> set ys. \<not> y < b"
    using P(2,3) ua by (auto simp: word_less_nat_alt) (fastforce simp: word_less_nat_alt)
  then show "takeWhile (\<lambda>x. x < b) (xs @ ys) = xs" "dropWhile (\<lambda>x. x < b) (xs @ ys) = ys"
    by (auto simp: takeWhile_append dropWhile_append takeWhile_eq_all_conv
        takeWhile_eq_Nil_iff dropWhile_eq_self_iff hd_in_set)
  show "last xs + bh_size (hdr k (last xs)) = b \<longleftrightarrow> last_free pre" if "xs \<noteq> []"
    unfolding b_def a using kmm_repD(3) [OF rep] P(1,7) a xs that
    by (intro prev_adjacent) simp_all
  show "b + bh_size (hdr k b) = hd ys \<longleftrightarrow> (\<exists>t r. post = (t, True) # r)" if "ys \<noteq> []"
    using next_adjacent [OF P(9), of "a + s" ys] P(1) ys that sz by (simp add: b_def)
qed

lemma chain_link:
  "chain h p (xs @ y # ys) \<Longrightarrow> (if xs = [] then p else bh_next (h (last xs))) = y"
  by (induction xs arbitrary: p) (auto split: if_splits)

lemma chain_tail:
  "chain h p (xs @ ys) \<Longrightarrow> chain h (case ys of [] \<Rightarrow> 0 | y # _ \<Rightarrow> y) ys"
  using chain_suffix [of h p xs] by (cases ys) auto

lemma cons_free_split:
  obtains mid r where "post = mid @ r" "mid = [] \<or> (\<exists>t. mid = [(t, True)])"
    "cons_free s post = [(s + span mid, True)] @ r" "mid \<noteq> [] \<longleftrightarrow> (\<exists>t r. post = (t, True) # r)"
proof (cases "\<exists>t r. post = (t, True) # r")
  case True
  then obtain t r where "post = (t, True) # r" by blast
  then show ?thesis by (intro that [of "[(t, True)]" r]) (auto simp: cons_free_def)
next
  case False
  then show ?thesis
    by (intro that [of "[]" post]) (auto simp: cons_free_def split: list.splits bool.splits)
qed

lemma last_free_split:
  obtains pre0 mid where "pre = pre0 @ mid" "mid = [] \<or> (\<exists>u. mid = [(u, True)])"
    "last_free pre \<longleftrightarrow> mid \<noteq> []"
proof (cases "last_free pre")
  case True
  then have "pre = butlast pre @ [(fst (last pre), True)]"
    by (simp add: last_free_def) (metis append_butlast_last_id prod.collapse)
  then show ?thesis using True by (intro that) auto
next
  case False
  then show ?thesis by (intro that [of pre "[]"]) auto
qed

lemma link_block_facts:
  assumes rep: "kmm_rep k (pre @ [(s, False)] @ post)"
    and a: "a = unat (heap_low k) + span pre" and xs: "xs = free_ptrs (unat (heap_low k)) pre"
    and ys: "ys = free_ptrs (a + s) post" and b: "b = (of_nat a :: u64)"
    and prev: "prev = last (0 # xs)" and cur: "cur = (case ys of [] \<Rightarrow> 0 | y # _ \<Rightarrow> y)"
    and pre: "pre = pre0 @ mid1" "mid1 = [] \<or> (\<exists>u. mid1 = [(u, True)])" "last_free pre \<longleftrightarrow> mid1 \<noteq> []"
    and post: "post = mid2 @ r" "mid2 = [] \<or> (\<exists>t. mid2 = [(t, True)])"
      "mid2 \<noteq> [] \<longleftrightarrow> (\<exists>t r. post = (t, True) # r)"
    and zs: "zs = free_ptrs (a + s + span mid2) r"
  shows "prev = 0 \<longleftrightarrow> xs = []" "xs \<noteq> [] \<Longrightarrow> last xs = prev \<and> prev \<in> set xs" "prev \<noteq> b" "cur \<noteq> b"
    "cur \<noteq> 0 \<and> b + bh_size (hdr k b) = cur \<longleftrightarrow> mid2 \<noteq> []"
    "prev \<noteq> 0 \<and> prev + bh_size (hdr k prev) = b \<longleftrightarrow> mid1 \<noteq> []"
    "bh_size (hdr k b) + (if mid2 \<noteq> [] then bh_size (hdr k cur) else 0) = of_nat (s + span mid2)"
    "mid1 \<noteq> [] \<Longrightarrow> prev = of_nat (unat (heap_low k) + span pre0) \<and> bh_size (hdr k prev) = of_nat (span mid1)"
    "chain (hdr k) (if mid2 \<noteq> [] then bh_next (hdr k cur) else cur) zs"
    "xs = free_ptrs (unat (heap_low k)) pre0 @ (if mid1 = [] then [] else [prev])"
proof -
  have ys': "ys = free_ptrs (a + span [(s, False)]) post" using ys by simp
  note P = rep_ptrs [OF rep a xs ys'] and B = free_block_facts [OF rep a xs ys, folded b]
  note H = kmm_repD(3) [OF rep]
  show pv: "prev = 0 \<longleftrightarrow> xs = []" "xs \<noteq> [] \<Longrightarrow> last xs = prev \<and> prev \<in> set xs" "prev \<noteq> b"
    using P(2) [of "last xs"] B(2,4) last_in_set [of xs] by (auto simp: prev)
  have cv: "cur = 0 \<longleftrightarrow> ys = []" "ys \<noteq> [] \<Longrightarrow> hd ys = cur \<and> cur \<in> set ys" and cb: "cur \<noteq> b"
    using P(3) [of cur] B(3,4) by (cases ys; auto simp: cur)+
  show "cur \<noteq> b" by (rule cb)
  show "cur \<noteq> 0 \<and> b + bh_size (hdr k b) = cur \<longleftrightarrow> mid2 \<noteq> []"
    using B(10) cv post(3) ys by auto
  show "prev \<noteq> 0 \<and> prev + bh_size (hdr k prev) = b \<longleftrightarrow> mid1 \<noteq> []"
    using B(9) pv pre xs by auto
  show "bh_size (hdr k b) + (if mid2 \<noteq> [] then bh_size (hdr k cur) else 0) = of_nat (s + span mid2)"
    using B(5) H post(1,2) cur ys a by (auto simp: add.assoc)
  show "mid1 \<noteq> [] \<Longrightarrow> prev = of_nat (unat (heap_low k) + span pre0) \<and> bh_size (hdr k prev) = of_nat (span mid1)"
    "xs = free_ptrs (unat (heap_low k)) pre0 @ (if mid1 = [] then [] else [prev])"
    using H pre(1,2) xs prev by auto
  show "chain (hdr k) (if mid2 \<noteq> [] then bh_next (hdr k cur) else cur) zs"
    using chain_tail [of "hdr k" "kfree_list k" xs ys] chain_suffix [of "hdr k" "kfree_list k" xs cur zs]
      P(4) post(1,2) ys zs by (auto simp: cur)
qed

lemma link_block_rep:
  assumes rep: "kmm_rep k (pre @ [(s, False)] @ post)"
    and a: "a = unat (heap_low k) + span pre" and xs: "xs = free_ptrs (unat (heap_low k)) pre"
    and ys: "ys = free_ptrs (a + s) post" and b: "b = (of_nat a :: u64)"
    and prev: "prev = last (0 # xs)" and cur: "cur = (case ys of [] \<Rightarrow> 0 | y # _ \<Rightarrow> y)"
    and pre: "pre = pre0 @ mid1" "mid1 = [] \<or> (\<exists>u. mid1 = [(u, True)])" "last_free pre \<longleftrightarrow> mid1 \<noteq> []"
    and post: "post = mid2 @ r" "mid2 = [] \<or> (\<exists>t. mid2 = [(t, True)])"
      "mid2 \<noteq> [] \<longleftrightarrow> (\<exists>t r. post = (t, True) # r)"
    and co: "coalesced (pre0 @ [(span mid1 + s + span mid2, True)] @ r)"
  shows "kmm_rep (link_block b prev cur k) (pre0 @ [(span mid1 + s + span mid2, True)] @ r)"
proof -
  define zs where "zs = free_ptrs (a + s + span mid2) r"
  define a0 where "a0 = unat (heap_low k) + span pre0"
  define xs0 where "xs0 = free_ptrs (unat (heap_low k)) pre0"
  define bnx where "bnx = (if mid2 \<noteq> [] then bh_next (hdr k cur) else cur)"
  define k' where "k' = link_block b prev cur k"
  note L = link_block_facts [OF rep a xs ys b prev cur pre post zs_def, folded bnx_def a0_def xs0_def]
  note F = link_block_fields [OF L(3,4), of k, unfolded L(5,6), folded bnx_def k'_def, unfolded L(7)]
  have rep0: "kmm_rep k (pre0 @ (mid1 @ [(s, False)] @ mid2) @ r)" using rep pre(1) post(1) by simp
  have as: "a = a0 + span mid1" using a pre(1) by (simp add: a0_def)
  have zs0: "zs = free_ptrs (a0 + span (mid1 @ [(s, False)] @ mid2)) r"
    by (simp add: zs_def as add.assoc)
  note P = rep_ptrs [OF rep0 a0_def xs0_def zs0]
  have ub: "unat b = a" using free_block_facts(1) [OF rep a xs ys] b by simp
  have start: "of_nat a0 = (if mid1 = [] then b else prev)" "unat (of_nat a0 :: u64) = a0"
    using as L(8) b P(1) by auto
  have pr: "prev = 0 \<or> unat prev < a" and pz: "prev \<notin> set zs" "b \<notin> set zs"
  proof -
    show pr: "prev = 0 \<or> unat prev < a" using L(1,2) rep_ptrs(2) [OF rep a xs refl, of prev] by auto
    show "prev \<notin> set zs" "b \<notin> set zs" using P(3,8) pr ub as by fastforce+
  qed
  have chz: "chain (hdr k') bnx zs"
    using L(9) pz by (subst chain_cong [where h = "hdr k"]) (auto simp: F(6))
  have "kmm_rep k' (pre0 @ [(span mid1 + s + span mid2, True)] @ r)"
  proof (rule kmm_rep_replace [OF rep0 a0_def xs0_def], goal_cases)
    case 4
    then show ?case using P(8) pre(2) post(2) by auto
  next
    case 6
    have "bh_magic (hdr k (of_nat a0)) = MAGIC" using P(5) pre(2) by auto
    then show ?case using F(4,5) L(8) start pre(2) by (auto simp: add.assoc)
  next
    case (7 p)
    then have "p \<noteq> b" "mid1 \<noteq> [] \<Longrightarrow> p \<noteq> prev" using ub as start P(8) by auto
    then show ?case using F(4,5) by auto
  next
    case (8 p)
    then have "p \<noteq> b" using P(2) [of p] ub as by auto
    moreover have "xs0 \<noteq> []" using 8 by auto
    then have "p \<noteq> prev" using 8 L(2,10) P(2) [of prev] start by (auto split: if_splits)
    ultimately show ?case using F(6) by simp
  next
    case 9
    show ?case
    proof (cases "mid1 = []")
      case True
      then show ?thesis
        using chz F(3) F(6) L(1,2,3,10) start zs0 free_block_facts(4) [OF rep a xs ys] b by auto
    next
      case False
      then have "(if xs0 = [] then kfree_list k else bh_next (hdr k (last xs0))) = prev"
        using chain_link [of "hdr k" "kfree_list k" xs0 prev] P(4) start pre(2) by auto
      moreover have "xs0 \<noteq> [] \<Longrightarrow> last xs0 \<noteq> prev \<and> last xs0 \<noteq> b"
        using P(2) [of "last xs0"] start False ub as by auto
      moreover have p0: "prev \<noteq> 0" using L(1,10) False by simp
      ultimately have "(if xs0 = [] then kfree_list k' else bh_next (hdr k' (last xs0))) = prev"
        using F(3) F(6) by (cases "xs0 = []") simp_all
      moreover have "bh_next (hdr k' prev) = bnx" using F(6) p0 False by simp
      ultimately show ?thesis
        using False chz start zs0 [symmetric] p0 by simp
    qed
  qed (use F(1-3) co L(1,10) in \<open>simp_all add: add.assoc\<close>)
  then show ?thesis by (simp add: k'_def)
qed

lemma link_block_low [simp]:
  "heap_low (link_block b prev cur k) = heap_low k"
  "heap_high (link_block b prev cur k) = heap_high k"
  by (simp_all add: link_block_def Let_def kmm_simps)

lemma coalesced_freed:
  assumes "coalesced (pre0 @ mid1 @ [(s, False)] @ mid2 @ r)"
    and "mid1 = [] \<or> (\<exists>u. mid1 = [(u, True)])" "last_free (pre0 @ mid1) \<longleftrightarrow> mid1 \<noteq> []"
    and "mid2 = [] \<or> (\<exists>t. mid2 = [(t, True)])" "mid2 \<noteq> [] \<longleftrightarrow> (\<exists>t r'. mid2 @ r = (t, True) # r')"
  shows "coalesced (pre0 @ [(n, True)] @ r)"
proof -
  have c: "coalesced (pre0 @ mid1)" "coalesced (mid2 @ r)"
    using assms(1) coalesced_append [of "pre0 @ mid1" s False "mid2 @ r"]
    by (auto simp: coalesced_Cons)
  then have "coalesced pre0" "coalesced r"
    using assms(2,4) by (auto simp: coalesced_append coalesced_Cons)
  moreover have "pre0 \<noteq> [] \<Longrightarrow> \<not> snd (last pre0)"
    using c(1) assms(2,3) by (auto simp: coalesced_append last_free_def)
  moreover have "r \<noteq> [] \<Longrightarrow> \<not> snd (hd r)"
    using c(2) assms(4,5) by (cases r) (auto simp: coalesced_Cons)
  ultimately show ?thesis by (simp add: coalesced_append coalesced_Cons)
qed

lemma kfree_rep:
  assumes rep: "kmm_rep k (pre @ [(s, False)] @ post)"
  shows "\<exists>k' bs'. kfree (heap_low k + of_nat (span pre) + 24) k = Some k' \<and> kmm_rep k' bs' \<and>
     h_free (span pre) (pre @ [(s, False)] @ post) = Some bs' \<and>
     heap_low k' = heap_low k \<and> heap_high k' = heap_high k"
proof -
  define a where "a = unat (heap_low k) + span pre"
  define xs where "xs = free_ptrs (unat (heap_low k)) pre"
  define ys where "ys = free_ptrs (a + s) post"
  define cur where "cur = (case ys of [] \<Rightarrow> (0 :: u64) | y # _ \<Rightarrow> y)"
  obtain pre0 mid1 where pre: "pre = pre0 @ mid1" "mid1 = [] \<or> (\<exists>u. mid1 = [(u, True)])"
    "last_free pre \<longleftrightarrow> mid1 \<noteq> []" by (rule last_free_split)
  obtain mid2 r where post: "post = mid2 @ r" "mid2 = [] \<or> (\<exists>t. mid2 = [(t, True)])"
    "cons_free s post = [(s + span mid2, True)] @ r" "mid2 \<noteq> [] \<longleftrightarrow> (\<exists>t r. post = (t, True) # r)"
    by (rule cons_free_split)
  note B = free_block_facts [OF rep a_def xs_def ys_def]
  have co: "coalesced (pre0 @ [(span mid1 + s + span mid2, True)] @ r)"
    using kmm_repD(6) [OF rep] pre post by (intro coalesced_freed [where s = s]) auto
  have "chain (hdr k) (kfree_list k) (xs @ ys)"
    using kmm_repD(4) [OF rep] by (simp add: xs_def ys_def a_def add.assoc)
  note ip = insert_point_chain [OF this, of "of_nat a" 0, unfolded B(7,8), folded cur_def]
  have ptr: "heap_low k + of_nat (span pre) + 24 - HEADER_SIZE = of_nat a"
    by (simp add: a_def HEADER_SIZE_def)
  have nz: "heap_low k + of_nat (span pre) + 24 \<noteq> 0"
  proof
    assume "heap_low k + of_nat (span pre) + 24 = 0"
    then have "(of_nat (a + 24) :: u64) = of_nat 0" by (simp add: a_def)
    moreover have "a + 24 < 2 ^ 64" "0 < a"
      using kmm_repD(1,2,5) [OF rep] by (auto simp: a_def)
    ultimately show False using of_nat_word_inj64 [of "a + 24" 0] by simp
  qed
  have "kfree (heap_low k + of_nat (span pre) + 24) k
      = Some (link_block (of_nat a) (last (0 # xs)) cur k)"
    using nz ptr ip B(6) by (simp add: kfree_def Let_def)
  moreover have "kmm_rep (link_block (of_nat a) (last (0 # xs)) cur k)
      (pre0 @ [(span mid1 + s + span mid2, True)] @ r)"
    by (rule link_block_rep [OF rep a_def xs_def ys_def refl refl cur_def pre post(1,2,4) co])
  moreover have "h_free (span pre) (pre @ [(s, False)] @ post)
      = Some (pre0 @ [(span mid1 + s + span mid2, True)] @ r)"
    using h_free_Some [of pre s post] kmm_repD(5,6) [OF rep] pre post(3)
    by (auto simp: cons_free_def add.assoc)
  ultimately show ?thesis by auto
qed

subsection \<open>Allocated regions and free bytes\<close>

fun allocated :: "nat \<Rightarrow> aheap \<Rightarrow> (nat \<times> nat) list" where
  "allocated a [] = []"
| "allocated a ((s, f) # bs) = (if f then [] else [(a, s)]) @ allocated (a + s) bs"

definition free_total :: "aheap \<Rightarrow> nat" where
  "free_total bs = sum_list (map fst (filter snd bs))"

lemma allocated_append [simp]:
  "allocated a (xs @ ys) = allocated a xs @ allocated (a + span xs) ys"
  by (induction a xs rule: allocated.induct) (auto simp: add.assoc)

lemma allocated_range:
  "(x, t) \<in> set (allocated a bs) \<Longrightarrow> a \<le> x \<and> x + t \<le> a + span bs"
  by (induction a bs rule: allocated.induct) (auto split: if_splits)

lemma allocated_empty: "allocated a bs = [] \<Longrightarrow> \<forall>(s, f) \<in> set bs. f"
  by (induction a bs rule: allocated.induct) (auto split: if_splits)

lemma free_total_simps [simp]:
  "free_total [] = 0" "free_total ((s, f) # bs) = (if f then s else 0) + free_total bs"
  "free_total (xs @ ys) = free_total xs + free_total ys"
  by (simp_all add: free_total_def)

lemma free_total_le: "free_total bs \<le> span bs"
  by (induction bs) auto

lemma free_bytes_chain:
  "chain h p as \<Longrightarrow> free_bytes_from h acc p = Some (acc + sum_list (map (\<lambda>a. bh_size (h a)) as))"
proof (induction as arbitrary: p acc)
  case Nil
  then show ?case by (simp add: free_bytes_from.simps)
next
  case (Cons a as)
  then have pa: "p = a" "a \<noteq> 0" "chain h (bh_next (h a)) as" by auto
  show ?case
    unfolding pa(1) using pa(2) Cons.IH [OF pa(3)]
    by (subst free_bytes_from.simps) (simp add: add.assoc)
qed

lemma free_ptrs_sizes:
  "hdrs_ok h a bs \<Longrightarrow> sum_list (map (\<lambda>p. bh_size (h p)) (free_ptrs a bs)) = of_nat (free_total bs)"
  by (induction h a bs rule: hdrs_ok.induct) auto

lemma compute_free_bytes_rep:
  "kmm_rep k bs \<Longrightarrow> compute_free_bytes k = Some (of_nat (free_total bs))"
  using free_bytes_chain [OF kmm_repD(4), of k bs 0] free_ptrs_sizes [OF kmm_repD(3), of k bs]
  by (simp add: compute_free_bytes_def)

lemma h_alloc_coalesced_all_free: "coalesced bs \<Longrightarrow> \<forall>(s, f) \<in> set bs. f \<Longrightarrow> length bs \<le> 1"
  by (induction bs rule: coalesced.induct) auto

text \<open>A one-megabyte heap with a single free block.\<close>

definition heap0 :: kmm where
  "heap0 = \<lparr>kfree_list = 0x200000, heap_low = 0x200000, heap_high = 0x300000,
     hdr = (\<lambda>_. \<lparr>bh_magic = MAGIC, bh_size = 0x100000, bh_next = 0\<rparr>)\<rparr>"

lemma heap0_rep: "kmm_rep heap0 [(0x100000, True)]"
  by (simp add: kmm_rep_def heap0_def)

subsection \<open>Properties\<close>

text \<open>C7.  \<open>kmalloc\<close> always returns, and refines first-fit on the block list: it fails with
  null and an unchanged heap exactly when no free block has room for the header
  and the size rounded up to 8; otherwise it returns the data of the first block
  that fits, split when at least 64 bytes are left over.\<close>

theorem kmalloc_refines_first_fit:
  assumes "kmm_rep k bs" "sz \<noteq> 0" "unat sz < 2 ^ 64 - 32"
  shows "case h_alloc (24 + (unat sz + 7) div 8 * 8) bs of
      None \<Rightarrow> kmalloc sz k = Some (0, k)
    | Some (i, bs') \<Rightarrow> \<exists>k'. kmalloc sz k = Some (heap_low k + of_nat i + 24, k') \<and> kmm_rep k' bs'"
  using kmalloc_rep [OF assms] unfolding unat_needed_size [OF assms(3)]
  by (auto split: option.splits)

theorem kmalloc_refines_first_fit_witness:
  "\<exists>k'. kmalloc 100 heap0 = Some (0x200018, k') \<and> kmm_rep k' [(128, False), (0xFFF80, True)]"
  using kmalloc_refines_first_fit [OF heap0_rep, of 100] by (simp add: heap0_def)

text \<open>C15.  Memory safety of \<open>kmalloc\<close>: a non-null result is 8-byte aligned relative to
  the heap base, its \<open>sz\<close> bytes lie inside the heap and overlap no block that is
  already allocated (header included), and every allocated block stays allocated.\<close>

theorem kmalloc_disjoint:
  assumes rep: "kmm_rep k bs" and sz: "sz \<noteq> 0" "unat sz < 2 ^ 64 - 32"
    and r: "kmalloc sz k = Some (p, k')" "p \<noteq> 0"
  shows "\<exists>bs'. kmm_rep k' bs' \<and> unat (heap_low k) < unat p \<and> unat p + unat sz \<le> unat (heap_high k) \<and>
     8 dvd unat p - unat (heap_low k) \<and>
     set (allocated (unat (heap_low k)) bs) \<subseteq> set (allocated (unat (heap_low k)) bs') \<and>
     (\<forall>(x, t) \<in> set (allocated (unat (heap_low k)) bs). {unat p..<unat p + unat sz} \<inter> {x..<x + t} = {})"
proof -
  let ?n = "unat (needed_size sz)" and ?lo = "unat (heap_low k)"
  note K = kmalloc_rep [OF rep sz] and R = kmm_repD [OF rep]
  obtain i bs' where h: "h_alloc ?n bs = Some (i, bs')"
    using K r by (cases "h_alloc ?n bs") auto
  then have p: "p = heap_low k + of_nat i + 24" "kmm_rep k' bs'" using K r by auto
  obtain pre s post where b: "bs = pre @ (s, True) # post" "i = span pre" "?n \<le> s"
    "bs' = pre @ (if s - ?n \<ge> 64 then [(?n, False), (s - ?n, True)] else [(s, False)]) @ post"
    using h_alloc_split [OF h] by blast
  have pn: "p = of_nat (?lo + span pre + 24)" using p(1) b(2) by simp
  have nz: "unat sz + 24 \<le> ?n" by (rule needed_size_ok(3) [OF sz(2,1)])
  have up: "unat p = ?lo + span pre + 24"
    unfolding pn using R(1) b(1,3) nz by (intro unat_of_nat64) simp
  have d8: "8 dvd span pre"
    using R(5) b(1) by (induction pre arbitrary: bs) (auto simp: b(1))
  have "{unat p..<unat p + unat sz} \<inter> {x..<x + t} = {}" if "(x, t) \<in> set (allocated ?lo bs)" for x t
    using that allocated_range [of x t ?lo pre] allocated_range [of x t "?lo + span pre + s" post]
      b(1,3) up nz by (auto simp: add.assoc)
  moreover have "set (allocated ?lo bs) \<subseteq> set (allocated ?lo bs')"
    using b(1,3,4) by (auto simp: add.assoc)
  moreover have "unat p + unat sz \<le> unat (heap_high k)"
    using up nz b(1,3) R(7) by simp
  ultimately show ?thesis using p(2) up d8 by auto
qed

theorem kmalloc_disjoint_witness:
  "\<exists>p k'. kmalloc 100 heap0 = Some (p, k') \<and> unat p + 100 \<le> 0x300000 \<and> 8 dvd unat p - 0x200000"
proof -
  obtain k' where k: "kmalloc 100 heap0 = Some (0x200018, k')"
    using kmalloc_rep [OF heap0_rep, of 100] by (auto simp: heap0_def unat_needed_size)
  show ?thesis
    using kmalloc_disjoint [OF heap0_rep _ _ k] k by (auto simp: heap0_def)
qed

text \<open>C8.  \<open>kfree\<close> of a block that is allocated always returns, and refines \<open>h_free\<close>: the
  block joins the free list at its address and merges with free neighbours on
  both sides; the free bytes grow by exactly the block's size.\<close>

theorem kfree_refines:
  assumes "kmm_rep k (pre @ [(s, False)] @ post)"
  shows "\<exists>k' bs'. kfree (heap_low k + of_nat (span pre) + 24) k = Some k' \<and> kmm_rep k' bs' \<and>
     h_free (span pre) (pre @ [(s, False)] @ post) = Some bs' \<and>
     free_total bs' = free_total (pre @ [(s, False)] @ post) + s \<and>
     compute_free_bytes k' = Some (of_nat (free_total bs'))"
proof -
  obtain k' bs' where r: "kfree (heap_low k + of_nat (span pre) + 24) k = Some k'" "kmm_rep k' bs'"
    "h_free (span pre) (pre @ [(s, False)] @ post) = Some bs'"
    using kfree_rep [OF assms] by blast
  have "free_total (cons_free n bs) = n + free_total bs" for n bs
    by (auto simp: cons_free_def split: list.splits bool.splits)
  then have "free_total bs' = free_total (pre @ [(s, False)] @ post) + s"
    using r(3) h_free_Some [of pre s post] kmm_repD(5,6) [OF assms]
    by (cases pre rule: rev_cases) (auto simp: last_free_def split: if_splits)
  then show ?thesis using r compute_free_bytes_rep by auto
qed

text \<open>C32.  Allocating and freeing is the identity on the block list: after \<open>kmalloc\<close>
  and \<open>kfree\<close> of the result the heap stands for the very same blocks.\<close>

theorem kmalloc_kfree_roundtrip:
  assumes rep: "kmm_rep k bs" and sz: "sz \<noteq> 0" "unat sz < 2 ^ 64 - 32"
    and r: "kmalloc sz k = Some (p, k')" "p \<noteq> 0"
  shows "\<exists>k''. kfree p k' = Some k'' \<and> kmm_rep k'' bs"
proof -
  let ?n = "unat (needed_size sz)"
  note K = kmalloc_rep [OF rep sz]
  obtain i bs' where h: "h_alloc ?n bs = Some (i, bs')"
    using K r by (cases "h_alloc ?n bs") auto
  then have p: "p = heap_low k + of_nat i + 24" "kmm_rep k' bs'" "heap_low k' = heap_low k"
    using K r by auto
  obtain pre s post where b: "bs = pre @ (s, True) # post" "i = span pre" "?n \<le> s"
    "bs' = pre @ (if s - ?n \<ge> 64 then [(?n, False), (s - ?n, True)] else [(s, False)]) @ post"
    using h_alloc_split [OF h] by blast
  have co: "\<not> last_free pre" "post \<noteq> [] \<Longrightarrow> \<not> snd (hd post)" "blocks_ok pre"
    using kmm_repD(5,6) [OF rep] b(1) by (auto simp: coalesced_append coalesced_Cons last_free_def)
  define t where "t = (if s - ?n \<ge> 64 then ?n else s)"
  define rest where "rest = (if s - ?n \<ge> 64 then (s - ?n, True) # post else post)"
  have b': "bs' = pre @ [(t, False)] @ rest" using b(4) by (simp add: t_def rest_def)
  have "cons_free t rest = (s, True) # post"
    using b(3) co(2) by (auto simp: t_def rest_def cons_free_def split: list.splits bool.splits)
  then have "h_free (span pre) (pre @ [(t, False)] @ rest) = Some bs"
    using h_free_Some [of pre t rest] co(1,3) kmm_repD(6) [OF p(2)] b' b(1) by simp
  then show ?thesis using kfree_rep [of k' pre t rest] p b(2) b' by auto
qed

theorem kmalloc_kfree_roundtrip_witness:
  "\<exists>p k' k''. kmalloc 100 heap0 = Some (p, k') \<and> kfree p k' = Some k'' \<and> kmm_rep k'' [(0x100000, True)]"
proof -
  obtain k' where k: "kmalloc 100 heap0 = Some (0x200018, k')"
    using kmalloc_rep [OF heap0_rep, of 100] by (auto simp: heap0_def unat_needed_size)
  show ?thesis
    using kmalloc_kfree_roundtrip [OF heap0_rep _ _ k] k by auto
qed

theorem kfree_refines_witness:
  "\<exists>k k' bs'. kmalloc 100 heap0 = Some (0x200018, k) \<and> kfree 0x200018 k = Some k' \<and> kmm_rep k' bs' \<and>
     free_total bs' = 0x100000"
proof -
  obtain k where k: "kmalloc 100 heap0 = Some (0x200018, k)" "heap_low k = 0x200000"
    "kmm_rep k [(128, False), (0xFFF80, True)]"
    using kmalloc_rep [OF heap0_rep, of 100] by (auto simp: heap0_def unat_needed_size)
  show ?thesis
    using kfree_refines [of k "[]" 128 "[(0xFFF80, True)]"] k by auto
qed



end
