(* ===== verification/Proc_Table.thy ===== *)
theory Proc_Table imports Vibix_Prelude begin

text \<open>The process table of \<open>process.rs\<close>: the process record, the lookups by PID, the
  round-robin selection \<open>sched_next\<close> and the locale of what a table lookup promises
  to the rest of the kernel.  A lookup that fails is a panic in \<open>process\<close> and
  \<open>process_mut\<close>; here it is \<^term>\<open>None\<close>.\<close>

datatype process_state = Ready | Running | Blocked | Zombie

text \<open>The disposition of one signal (\<open>signal.rs\<close>).\<close>
record sig_action =
  sa_handler :: u64
  sa_mask :: u64
  sa_flags :: u64

definition sig_action_default :: sig_action where
  "sig_action_default = \<lparr>sa_handler = 0, sa_mask = 0, sa_flags = 0\<rparr>"

record process =
  p_pid :: u64
  p_pml4_phys :: u64
  p_state :: process_state
  p_entry :: u64
  p_user_rsp :: u64
  p_kernel_stack_top :: u64
  p_kernel_rsp :: u64
  p_kernel_stack_base :: u64
  p_parent_pid :: u64
  p_exit_code :: u64
  p_wait_for_pid :: u64
  p_brk :: u64
  p_errno :: int
  p_sig_pending :: u64
  p_sigactions :: "sig_action list"
  p_in_signal :: bool
  p_sigframe_rsp :: u64
  p_stack_low :: u64
  p_name :: "u8 list"
  p_fds :: "int list"
  p_cwd :: "u8 list"

type_synonym slots = "process option list"

record proc_table =
  slots :: slots
  next_pid :: u64
  proc_count :: nat

definition MAX_PROCS :: nat where
  "MAX_PROCS = 64"

definition has_pid :: "u64 \<Rightarrow> process option \<Rightarrow> bool" where
  "has_pid q s = (case s of Some p \<Rightarrow> p_pid p = q | None \<Rightarrow> False)"

text \<open>The scan of the slots that all lookups share: the first slot with the PID.\<close>
definition slot_of :: "u64 \<Rightarrow> slots \<Rightarrow> nat option" where
  "slot_of q ss = find (\<lambda>i. has_pid q (ss ! i)) [0..<length ss]"

definition process_mut_if :: "u64 \<Rightarrow> slots \<Rightarrow> process option" where
  "process_mut_if q ss = (case slot_of q ss of Some i \<Rightarrow> ss ! i | None \<Rightarrow> None)"

text \<open>A store through the reference a lookup returns.\<close>
definition upd_process :: "u64 \<Rightarrow> (process \<Rightarrow> process) \<Rightarrow> slots \<Rightarrow> slots" where
  "upd_process q f ss =
     (case slot_of q ss of Some i \<Rightarrow> ss[i := map_option f (ss ! i)] | None \<Rightarrow> ss)"

text \<open>\<open>slot.take()\<close> on the slot with the PID.\<close>
definition take_process :: "u64 \<Rightarrow> slots \<Rightarrow> slots" where
  "take_process q ss = (case slot_of q ss of Some i \<Rightarrow> ss[i := None] | None \<Rightarrow> ss)"

definition ready_user :: "process option \<Rightarrow> bool" where
  "ready_user s = (case s of Some p \<Rightarrow> p_state p = Ready \<and> p_pid p \<noteq> 2 | None \<Rightarrow> False)"

definition ready_idle :: "process option \<Rightarrow> bool" where
  "ready_idle s = (case s of Some p \<Rightarrow> p_state p = Ready \<and> p_pid p = 2 | None \<Rightarrow> False)"

definition sched_next :: "u64 \<Rightarrow> slots \<Rightarrow> u64" where
  "sched_next cur ss =
     (let start = (case slot_of cur ss of Some i \<Rightarrow> i | None \<Rightarrow> 0) in
      case find (\<lambda>off. ready_user (ss ! ((start + off) mod MAX_PROCS))) [1..<MAX_PROCS] of
        Some off \<Rightarrow> p_pid (the (ss ! ((start + off) mod MAX_PROCS)))
      | None \<Rightarrow> if \<exists>s \<in> set ss. ready_idle s then 2 else cur)"

text \<open>The invariant: 64 slots, no PID in two of them, PID 0 (no process) in none.\<close>
definition pids :: "slots \<Rightarrow> u64 set" where
  "pids ss = {q. \<exists>p. Some p \<in> set ss \<and> p_pid p = q}"

definition slots_inv :: "slots \<Rightarrow> bool" where
  "slots_inv ss \<longleftrightarrow> length ss = MAX_PROCS \<and> 0 \<notin> pids ss \<and>
     (\<forall>i < length ss. \<forall>j < length ss. \<forall>p q. ss ! i = Some p \<and> ss ! j = Some q \<and> p_pid p = p_pid q
        \<longrightarrow> i = j)"

lemma has_pid_simps [simp]:
  "has_pid q None = False" "has_pid q (Some p) \<longleftrightarrow> p_pid p = q"
  by (simp_all add: has_pid_def)

lemma has_pid_iff: "has_pid q s \<longleftrightarrow> (\<exists>p. s = Some p \<and> p_pid p = q)"
  by (cases s) auto

lemma slot_of_Some:
  "slot_of q ss = Some i \<longleftrightarrow>
   i < length ss \<and> (\<exists>p. ss ! i = Some p \<and> p_pid p = q) \<and> (\<forall>j<i. \<not> has_pid q (ss ! j))"
  by (simp add: slot_of_def find_upt_Some_iff has_pid_iff)

lemma slot_of_None: "slot_of q ss = None \<longleftrightarrow> q \<notin> pids ss"
  by (auto simp: slot_of_def find_upt_None_iff has_pid_iff pids_def in_set_conv_nth)

lemma slot_of_inv:
  "slots_inv ss \<Longrightarrow> i < length ss \<Longrightarrow> ss ! i = Some p \<Longrightarrow> slot_of (p_pid p) ss = Some i"
proof -
  assume inv: "slots_inv ss" and i: "i < length ss" "ss ! i = Some p"
  have "\<not> has_pid (p_pid p) (ss ! j)" if "j < i" for j
  proof
    assume "has_pid (p_pid p) (ss ! j)"
    then obtain q where "ss ! j = Some q" "p_pid q = p_pid p" by (auto simp: has_pid_iff)
    then have "j = i" using inv i that unfolding slots_inv_def by (meson less_trans)
    then show False using that by simp
  qed
  then show ?thesis unfolding slot_of_Some using i by blast
qed

lemma process_mut_if_Some:
  "slots_inv ss \<Longrightarrow> process_mut_if q ss = Some p \<longleftrightarrow> Some p \<in> set ss \<and> p_pid p = q"
proof
  assume "slots_inv ss" "process_mut_if q ss = Some p"
  then show "Some p \<in> set ss \<and> p_pid p = q"
    by (auto simp: process_mut_if_def slot_of_Some in_set_conv_nth split: option.splits)
next
  assume "slots_inv ss" "Some p \<in> set ss \<and> p_pid p = q"
  then show "process_mut_if q ss = Some p"
    using slot_of_inv [of ss _ p] by (auto simp: process_mut_if_def in_set_conv_nth)
qed

lemma process_mut_if_pid: "process_mut_if q ss = Some p \<Longrightarrow> p_pid p = q"
  by (auto simp: process_mut_if_def slot_of_Some split: option.splits)

lemma process_mut_if_None: "process_mut_if q ss = None \<longleftrightarrow> q \<notin> pids ss"
proof (cases "slot_of q ss")
  case (Some i)
  then obtain p where "ss ! i = Some p" using slot_of_Some by blast
  then show ?thesis using Some slot_of_None [of q ss] by (simp add: process_mut_if_def)
next
  case None
  then show ?thesis using slot_of_None [of q ss] by (simp add: process_mut_if_def)
qed

lemma finite_pids [simp]: "finite (pids ss)"
proof -
  have "pids ss \<subseteq> (\<lambda>s. p_pid (the s)) ` set ss" by (force simp: pids_def image_iff)
  then show ?thesis by (rule finite_subset) simp
qed

lemma slot_of_upd:
  "(\<And>p. p_pid (f p) = p_pid p) \<Longrightarrow> slot_of r (upd_process q f ss) = slot_of r ss"
proof -
  assume f: "\<And>p. p_pid (f p) = p_pid p"
  have "has_pid r (upd_process q f ss ! i) = has_pid r (ss ! i)" if "i < length ss" for i
  proof (cases "slot_of q ss")
    case (Some j)
    then obtain p where "ss ! j = Some p" "j < length ss" using slot_of_Some by blast
    then show ?thesis using that f Some by (auto simp: upd_process_def nth_list_update)
  qed (simp add: upd_process_def)
  moreover have "length (upd_process q f ss) = length ss"
    by (simp add: upd_process_def split: option.split)
  ultimately show ?thesis
    unfolding slot_of_def by (auto intro!: find_cong)
qed

lemma length_upd_process [simp]: "length (upd_process q f ss) = length ss"
  by (simp add: upd_process_def split: option.split)

lemma length_take_process [simp]: "length (take_process q ss) = length ss"
  by (simp add: take_process_def split: option.split)

lemma process_mut_if_upd [proc_simps]:
  assumes f: "\<And>p. p_pid (f p) = p_pid p"
  shows "process_mut_if r (upd_process q f ss) =
     (if r = q then map_option f (process_mut_if q ss) else process_mut_if r ss)"
proof (cases "slot_of q ss")
  case None
  then show ?thesis by (simp add: process_mut_if_def upd_process_def)
next
  case (Some j)
  then obtain p where p: "ss ! j = Some p" "j < length ss" "p_pid p = q" using slot_of_Some by blast
  show ?thesis
  proof (cases "slot_of r ss")
    case None
    then show ?thesis using Some slot_of_upd [OF f, of r q ss] by (auto simp: process_mut_if_def)
  next
    case (Some i)
    then obtain p' where "ss ! i = Some p'" "i < length ss" "p_pid p' = r" using slot_of_Some by blast
    then show ?thesis
      using Some \<open>slot_of q ss = Some j\<close> p slot_of_upd [OF f, of r q ss]
      by (auto simp: process_mut_if_def upd_process_def nth_list_update)
  qed
qed

lemma pids_upd [proc_simps]: "(\<And>p. p_pid (f p) = p_pid p) \<Longrightarrow> pids (upd_process q f ss) = pids ss"
  using slot_of_upd [of f _ q ss] slot_of_None [of _ ss] slot_of_None [of _ "upd_process q f ss"]
  by (intro set_eqI) metis

lemma slots_inv_upd [wf_intros]:
  assumes inv: "slots_inv ss" and f: "\<And>p. p_pid (f p) = p_pid p"
  shows "slots_inv (upd_process q f ss)"
proof (cases "slot_of q ss")
  case (Some j)
  then obtain p where p: "ss ! j = Some p" "j < length ss" using slot_of_Some by blast
  have pid: "map_option p_pid (upd_process q f ss ! i) = map_option p_pid (ss ! i)" if "i < length ss" for i
    using Some p f that by (auto simp: upd_process_def nth_list_update)
  have "i = j" if "i < length ss" "j < length ss" "upd_process q f ss ! i = Some a"
    "upd_process q f ss ! j = Some b" "p_pid a = p_pid b" for i j a b
  proof -
    note t = that
    obtain a' b' where "ss ! i = Some a'" "p_pid a' = p_pid a" "ss ! j = Some b'" "p_pid b' = p_pid b"
      using pid [OF t(1)] pid [OF t(2)] t(3,4) by (cases "ss ! i"; cases "ss ! j") auto
    then show ?thesis using inv t(1,2,5) unfolding slots_inv_def by metis
  qed
  then show ?thesis
    using inv pids_upd [of f q ss] f unfolding slots_inv_def by auto
qed (use inv in \<open>simp add: upd_process_def\<close>)

lemma upd_process_twice [proc_simps]:
  assumes g: "\<And>p. p_pid (g p) = p_pid p"
  shows "upd_process q f (upd_process q g ss) = upd_process q (\<lambda>p. f (g p)) ss"
proof (cases "slot_of q ss")
  case None
  then show ?thesis using slot_of_upd [OF g, of q q ss] by (simp add: upd_process_def)
next
  case (Some i)
  then obtain p where "ss ! i = Some p" "i < length ss" using slot_of_Some by blast
  moreover have "slot_of q (upd_process q g ss) = Some i" using slot_of_upd [OF g] Some by simp
  ultimately show ?thesis using Some by (simp add: upd_process_def)
qed

lemma upd_process_cong:
  assumes "\<And>p. process_mut_if q ss = Some p \<Longrightarrow> f p = g p"
  shows "upd_process q f ss = upd_process q g ss"
proof (cases "slot_of q ss")
  case (Some i)
  then obtain p where p: "ss ! i = Some p" "i < length ss" using slot_of_Some by blast
  then have "f p = g p" using assms Some by (simp add: process_mut_if_def)
  then show ?thesis using Some p by (simp add: upd_process_def)
qed (simp add: upd_process_def)

lemma upd_process_same:
  assumes "\<And>p. process_mut_if q ss = Some p \<Longrightarrow> f p = p"
  shows "upd_process q f ss = ss"
proof (cases "slot_of q ss")
  case (Some i)
  then obtain p where p: "ss ! i = Some p" "i < length ss" using slot_of_Some by blast
  then have "f p = p" using assms Some by (simp add: process_mut_if_def)
  then show ?thesis using Some p by (simp add: upd_process_def) (metis list_update_id)
qed (simp add: upd_process_def)

text \<open>What a lookup promises its clients: a store through a reference changes the
  process with that PID and no other.\<close>

locale keyed_store =
  fixes get :: "'k \<Rightarrow> 's \<Rightarrow> 'v option"
    and upd :: "'k \<Rightarrow> ('v \<Rightarrow> 'v) \<Rightarrow> 's \<Rightarrow> 's"
    and key :: "'v \<Rightarrow> 'k"
  assumes get_upd: "(\<And>v. key (f v) = key v) \<Longrightarrow>
      get r (upd q f s) = (if r = q then map_option f (get q s) else get r s)"
    and get_key: "get q s = Some v \<Longrightarrow> key v = q"
begin

lemma get_upd_other: "(\<And>v. key (f v) = key v) \<Longrightarrow> r \<noteq> q \<Longrightarrow> get r (upd q f s) = get r s"
  by (simp add: get_upd)

lemma get_upd_same: "(\<And>v. key (f v) = key v) \<Longrightarrow> get q (upd q f s) = map_option f (get q s)"
  by (simp add: get_upd)

text \<open>Updates of different keys commute, as far as lookups can tell.\<close>

lemma upd_commute:
  assumes "\<And>v. key (f v) = key v" "\<And>v. key (g v) = key v" "q \<noteq> r"
  shows "get t (upd q f (upd r g s)) = get t (upd r g (upd q f s))"
  using assms by (simp add: get_upd)

end

interpretation table: keyed_store process_mut_if upd_process p_pid
  by unfold_locales (simp_all add: process_mut_if_upd process_mut_if_pid)

subsection \<open>Round-robin selection\<close>

definition rr_dist :: "nat \<Rightarrow> nat \<Rightarrow> nat" where
  "rr_dist i j = (j + MAX_PROCS - i) mod MAX_PROCS"

lemma ready_user_iff:
  "ready_user s \<longleftrightarrow> (\<exists>p. s = Some p \<and> p_state p = Ready \<and> p_pid p \<noteq> 2)"
  by (auto simp: ready_user_def split: option.splits)

lemma rr_dist_slot:
  assumes "i < MAX_PROCS" "j < MAX_PROCS"
  shows "(i + rr_dist i j) mod MAX_PROCS = j" "rr_dist i j < MAX_PROCS" "rr_dist i j = 0 \<longleftrightarrow> i = j"
proof -
  have *: "rr_dist i j = (if i \<le> j then j - i else j + MAX_PROCS - i)"
    using assms unfolding rr_dist_def by (simp add: mod_below_twice)
  show "(i + rr_dist i j) mod MAX_PROCS = j" "rr_dist i j < MAX_PROCS" "rr_dist i j = 0 \<longleftrightarrow> i = j"
    using assms unfolding * by (auto simp: mod_below_twice)
qed

lemma rr_dist_add:
  assumes "i < MAX_PROCS" "j < MAX_PROCS" "off \<le> rr_dist i j"
  shows "rr_dist ((i + off) mod MAX_PROCS) j = rr_dist i j - off"
proof -
  have m: "(i + off) mod MAX_PROCS < MAX_PROCS" by (simp add: MAX_PROCS_def)
  have "i + off < 2 * MAX_PROCS" using assms rr_dist_slot(2) [OF assms(1,2)] by simp
  then show ?thesis
    using assms m unfolding rr_dist_def by (auto simp: mod_below_twice split: if_splits)
qed

lemma sched_next_first_ready:
  assumes inv: "slots_inv ss" and i: "slot_of cur ss = Some i"
    and j: "slot_of q ss = Some j" "i \<noteq> j" "ready_user (ss ! j)"
  shows "\<exists>off. 0 < off \<and> off \<le> rr_dist i j \<and> slot_of (sched_next cur ss) ss = Some ((i + off) mod MAX_PROCS) \<and>
     ready_user (ss ! ((i + off) mod MAX_PROCS)) \<and>
     (\<forall>o' < off. 0 < o' \<longrightarrow> \<not> ready_user (ss ! ((i + o') mod MAX_PROCS)))"
proof -
  have len: "length ss = MAX_PROCS" using inv by (simp add: slots_inv_def)
  have ij: "i < MAX_PROCS" "j < MAX_PROCS" using i j len slot_of_Some by auto
  let ?P = "\<lambda>off. ready_user (ss ! ((i + off) mod MAX_PROCS))"
  note D = rr_dist_slot [OF ij]
  have d: "0 < rr_dist i j" using D(3) j(2) by simp
  have P: "?P (rr_dist i j)" using j(3) D(1) by simp
  then obtain off where off: "find ?P [1..<MAX_PROCS] = Some off"
    using d D(2) by (cases "find ?P [1..<MAX_PROCS]") (auto simp: find_None_iff)
  then obtain k where k: "k < MAX_PROCS - 1" "?P (1 + k)" "off = 1 + k" "\<forall>m<k. \<not> ?P (1 + m)"
    by (auto simp: find_Some_iff)
  have least: "\<not> ?P o'" if "0 < o'" "o' < off" for o'
    using k(3,4) that by (cases o') auto
  have "off \<le> rr_dist i j" using least [of "rr_dist i j"] P d by (meson not_le)
  moreover obtain p where p: "ss ! ((i + off) mod MAX_PROCS) = Some p"
    using k(2,3) by (auto simp: ready_user_iff)
  moreover have "sched_next cur ss = p_pid p" using i off p by (simp add: sched_next_def)
  moreover have "slot_of (p_pid p) ss = Some ((i + off) mod MAX_PROCS)"
    using slot_of_inv [OF inv _ p] len by (simp add: MAX_PROCS_def)
  ultimately show ?thesis using k(2,3) least by (intro exI [of _ off]) auto
qed

lemma rr_dist_offset:
  "i < MAX_PROCS \<Longrightarrow> off < MAX_PROCS \<Longrightarrow> rr_dist i ((i + off) mod MAX_PROCS) = off"
  by (auto simp: rr_dist_def mod_below_twice)

lemma ready_choice:
  assumes inv: "slots_inv ss" and i: "slot_of cur ss = Some i"
    and m: "m < MAX_PROCS" "m \<noteq> i" "ready_user (ss ! m)"
  shows "\<exists>off. 0 < off \<and> off \<le> rr_dist i m \<and> slot_of (sched_next cur ss) ss = Some ((i + off) mod MAX_PROCS) \<and>
     ready_user (ss ! ((i + off) mod MAX_PROCS)) \<and>
     (\<forall>o' < off. 0 < o' \<longrightarrow> \<not> ready_user (ss ! ((i + o') mod MAX_PROCS)))"
proof -
  obtain q where "ss ! m = Some q" using m(3) by (auto simp: ready_user_iff)
  then have "slot_of (p_pid q) ss = Some m"
    using slot_of_inv [OF inv] m(1) inv by (simp add: slots_inv_def)
  then show ?thesis using sched_next_first_ready [OF inv i] m by auto
qed

text \<open>Processes for the examples.\<close>

definition blank_process :: "u64 \<Rightarrow> process_state \<Rightarrow> process" where
  "blank_process q st = \<lparr>p_pid = q, p_pml4_phys = 0, p_state = st, p_entry = 0, p_user_rsp = 0,
     p_kernel_stack_top = 0, p_kernel_rsp = 0, p_kernel_stack_base = 0, p_parent_pid = 0,
     p_exit_code = 0, p_wait_for_pid = 0, p_brk = 0, p_errno = 0, p_sig_pending = 0,
     p_sigactions = replicate 32 sig_action_default, p_in_signal = False, p_sigframe_rsp = 0,
     p_stack_low = 0, p_name = replicate 32 0, p_fds = replicate 16 (- 1), p_cwd = replicate 256 0\<rparr>"

definition slots_of :: "process list \<Rightarrow> slots" where
  "slots_of ps = map Some ps @ replicate (MAX_PROCS - length ps) None"

lemma slots_inv_slots_of:
  assumes "length ps \<le> MAX_PROCS" "distinct (map p_pid ps)" "0 \<notin> p_pid ` set ps"
  shows "slots_inv (slots_of ps)"
proof -
  have nth: "slots_of ps ! i = Some p \<longleftrightarrow> i < length ps \<and> ps ! i = p" if "i < MAX_PROCS" for i p
    using that assms(1) by (auto simp: slots_of_def nth_append)
  have "i = j" if "i < MAX_PROCS" "j < MAX_PROCS" "slots_of ps ! i = Some p" "slots_of ps ! j = Some q"
      "p_pid p = p_pid q" for i j p q
    using that nth assms(2) by (auto simp: distinct_conv_nth)
  moreover have "0 \<notin> pids (slots_of ps)" using assms(3) by (auto simp: pids_def slots_of_def)
  moreover have "length (slots_of ps) = MAX_PROCS" using assms(1) by (simp add: slots_of_def)
  ultimately show ?thesis unfolding slots_inv_def by metis
qed

lemma sched_next_nearest:
  assumes inv: "slots_inv ss" and i: "slot_of cur ss = Some i" and m: "m < MAX_PROCS" "m \<noteq> i" "ready_user (ss ! m)"
  shows "\<exists>j p. j \<noteq> i \<and> ss ! j = Some p \<and> sched_next cur ss = p_pid p \<and> ready_user (ss ! j) \<and>
    (\<forall>m < MAX_PROCS. m \<noteq> i \<and> ready_user (ss ! m) \<longrightarrow> rr_dist i j \<le> rr_dist i m)"
proof -
  have len: "length ss = MAX_PROCS" using inv by (simp add: slots_inv_def)
  have im: "i < MAX_PROCS" using i len slot_of_Some by auto
  obtain off where off: "0 < off" "off \<le> rr_dist i m"
      "slot_of (sched_next cur ss) ss = Some ((i + off) mod MAX_PROCS)"
      "ready_user (ss ! ((i + off) mod MAX_PROCS))"
      "\<forall>o' < off. 0 < o' \<longrightarrow> \<not> ready_user (ss ! ((i + o') mod MAX_PROCS))"
    using ready_choice [OF inv i m] by blast
  let ?j = "(i + off) mod MAX_PROCS"
  have jm: "?j < MAX_PROCS" by (simp add: MAX_PROCS_def)
  have offd: "off = rr_dist i ?j"
    using rr_dist_add [OF im m(1) off(2)] rr_dist_offset [OF im, of off] off(2) rr_dist_slot(2) [OF im m(1)]
    by simp
  have "rr_dist i ?j \<le> rr_dist i n" if "n < MAX_PROCS" "n \<noteq> i" "ready_user (ss ! n)" for n
  proof (rule ccontr)
    assume "\<not> rr_dist i ?j \<le> rr_dist i n"
    then have "rr_dist i n < off" using offd by simp
    then show False using off(5) that rr_dist_slot [OF im that(1)] by auto
  qed
  moreover have "?j \<noteq> i" using offd off(1) rr_dist_slot(3) [OF im jm] by auto
  moreover obtain p where "ss ! ?j = Some p" "p_pid p = sched_next cur ss"
    using off(3) slot_of_Some by blast
  ultimately show ?thesis using off(4) by (intro exI [of _ ?j] exI [of _ p]) simp
qed

lemma sched_next_none_ready:
  assumes inv: "slots_inv ss" and i: "slot_of cur ss = Some i" and none: "\<not> (\<exists>j < MAX_PROCS. j \<noteq> i \<and> ready_user (ss ! j))"
  shows "sched_next cur ss = (if \<exists>p. Some p \<in> set ss \<and> p_state p = Ready \<and> p_pid p = 2 then 2 else cur)"
proof -
  have len: "length ss = MAX_PROCS" using inv by (simp add: slots_inv_def)
  have im: "i < MAX_PROCS" using i len slot_of_Some by auto
  have "\<not> ready_user (ss ! ((i + off) mod MAX_PROCS))" if "0 < off" "off < MAX_PROCS" for off
  proof -
    have "(i + off) mod MAX_PROCS < MAX_PROCS" by (simp add: MAX_PROCS_def)
    moreover from this have "(i + off) mod MAX_PROCS \<noteq> i"
      using that rr_dist_offset [OF im that(2)] rr_dist_slot(3) [OF im] by fastforce
    ultimately show ?thesis using none by blast
  qed
  then have "find (\<lambda>off. ready_user (ss ! ((i + off) mod MAX_PROCS))) [1..<MAX_PROCS] = None"
    by (auto simp: find_None_iff)
  moreover have "(\<exists>s \<in> set ss. ready_idle s) \<longleftrightarrow> (\<exists>p. Some p \<in> set ss \<and> p_state p = Ready \<and> p_pid p = 2)"
    by (auto simp: ready_idle_def split: option.splits)
  ultimately show ?thesis using i by (simp add: sched_next_def)
qed

text \<open>C36.  The scheduler's choice is round robin: if any slot but the current one holds a
  Ready user process, the one nearest after the current slot (cyclically) is taken;
  otherwise idle when it is Ready, otherwise the current process again.\<close>

theorem sched_next_round_robin:
  assumes inv: "slots_inv ss" and i: "slot_of cur ss = Some i"
  shows "if \<exists>j < MAX_PROCS. j \<noteq> i \<and> ready_user (ss ! j)
    then \<exists>j p. j \<noteq> i \<and> ss ! j = Some p \<and> sched_next cur ss = p_pid p \<and> ready_user (ss ! j) \<and>
        (\<forall>m < MAX_PROCS. m \<noteq> i \<and> ready_user (ss ! m) \<longrightarrow> rr_dist i j \<le> rr_dist i m)
    else sched_next cur ss = (if \<exists>p. Some p \<in> set ss \<and> p_state p = Ready \<and> p_pid p = 2 then 2 else cur)"
proof (cases "\<exists>j < MAX_PROCS. j \<noteq> i \<and> ready_user (ss ! j)")
  case True
  then obtain m where "m < MAX_PROCS" "m \<noteq> i" "ready_user (ss ! m)" by blast
  from sched_next_nearest [OF inv i this] show ?thesis unfolding if_P [OF True] .
next
  case False
  from sched_next_none_ready [OF inv i False] show ?thesis unfolding if_not_P [OF False] .
qed

text \<open>Two runnable user processes beside idle.\<close>

definition two_ready :: slots where
  "two_ready = slots_of [blank_process 1 Running, blank_process 2 Ready, blank_process 3 Ready, blank_process 4 Ready]"

lemma two_ready_inv: "slots_inv two_ready"
  unfolding two_ready_def by (rule slots_inv_slots_of) (simp_all add: MAX_PROCS_def blank_process_def)

theorem sched_next_round_robin_witness:
  "slot_of 1 two_ready = Some 0 \<and> sched_next 1 two_ready = 3"
proof -
  have i: "slot_of 1 two_ready = Some 0" by code_simp
  have n: "sched_next 1 two_ready = 3" by code_simp
  show ?thesis using sched_next_round_robin [OF two_ready_inv i] i n by simp
qed

text \<open>C16.  No starvation: along any run of scheduling decisions over changing tables, a
  user process that keeps its slot and stays Ready until it is chosen is chosen
  within 63 decisions.\<close>

theorem sched_next_no_starvation:
  assumes inv: "\<And>t. slots_inv (tab t)"
    and step: "\<And>t. cu (Suc t) = sched_next (cu t) (tab t)"
    and stay: "\<And>t. slot_of (cu (Suc t)) (tab (Suc t)) = slot_of (cu (Suc t)) (tab t)"
    and cur0: "slot_of (cu 0) (tab 0) \<noteq> None"
    and q: "\<And>t. slot_of q (tab t) = Some j" "\<And>t. cu t \<noteq> q \<Longrightarrow> ready_user (tab t ! j)"
  shows "\<exists>t < MAX_PROCS. cu t = q"
proof -
  have "\<exists>u. u \<le> t + rr_dist i j \<and> cu u = q" if "slot_of (cu t) (tab t) = Some i" for t i
    using that
  proof (induction "rr_dist i j" arbitrary: t i rule: less_induct)
    case less
    have len: "length (tab t) = MAX_PROCS" using inv [of t] by (simp add: slots_inv_def)
    have ij: "i < MAX_PROCS" "j < MAX_PROCS" using less.prems q(1) [of t] len slot_of_Some by auto
    show ?case
    proof (cases "cu t = q")
      case False
      then have "i \<noteq> j"
        using less.prems q(1) [of t] by (metis option.inject slot_of_Some)
      then obtain off where off: "0 < off" "off \<le> rr_dist i j"
        "slot_of (sched_next (cu t) (tab t)) (tab t) = Some ((i + off) mod MAX_PROCS)"
        using sched_next_first_ready [OF inv less.prems q(1) _ q(2) [OF False]] by blast
      let ?m = "(i + off) mod MAX_PROCS"
      have d: "rr_dist ?m j = rr_dist i j - off" by (rule rr_dist_add [OF ij off(2)])
      have "slot_of (cu (Suc t)) (tab (Suc t)) = Some ?m" using off(3) step stay by simp
      then obtain u where "u \<le> Suc t + rr_dist ?m j" "cu u = q"
        using less.hyps [of ?m "Suc t"] d off(1,2) by auto
      then show ?thesis using d off(1,2) by (intro exI [of _ u]) auto
    qed (auto intro: exI [of _ t])
  qed
  moreover obtain i where i: "slot_of (cu 0) (tab 0) = Some i" using cur0 by blast
  moreover have "i < MAX_PROCS" "j < MAX_PROCS"
    using i q(1) [of 0] inv [of 0] slot_of_Some by (auto simp: slots_inv_def)
  moreover from calculation obtain u where "u \<le> 0 + rr_dist i j" "cu u = q" by blast
  ultimately show ?thesis using rr_dist_slot(2) [of i j] by (intro exI [of _ u]) simp
qed

theorem sched_next_no_starvation_witness:
  "\<exists>t < MAX_PROCS. ((\<lambda>c. sched_next c two_ready) ^^ t) 1 = 4"
proof -
  let ?cu = "\<lambda>t. ((\<lambda>c. sched_next c two_ready) ^^ t) 1"
  have s: "sched_next 1 two_ready = 3" "sched_next 3 two_ready = 4" "sched_next 4 two_ready = 3"
    by code_simp+
  have l: "slot_of 4 two_ready = Some 3" "ready_user (two_ready ! 3)" "slot_of 1 two_ready \<noteq> None"
    by code_simp+
  show ?thesis
    using sched_next_no_starvation [of "\<lambda>_. two_ready" ?cu 4 3] two_ready_inv l by simp
qed

end
