(* ===== verification/Memory.thy ===== *)
theory Memory imports Vibix_Prelude begin

text \<open>Physical memory as a byte store, 64-bit loads and stores, the page-table walk of
  \<open>paging.rs\<close> (\<open>indices\<close>, \<open>translate_in_pml4\<close>) and accesses through it.

  The kernel runs with the low physical memory identity-mapped, so page tables and
  kernel stacks are accessed at their physical address.  A pointer that comes from
  user space is accessed through the page tables of the running address space; an
  access to an unmapped page is a fault in kernel mode, from which the kernel does
  not recover, and is \<^term>\<open>None\<close>.  The translation cache is not modelled.\<close>

type_synonym mem = "u64 \<Rightarrow> u8"

definition store64 :: "u64 \<Rightarrow> u64 \<Rightarrow> mem \<Rightarrow> mem" where
  "store64 a v m = write_bytes a (le_bytes 8 v) m"

definition PAGE_PRESENT :: u64 where "PAGE_PRESENT = 0x1"
definition PAGE_WRITABLE :: u64 where "PAGE_WRITABLE = 0x2"
definition PAGE_USER :: u64 where "PAGE_USER = 0x4"
definition PAGE_HUGE :: u64 where "PAGE_HUGE = 0x80"
definition ADDR_MASK :: u64 where "ADDR_MASK = 0x000FFFFFFFFFF000"

definition indices :: "u64 \<Rightarrow> nat \<times> nat \<times> nat \<times> nat" where
  "indices vaddr =
     (unat (drop_bit 39 vaddr AND 0x1FF), unat (drop_bit 30 vaddr AND 0x1FF),
      unat (drop_bit 21 vaddr AND 0x1FF), unat (drop_bit 12 vaddr AND 0x1FF))"

text \<open>Slot \<open>i\<close> of the 512-entry table at physical address \<open>t\<close>.\<close>
definition slot_addr :: "u64 \<Rightarrow> nat \<Rightarrow> u64" where
  "slot_addr t i = t + 8 * of_nat i"

definition get_entry :: "mem \<Rightarrow> u64 \<Rightarrow> nat \<Rightarrow> u64" where
  "get_entry m t i = load64 m (slot_addr t i)"

definition set_entry :: "u64 \<Rightarrow> nat \<Rightarrow> u64 \<Rightarrow> mem \<Rightarrow> mem" where
  "set_entry t i v m = store64 (slot_addr t i) v m"

definition present :: "u64 \<Rightarrow> bool" where "present e \<longleftrightarrow> e AND PAGE_PRESENT \<noteq> 0"
definition huge :: "u64 \<Rightarrow> bool" where "huge e \<longleftrightarrow> e AND PAGE_HUGE \<noteq> 0"
definition user :: "u64 \<Rightarrow> bool" where "user e \<longleftrightarrow> e AND PAGE_USER \<noteq> 0"
definition frame :: "u64 \<Rightarrow> u64" where "frame e = e AND ADDR_MASK"

definition translate_in_pml4 :: "mem \<Rightarrow> u64 \<Rightarrow> u64 \<Rightarrow> u64 option" where
  "translate_in_pml4 m vaddr pml4 =
     (let (l4i, l3i, l2i, l1i) = indices vaddr; e4 = get_entry m pml4 l4i in
      if \<not> present e4 then None
      else let e3 = get_entry m (frame e4) l3i in
      if \<not> present e3 then None
      else let e2 = get_entry m (frame e3) l2i in
      if \<not> present e2 then None
      else if huge e2 then Some (frame e2 OR (vaddr AND 0x1FFFFF))
      else let e1 = get_entry m (frame e2) l1i in
      if \<not> present e1 then None
      else Some (frame e1 OR (vaddr AND 0xFFF)))"

fun load_virt :: "mem \<Rightarrow> u64 \<Rightarrow> u64 \<Rightarrow> nat \<Rightarrow> u8 list option" where
  "load_virt m cr3 a 0 = Some []"
| "load_virt m cr3 a (Suc n) =
     (case translate_in_pml4 m a cr3 of
        None \<Rightarrow> None
      | Some p \<Rightarrow> map_option ((#) (m p)) (load_virt m cr3 (a + 1) n))"

fun store_virt :: "u64 \<Rightarrow> u64 \<Rightarrow> u8 list \<Rightarrow> mem \<Rightarrow> mem option" where
  "store_virt cr3 a [] m = Some m"
| "store_virt cr3 a (b # bs) m =
     (case translate_in_pml4 m a cr3 of
        None \<Rightarrow> None
      | Some p \<Rightarrow> store_virt cr3 (a + 1) bs (m(p := b)))"

subsection \<open>Aligned 64-bit accesses\<close>

definition aligned8 :: "u64 \<Rightarrow> bool" where
  "aligned8 a \<longleftrightarrow> 8 dvd unat a"

lemma unat_aligned_add:
  assumes "aligned8 a" "i < 8"
  shows "unat (a + of_nat i) = unat a + i"
proof -
  obtain q where q: "unat a = 8 * q" using assms by (auto simp: aligned8_def)
  have "unat a < 2 ^ 64" using unsigned_less [of a] by simp
  then have "q < 2 ^ 61" using q by simp
  then have "unat a + i < 2 ^ 64" using q assms(2) by simp
  then show ?thesis using assms(2) by (subst unat_add64) simp_all
qed

lemma aligned_bytes_disjoint:
  assumes "aligned8 a" "aligned8 b" "a \<noteq> b" "i < 8" "j < 8"
  shows "a + of_nat i \<noteq> b + of_nat j"
proof
  assume "a + of_nat i = b + of_nat j"
  then have "unat a + i = unat b + j" using unat_aligned_add assms by metis
  moreover obtain q r where "unat a = 8 * q" "unat b = 8 * r"
    using assms(1,2) unfolding aligned8_def dvd_def by blast
  ultimately have "unat a = unat b" using assms(4,5) by presburger
  then show False using assms(3) by (simp add: word_unat_eq_iff)
qed

lemma load_store64 [simp]: "load64 (store64 a v m) a = v"
  using read_write_bytes [of "le_bytes 8 v" a m] by (simp add: load64_def store64_def)

lemma load_store64_other [simp]:
  assumes "aligned8 a" "aligned8 b" "a \<noteq> b"
  shows "load64 (store64 a v m) b = load64 m b"
proof -
  have "read_bytes (store64 a v m) b 8 = read_bytes m b 8"
  proof (rule nth_equalityI)
    fix i assume i: "i < length (read_bytes (store64 a v m) b 8)"
    then have "store64 a v m (b + of_nat i) = m (b + of_nat i)"
      unfolding store64_def using aligned_bytes_disjoint [OF assms(2,1)] assms(3)
      by (intro write_bytes_other) auto
    then show "read_bytes (store64 a v m) b 8 ! i = read_bytes m b 8 ! i"
      using i by (simp add: read_bytes_nth)
  qed simp
  then show ?thesis by (simp add: load64_def)
qed

end
