(* ===== verification/Vfs_Types.thy ===== *)
theory Vfs_Types imports Vibix_Prelude begin

text \<open>The data of the VFS layer (\<open>vfs/mod.rs\<close>, \<open>vfs/open_file.rs\<close>): mode bits, open
  flags, limits, errnos, vnodes with their operation tables, open files, directory
  entries and the \<open>stat\<close> structure.

  A \<open>VnodeOps\<close> pointer is the name of one of the kernel's static tables, with a
  predicate per table slot (\<open>Some\<close>/\<open>None\<close>).  A vnode reference is one of the static
  vnodes or the address of a vnode on the kernel heap.  The private \<open>data\<close> pointer
  of a vnode is a tagged value: null, a device number, a path prefix, an offset
  into the embedded archive, or the address of a pipe buffer.\<close>

definition V_DIR :: u16 where "V_DIR = 0x4000"
definition V_FILE :: u16 where "V_FILE = 0x8000"
definition V_CHR :: u16 where "V_CHR = 0x2000"

definition O_RDONLY :: u32 where "O_RDONLY = 0"
definition O_WRONLY :: u32 where "O_WRONLY = 1"

definition MAX_FDS :: nat where "MAX_FDS = 16"
definition OFT_SIZE :: nat where "OFT_SIZE = 64"
definition MAX_MOUNTS :: nat where "MAX_MOUNTS = 4"
definition PATH_MAX :: nat where "PATH_MAX = 256"
definition VFS_MAX_COMPONENTS :: nat where "VFS_MAX_COMPONENTS = 16"

abbreviation ENOENT :: int where "ENOENT \<equiv> 2"
abbreviation EBADF :: int where "EBADF \<equiv> 9"
abbreviation ENOMEM :: int where "ENOMEM \<equiv> 12"
abbreviation EFAULT :: int where "EFAULT \<equiv> 14"
abbreviation ENODEV :: int where "ENODEV \<equiv> 19"
abbreviation ENOTDIR :: int where "ENOTDIR \<equiv> 20"
abbreviation EINVAL :: int where "EINVAL \<equiv> 22"
abbreviation ENFILE :: int where "ENFILE \<equiv> 23"
abbreviation EMFILE :: int where "EMFILE \<equiv> 24"
abbreviation ENOTTY :: int where "ENOTTY \<equiv> 25"
abbreviation ESPIPE :: int where "ESPIPE \<equiv> 29"
abbreviation ENAMETOOLONG :: int where "ENAMETOOLONG \<equiv> 36"

datatype fs_type = RootFS | DevFS | InitramFS

datatype vnode_ops =
    ROOTFS_DIR_OPS | DEVFS_OPS | DEVFS_DIR_OPS | TTY_OPS
  | INITRAMFS_FILE_OPS | PIPE_READ_OPS | PIPE_WRITE_OPS

text \<open>Which slots of each table are filled.\<close>
fun has_open :: "vnode_ops \<Rightarrow> bool" where
  "has_open ROOTFS_DIR_OPS = True" | "has_open DEVFS_OPS = True" | "has_open DEVFS_DIR_OPS = True"
| "has_open TTY_OPS = True" | "has_open INITRAMFS_FILE_OPS = False"
| "has_open PIPE_READ_OPS = False" | "has_open PIPE_WRITE_OPS = False"

fun has_close :: "vnode_ops \<Rightarrow> bool" where
  "has_close INITRAMFS_FILE_OPS = False" | "has_close _ = True"

fun has_read :: "vnode_ops \<Rightarrow> bool" where
  "has_read DEVFS_OPS = True" | "has_read TTY_OPS = True" | "has_read INITRAMFS_FILE_OPS = True"
| "has_read PIPE_READ_OPS = True" | "has_read _ = False"

fun has_write :: "vnode_ops \<Rightarrow> bool" where
  "has_write DEVFS_OPS = True" | "has_write TTY_OPS = True" | "has_write PIPE_WRITE_OPS = True"
| "has_write _ = False"

fun has_lseek :: "vnode_ops \<Rightarrow> bool" where
  "has_lseek DEVFS_OPS = True" | "has_lseek PIPE_READ_OPS = True" | "has_lseek PIPE_WRITE_OPS = True"
| "has_lseek _ = False"

fun has_readdir :: "vnode_ops \<Rightarrow> bool" where
  "has_readdir ROOTFS_DIR_OPS = True" | "has_readdir DEVFS_DIR_OPS = True" | "has_readdir _ = False"

datatype vdata = Data_Null | Data_Dev u32 | Data_Prefix "u8 list" | Data_Archive nat | Data_Pipe u64

definition data_is_null :: "vdata \<Rightarrow> bool" where
  "data_is_null d \<longleftrightarrow> d = Data_Null \<or> d = Data_Dev 0"

datatype vref =
    ROOT_DIR | SBIN_DIR | BIN_DIR | ETC_DIR | DEV_DIR
  | DEVFS_ROOT | DEV_NULL_VNODE | DEV_ZERO_VNODE | DEV_TTYS0_VNODE
  | Heap_Vnode u64

record vnode =
  vn_ops :: vnode_ops
  vn_mode :: u16
  vn_ino :: u64
  vn_size :: u64
  vn_fs_type :: fs_type
  vn_data :: vdata
  vn_mount :: "vref option"

record open_file =
  of_vnode :: vref
  of_offset :: u64
  of_flags :: u32
  of_mode :: u32
  of_refcount :: u32

record dirent =
  d_ino :: u64
  d_off :: u64
  d_reclen :: u16
  d_type :: u8
  d_name :: "u8 list"

text \<open>\<open>size_of::<Dirent>()\<close>: 275 bytes of fields, rounded up to the alignment of 8.\<close>
definition DIRENT_SIZE :: nat where "DIRENT_SIZE = 280"

definition dirent_bytes :: "dirent \<Rightarrow> u8 list" where
  "dirent_bytes d = le_bytes 8 (d_ino d) @ le_bytes 8 (d_off d) @ le_bytes 2 (d_reclen d)
     @ [d_type d] @ d_name d @ replicate 5 0"

text \<open>The bytes of the \<open>Stat\<close> structure that \<open>stat_from_vnode\<close> fills, in field order.\<close>
definition stat_bytes :: "vnode \<Rightarrow> u8 list" where
  "stat_bytes vn =
     le_bytes 8 (0 :: u64) @ le_bytes 8 (vn_ino vn) @ le_bytes 8 (1 :: u64)
     @ le_bytes 4 (ucast (vn_mode vn) :: u32) @ le_bytes 4 (0 :: u32) @ le_bytes 4 (0 :: u32)
     @ le_bytes 4 (0 :: u32)
     @ le_bytes 8 (if vn_mode vn AND V_CHR \<noteq> 0 then 0x0101 else 0 :: u64)
     @ le_bytes 8 (vn_size vn) @ le_bytes 8 (512 :: u64) @ le_bytes 8 ((vn_size vn + 511) div 512)
     @ concat (replicate 9 (le_bytes 8 (0 :: u64)))"

text \<open>The name copy loops of the readdir operations: NUL-terminated, padded to 256.\<close>
definition pad_name :: "u8 list \<Rightarrow> u8 list" where
  "pad_name s = s @ replicate (256 - length s) 0"

definition fd_table_new :: "int list" where
  "fd_table_new = replicate MAX_FDS (- 1)"

lemma length_stat_bytes: "length (stat_bytes vn) = 144"
  by (simp add: stat_bytes_def numeral_eq_Suc)

lemma length_dirent_bytes: "length (d_name d) = 256 \<Longrightarrow> length (dirent_bytes d) = DIRENT_SIZE"
  by (simp add: dirent_bytes_def DIRENT_SIZE_def)

end
