(* ===== verification/Chardev.thy ===== *)
theory Chardev imports Vfs_Types begin

text \<open>The character device registry (\<open>vfs/chardev.rs\<close>): eight slots, a name of at most
  31 bytes and a device number in each.\<close>

definition MAX_CHARDEVS :: nat where "MAX_CHARDEVS = 8"

record chardev =
  cd_name :: "u8 list"
  cd_name_len :: nat
  cd_dev_id :: u32

record chardev_table =
  cd_table :: "chardev list"
  cd_count :: nat

definition chardev_table_new :: chardev_table where
  "chardev_table_new = \<lparr>cd_table = replicate MAX_CHARDEVS
     \<lparr>cd_name = replicate 32 0, cd_name_len = 0, cd_dev_id = 0\<rparr>, cd_count = 0\<rparr>"

definition register_chardev :: "u8 list \<Rightarrow> u32 \<Rightarrow> chardev_table \<Rightarrow> int \<times> chardev_table" where
  "register_chardev name dev t =
     (let count = cd_count t in
      if count \<ge> MAX_CHARDEVS then (- ENFILE, t)
      else let entry = cd_table t ! count;
               copy_len = min (length name) 31;
               nm = take copy_len name @ [0] @ drop (copy_len + 1) (cd_name entry)
           in (0, \<lparr>cd_table = (cd_table t)[count := \<lparr>cd_name = nm, cd_name_len = copy_len, cd_dev_id = dev\<rparr>],
                   cd_count = count + 1\<rparr>))"

definition entry_name :: "chardev \<Rightarrow> u8 list" where
  "entry_name e = take (cd_name_len e) (cd_name e)"

definition chardev_find :: "u8 list \<Rightarrow> chardev_table \<Rightarrow> u32 option" where
  "chardev_find name t =
     map_option (\<lambda>i. cd_dev_id (cd_table t ! i))
       (find (\<lambda>i. entry_name (cd_table t ! i) = name) [0..<cd_count t])"

definition chardev_inv :: "chardev_table \<Rightarrow> bool" where
  "chardev_inv t \<longleftrightarrow> length (cd_table t) = MAX_CHARDEVS \<and> cd_count t \<le> MAX_CHARDEVS \<and>
     (\<forall>e \<in> set (cd_table t). length (cd_name e) = 32)"

lemma chardev_inv_new: "chardev_inv chardev_table_new"
  by (simp add: chardev_inv_def chardev_table_new_def)

lemma register_chardev_inv [wf_intros]:
  "chardev_inv t \<Longrightarrow> chardev_inv (snd (register_chardev name dev t))"
  using set_update_subset_insert
  by (fastforce simp: chardev_inv_def register_chardev_def Let_def)

text \<open>A registration is found under its name, unless an earlier one has that name, and
  no other name is affected.\<close>

lemma chardev_find_register:
  assumes inv: "chardev_inv t" and room: "cd_count t < MAX_CHARDEVS" and len: "length name \<le> 31"
  shows "chardev_find n (snd (register_chardev name dev t)) =
     (case chardev_find n t of Some d \<Rightarrow> Some d | None \<Rightarrow> if n = name then Some dev else None)"
proof -
  let ?t = "snd (register_chardev name dev t)" and ?c = "cd_count t"
  have t: "cd_count ?t = Suc ?c" "\<And>i. i < ?c \<Longrightarrow> cd_table ?t ! i = cd_table t ! i"
    "entry_name (cd_table ?t ! ?c) = name" "cd_dev_id (cd_table ?t ! ?c) = dev"
    using room len inv by (auto simp: register_chardev_def Let_def entry_name_def chardev_inv_def)
  have eq: "find (\<lambda>i. entry_name (cd_table ?t ! i) = n) [0..<?c] = find (\<lambda>i. entry_name (cd_table t ! i) = n) [0..<?c]"
    by (rule find_cong) (auto simp: t)
  show ?thesis
  proof (cases "find (\<lambda>i. entry_name (cd_table t ! i) = n) [0..<?c]")
    case None
    then show ?thesis using t eq by (simp add: chardev_find_def find_append_case)
  next
    case (Some i)
    then have "i < ?c" unfolding find_upt_Some_iff by simp
    then show ?thesis using Some t eq by (simp add: chardev_find_def find_append_case)
  qed
qed

end
