(* ===== verification/Mount.thy ===== *)
theory Mount imports Vfs_Types begin

text \<open>The mount table (\<open>vfs/mount.rs\<close>): four entries, filled in order.\<close>

record mount_entry =
  m_path :: "u8 list"
  m_root :: "vref option"
  m_fs_type :: fs_type
  m_flags :: u32

record mount_table =
  m_entries :: "mount_entry option list"
  m_count :: nat

definition mount_table_new :: mount_table where
  "mount_table_new = \<lparr>m_entries = replicate MAX_MOUNTS None, m_count = 0\<rparr>"

definition mount_add :: "u8 list \<Rightarrow> vref \<Rightarrow> fs_type \<Rightarrow> u32 \<Rightarrow> mount_table \<Rightarrow> int \<times> mount_table" where
  "mount_add path root fs flags t =
     (if m_count t \<ge> MAX_MOUNTS then (- ENOMEM, t)
      else (0, \<lparr>m_entries = (m_entries t)[m_count t :=
                  Some \<lparr>m_path = path, m_root = Some root, m_fs_type = fs, m_flags = flags\<rparr>],
                m_count = m_count t + 1\<rparr>))"

text \<open>Entry paths may carry a terminating NUL, which the comparison leaves out.\<close>
definition mount_path :: "mount_entry \<Rightarrow> u8 list" where
  "mount_path e = (if m_path e \<noteq> [] \<and> last (m_path e) = 0 then butlast (m_path e) else m_path e)"

fun find_mount :: "u8 list \<Rightarrow> mount_entry option list \<Rightarrow> vref option" where
  "find_mount path [] = None"
| "find_mount path (None # es) = find_mount path es"
| "find_mount path (Some e # es) =
     (if path = mount_path e
      then (case m_root e of Some vn \<Rightarrow> Some vn | None \<Rightarrow> find_mount path es)
      else find_mount path es)"

definition mount_find :: "u8 list \<Rightarrow> mount_table \<Rightarrow> vref option" where
  "mount_find path t = find_mount path (take MAX_MOUNTS (m_entries t))"

definition mount_get_root :: "mount_table \<Rightarrow> vref option" where
  "mount_get_root t =
     (if m_count t = 0 then None
      else case m_entries t ! 0 of Some e \<Rightarrow> m_root e | None \<Rightarrow> None)"

end
