(* ===== verification/Open_File.thy ===== *)
theory Open_File imports Vfs_Types begin

text \<open>The open file table (\<open>vfs/open_file.rs\<close>): 64 reference-counted slots.  The close
  operation that \<open>oft_decref\<close> calls when a count reaches zero belongs to the vnode;
  \<open>oft_drop\<close> is the table's part of \<open>oft_decref\<close> and says whether to call it.\<close>

type_synonym oft = "open_file option list"

definition oft_new :: oft where
  "oft_new = replicate OFT_SIZE None"

definition oft_alloc :: "vref \<Rightarrow> u32 \<Rightarrow> u32 \<Rightarrow> oft \<Rightarrow> (int + nat) \<times> oft" where
  "oft_alloc vn flags mode t =
     (case find (\<lambda>i. t ! i = None) [0..<OFT_SIZE] of
        Some i \<Rightarrow> (Inr i, t[i := Some \<lparr>of_vnode = vn, of_offset = 0, of_flags = flags,
                                       of_mode = mode, of_refcount = 1\<rparr>])
      | None \<Rightarrow> (Inl ENFILE, t))"

text \<open>The count after one reference is dropped (it never goes below zero).\<close>
definition dropped :: "open_file \<Rightarrow> open_file" where
  "dropped f = f\<lparr>of_refcount := if of_refcount f > 0 then of_refcount f - 1 else of_refcount f\<rparr>"

definition oft_drop :: "nat \<Rightarrow> oft \<Rightarrow> vref option \<times> oft" where
  "oft_drop i t =
     (if i \<ge> OFT_SIZE then (None, t)
      else case t ! i of
             None \<Rightarrow> (None, t)
           | Some f \<Rightarrow> if of_refcount (dropped f) = 0 then (Some (of_vnode f), t[i := None])
                       else (None, t[i := Some (dropped f)]))"

definition sat_inc :: "u32 \<Rightarrow> u32" where
  "sat_inc c = (if c = - 1 then - 1 else c + 1)"

definition oft_incref :: "nat \<Rightarrow> oft \<Rightarrow> oft" where
  "oft_incref i t =
     (if i < OFT_SIZE
      then (case t ! i of Some f \<Rightarrow> t[i := Some (f\<lparr>of_refcount := sat_inc (of_refcount f)\<rparr>)] | None \<Rightarrow> t)
      else t)"

definition oft_get :: "nat \<Rightarrow> oft \<Rightarrow> open_file option" where
  "oft_get i t = (if i \<ge> OFT_SIZE then None else t ! i)"

definition oft_set_offset :: "nat \<Rightarrow> u64 \<Rightarrow> oft \<Rightarrow> oft" where
  "oft_set_offset i off t = t[i := map_option (of_offset_update (\<lambda>_. off)) (t ! i)]"

text \<open>The table counts references: slot \<open>i\<close> holds a file with count \<open>n\<close> exactly when
  \<open>refs i = n > 0\<close>.\<close>

definition oft_count :: "oft \<Rightarrow> nat \<Rightarrow> nat" where
  "oft_count t i = (if i < OFT_SIZE then case t ! i of Some f \<Rightarrow> unat (of_refcount f) | None \<Rightarrow> 0 else 0)"

definition oft_inv :: "oft \<Rightarrow> bool" where
  "oft_inv t \<longleftrightarrow> length t = OFT_SIZE \<and> (\<forall>f. Some f \<in> set t \<longrightarrow> of_refcount f > 0)"

text \<open>The contract of a reference-counted table, as the descriptor code uses it.\<close>

locale refcounted =
  fixes acquire :: "'s \<Rightarrow> (nat \<times> 's) option"
    and incr :: "nat \<Rightarrow> 's \<Rightarrow> 's"
    and drop_ref :: "nat \<Rightarrow> 's \<Rightarrow> 's"
    and cnt :: "'s \<Rightarrow> nat \<Rightarrow> nat"
    and inv :: "'s \<Rightarrow> bool"
    and lim :: nat
  assumes acquire_cnt: "inv s \<Longrightarrow> acquire s = Some (i, s') \<Longrightarrow> cnt s i = 0 \<and> cnt s' = (cnt s)(i := 1) \<and> inv s'"
    and incr_cnt: "inv s \<Longrightarrow> 0 < cnt s i \<Longrightarrow> cnt s i < lim \<Longrightarrow>
          cnt (incr i s) = (cnt s)(i := cnt s i + 1) \<and> inv (incr i s)"
    and drop_cnt: "inv s \<Longrightarrow> 0 < cnt s i \<Longrightarrow> cnt (drop_ref i s) = (cnt s)(i := cnt s i - 1) \<and> inv (drop_ref i s)"
begin

lemma incr_drop:
  assumes "inv s" "0 < cnt s i" "cnt s i < lim"
  shows "cnt (drop_ref i (incr i s)) = cnt s"
  using incr_cnt [OF assms] drop_cnt [of "incr i s" i] by simp

lemma acquire_drop:
  assumes "inv s" "acquire s = Some (i, s')"
  shows "cnt (drop_ref i s') = cnt s"
  using acquire_cnt [OF assms] drop_cnt [of s' i] by auto

text \<open>Taking one more reference for each entry of a list (fork does this for every
  descriptor of the parent).\<close>

lemma incr_list:
  assumes "inv s" "\<forall>i \<in> set is. 0 < cnt s i" "\<forall>i. cnt s i + length is \<le> lim"
  shows "cnt (fold incr is s) = (\<lambda>i. cnt s i + count_list is i) \<and> inv (fold incr is s)"
  using assms
proof (induction "is" arbitrary: s)
  case (Cons i "is")
  have c: "cnt s i < lim" using Cons.prems(3) [rule_format, of i] by simp
  have s: "cnt (incr i s) = (cnt s)(i := cnt s i + 1)" "inv (incr i s)"
    using incr_cnt [of s i] Cons.prems(1,2) c by auto
  have "\<forall>j. cnt (incr i s) j + length is \<le> lim" "\<forall>j \<in> set is. 0 < cnt (incr i s) j"
    using Cons.prems(2,3) s(1) by (auto simp: less_Suc_eq_le) (meson Suc_leD)
  then show ?case using Cons.IH [OF s(2)] s(1) by (auto simp: fun_eq_iff)
qed simp

end

lemma oft_alloc_cnt:
  assumes "oft_inv t" "oft_alloc vn fl md t = (Inr i, t')"
  shows "i < OFT_SIZE \<and> t ! i = None \<and> oft_count t' = (oft_count t)(i := 1) \<and> oft_inv t'"
proof -
  have i: "i < OFT_SIZE" "t ! i = None" "t' = t[i := Some \<lparr>of_vnode = vn, of_offset = 0, of_flags = fl,
      of_mode = md, of_refcount = 1\<rparr>]"
    using assms(2) by (auto simp: oft_alloc_def find_upt_Some_iff split: option.splits)
  have "oft_inv t'"
    using assms(1) i set_update_subset_insert [of t i] by (fastforce simp: oft_inv_def)
  then show ?thesis
    using assms(1) i by (auto simp: oft_count_def oft_inv_def fun_eq_iff nth_list_update)
qed

lemma oft_alloc_full: "oft_alloc vn fl md t = (Inl e, t') \<Longrightarrow> e = ENFILE \<and> t' = t \<and> (\<forall>i<OFT_SIZE. t ! i \<noteq> None)"
  by (auto simp: oft_alloc_def find_upt_None_iff split: option.splits)

lemma oft_count_pos:
  "0 < oft_count t i \<Longrightarrow> i < OFT_SIZE \<and> (\<exists>f. t ! i = Some f \<and> oft_count t i = unat (of_refcount f))"
  by (auto simp: oft_count_def split: if_splits option.splits)

lemma oft_inv_update:
  "oft_inv t \<Longrightarrow> (\<And>f. v = Some f \<Longrightarrow> of_refcount f > 0) \<Longrightarrow> oft_inv (t[i := v])"
  using set_update_subset_insert [of t i v] by (auto simp: oft_inv_def)

lemma oft_count_update:
  "oft_inv t \<Longrightarrow> i < OFT_SIZE \<Longrightarrow>
   oft_count (t[i := v]) = (oft_count t)(i := case v of Some f \<Rightarrow> unat (of_refcount f) | None \<Rightarrow> 0)"
  by (auto simp: oft_count_def oft_inv_def fun_eq_iff nth_list_update)

lemma oft_incref_cnt:
  assumes inv: "oft_inv t" and pos: "0 < oft_count t i" and lim: "oft_count t i < 2 ^ 32 - 1"
  shows "oft_count (oft_incref i t) = (oft_count t)(i := oft_count t i + 1) \<and> oft_inv (oft_incref i t)"
proof -
  obtain f where i: "i < OFT_SIZE" and f: "t ! i = Some f" "oft_count t i = unat (of_refcount f)"
    using oft_count_pos [OF pos] by blast
  have ne: "of_refcount f \<noteq> - 1"
  proof
    assume "of_refcount f = - 1"
    then show False using lim f(2) by (simp add: unsigned_minus_1_eq_mask mask_eq_exp_minus_1)
  qed
  have u: "unat (sat_inc (of_refcount f)) = unat (of_refcount f) + 1"
    using ne lim f(2) by (simp add: sat_inc_def unat_word_ariths)
  have e: "oft_incref i t = t[i := Some (f\<lparr>of_refcount := sat_inc (of_refcount f)\<rparr>)]"
    using i f by (simp add: oft_incref_def)
  have "of_refcount (f\<lparr>of_refcount := sat_inc (of_refcount f)\<rparr>) > 0"
    using u by (simp add: word_less_nat_alt)
  then show ?thesis
    unfolding e using oft_count_update [OF inv i] u f(2) by (auto intro: oft_inv_update [OF inv])
qed

lemma oft_drop_cnt:
  assumes inv: "oft_inv t" and pos: "0 < oft_count t i"
  shows "oft_count (snd (oft_drop i t)) = (oft_count t)(i := oft_count t i - 1) \<and> oft_inv (snd (oft_drop i t))"
proof -
  obtain f where i: "i < OFT_SIZE" and f: "t ! i = Some f" "oft_count t i = unat (of_refcount f)"
    using oft_count_pos [OF pos] by blast
  have gt: "of_refcount f > 0" using pos f(2) by (simp add: word_less_nat_alt)
  then have d: "unat (of_refcount (dropped f)) = unat (of_refcount f) - 1"
    by (simp add: dropped_def unat_sub word_le_nat_alt word_less_nat_alt)
  show ?thesis
  proof (cases "of_refcount (dropped f) = 0")
    case True
    then have "snd (oft_drop i t) = t[i := None]" using i f by (simp add: oft_drop_def)
    then show ?thesis
      using oft_inv_update [OF inv, of None i] oft_count_update [OF inv i, of None] d f(2) True by simp
  next
    case False
    then have "snd (oft_drop i t) = t[i := Some (dropped f)]" using i f by (simp add: oft_drop_def)
    then show ?thesis
      using oft_inv_update [OF inv, of "Some (dropped f)" i] oft_count_update [OF inv i, of "Some (dropped f)"]
        d f(2) False by (simp add: word_gt_0)
  qed
qed

definition oft_acquire :: "vref \<Rightarrow> u32 \<Rightarrow> u32 \<Rightarrow> oft \<Rightarrow> (nat \<times> oft) option" where
  "oft_acquire vn fl md t = (case oft_alloc vn fl md t of (Inr i, t') \<Rightarrow> Some (i, t') | _ \<Rightarrow> None)"

interpretation oftab: refcounted "oft_acquire vn fl md" oft_incref "\<lambda>i t. snd (oft_drop i t)" oft_count oft_inv "2 ^ 32 - 1"
  for vn fl md
proof (unfold_locales, goal_cases)
  case (1 s i s')
  then have "oft_alloc vn fl md s = (Inr i, s')" by (auto simp: oft_acquire_def split: prod.splits sum.splits)
  note a = oft_alloc_cnt [OF 1(1) this]
  then have "oft_count s i = 0" by (simp add: oft_count_def)
  then show ?case using a by simp
next
  case (2 s i)
  then show ?case by (rule oft_incref_cnt)
next
  case (3 s i)
  then show ?case by (rule oft_drop_cnt)
qed

end
