(* ===== verification/Ustar.thy ===== *)
theory Ustar imports Vfs_Types begin

text \<open>The ustar parser of \<open>vfs/initramfs.rs\<close>: header fields, the two passes over the
  embedded archive, lookup by name and reading of file data.  The archive is a
  byte list; the pointers into it that the code keeps are offsets.  Sizes have at
  most 12 octal digits, so offsets never wrap and are naturals.\<close>

definition USTAR_BLOCK_SIZE :: nat where "USTAR_BLOCK_SIZE = 512"
definition MAX_INITRAMFS_ENTRIES :: nat where "MAX_INITRAMFS_ENTRIES = 128"
definition USTAR_MAGIC :: "u8 list" where "USTAR_MAGIC = bytes ''ustar'' @ [0]"

record initramfs_entry =
  ie_name :: nat
  ie_data :: nat
  ie_size :: u64
  ie_type :: u8

fun parse_octal_from :: "u64 \<Rightarrow> u8 list \<Rightarrow> u64" where
  "parse_octal_from val [] = val"
| "parse_octal_from val (b # bs) =
     (if 0x30 \<le> b \<and> b \<le> 0x37 then parse_octal_from (val * 8 + ucast (b - 0x30)) bs
      else if b = 0 \<or> b = 0x20 then val
      else parse_octal_from val bs)"

definition parse_octal :: "u8 list \<Rightarrow> u64" where
  "parse_octal bs = parse_octal_from 0 bs"

definition block_at :: "u8 list \<Rightarrow> nat \<Rightarrow> u8 list" where
  "block_at arc off = take 512 (drop off arc)"

definition is_valid_header :: "u8 list \<Rightarrow> bool" where
  "is_valid_header block \<longleftrightarrow> take 6 (drop 257 block) = USTAR_MAGIC"

definition is_zero_block :: "u8 list \<Rightarrow> bool" where
  "is_zero_block block \<longleftrightarrow> list_all (\<lambda>b. b = 0) block"

definition header_name :: "u8 list \<Rightarrow> u8 list" where
  "header_name block = takeWhile (\<lambda>b. b \<noteq> 0) (take 100 block)"

definition header_size :: "u8 list \<Rightarrow> u64" where
  "header_size block = parse_octal (take 12 (drop 124 block))"

definition header_typeflag :: "u8 list \<Rightarrow> u8" where
  "header_typeflag block = block ! 156"

text \<open>The offset of the header after the one at \<open>off\<close>.\<close>
definition next_header :: "nat \<Rightarrow> u64 \<Rightarrow> nat" where
  "next_header off sz =
     (if sz > 0 then off + 512 + unat ((sz + 511) div 512 * 512) else off + 512)"

function count_entries :: "u8 list \<Rightarrow> nat \<Rightarrow> nat \<Rightarrow> nat" where
  "count_entries arc off count =
     (if off + 512 \<le> length arc then
        (let block = block_at arc off in
         if is_zero_block block then count
         else if \<not> is_valid_header block then count_entries arc (off + 512) count
         else if count + 1 \<ge> MAX_INITRAMFS_ENTRIES then count + 1
         else count_entries arc (next_header off (header_size block)) (count + 1))
      else count)"
  by pat_completeness auto

termination
  by (relation "measure (\<lambda>(arc, off, _). length arc - off)") (auto simp: next_header_def)

function fill_entries :: "u8 list \<Rightarrow> nat \<Rightarrow> nat \<Rightarrow> nat \<Rightarrow> initramfs_entry list" where
  "fill_entries arc off idx count =
     (if off + 512 \<le> length arc \<and> idx < count then
        (let block = block_at arc off in
         if is_zero_block block then []
         else if \<not> is_valid_header block then fill_entries arc (off + 512) idx count
         else \<lparr>ie_name = off, ie_data = off + 512, ie_size = header_size block,
               ie_type = header_typeflag block\<rparr>
              # fill_entries arc (next_header off (header_size block)) (idx + 1) count)
      else [])"
  by pat_completeness auto

termination
  by (relation "measure (\<lambda>(arc, off, _, _). length arc - off)") (auto simp: next_header_def)

declare count_entries.simps [simp del] fill_entries.simps [simp del]

text \<open>The comparison loop of \<open>initramfs_find\<close> against the name at an entry.\<close>
definition name_matches :: "u8 list \<Rightarrow> nat \<Rightarrow> u8 list \<Rightarrow> bool" where
  "name_matches arc nm path \<longleftrightarrow>
     (\<forall>j \<in> set [0..<length path]. arc ! (nm + j) \<noteq> 0 \<and> arc ! (nm + j) = path ! j) \<and>
     arc ! (nm + length path) = 0"

definition entry_find :: "u8 list \<Rightarrow> initramfs_entry list \<Rightarrow> u8 list \<Rightarrow> (nat \<times> u64 \<times> u8) option" where
  "entry_find arc es path =
     map_option (\<lambda>e. (ie_data e, ie_size e, ie_type e)) (find (\<lambda>e. name_matches arc (ie_name e) path) es)"

text \<open>\<open>initramfs_read\<close>: the bytes copied out and the new offset.\<close>
definition archive_read :: "u8 list \<Rightarrow> nat \<Rightarrow> u64 \<Rightarrow> u64 \<Rightarrow> u64 \<Rightarrow> u8 list \<times> u64" where
  "archive_read arc data sz len offset =
     (let remain = (if sz \<le> offset then 0 else sz - offset);
          copy_len = min len remain
      in if copy_len = 0 then ([], offset)
         else (take (unat copy_len) (drop (data + unat offset) arc), offset + copy_len))"

subsection \<open>Field bounds\<close>

lemma parse_octal_from_bound:
  "unat v < 2 ^ m \<Longrightarrow> m + 3 * length bs \<le> 64 \<Longrightarrow> unat (parse_octal_from v bs) < 2 ^ (m + 3 * length bs)"
proof (induction v bs arbitrary: m rule: parse_octal_from.induct)
  case (2 val b bs)
  show ?case
  proof (cases "0x30 \<le> b \<and> b \<le> 0x37")
    case True
    have "unat (b - 0x30) < 8" using True by (auto simp: unat_sub word_le_nat_alt)
    then have d: "unat (ucast (b - 0x30) :: u64) < 8" by simp
    have le: "(2 :: nat) ^ (m + 3) \<le> 2 ^ 64" using 2(4) by (intro power_increasing) simp_all
    have e: "(2 :: nat) ^ (m + 3) = 8 * 2 ^ m" by (simp add: power_add)
    have "unat (val * 8 + ucast (b - 0x30)) = unat val * 8 + unat (ucast (b - 0x30) :: u64)"
      using d le 2(3) e unat_mult64 [of val 8] unat_add64 [of "val * 8" "ucast (b - 0x30)"] by simp
    then have "unat (val * 8 + ucast (b - 0x30)) < 2 ^ (m + 3)" using 2(3) d e by simp
    then show ?thesis using 2(1) [OF True, of "m + 3"] 2(4) True by (simp add: algebra_simps)
  next
    case False
    have le: "(2 :: nat) ^ (m + 3 * length bs) \<le> 2 ^ (m + 3 * length (b # bs))"
      "(2 :: nat) ^ m \<le> 2 ^ (m + 3 * length (b # bs))"
      by (intro power_increasing; simp)+
    show ?thesis
    proof (cases "b = 0 \<or> b = 0x20")
      case True
      then have "parse_octal_from val (b # bs) = val" using False by auto
      then show ?thesis using less_le_trans [OF 2(3) le(2)] by simp
    next
      case nsp: False
      have "m + 3 * length bs \<le> 64" using 2(4) by simp
      then have "unat (parse_octal_from val bs) < 2 ^ (m + 3 * length bs)"
        by (rule 2(2) [OF False nsp 2(3)])
      moreover have "parse_octal_from val (b # bs) = parse_octal_from val bs" using False nsp by auto
      ultimately show ?thesis using le(1) by (metis less_le_trans)
    qed
  qed
qed simp

lemma header_size_bound: "unat (header_size block) < 2 ^ 36"
proof -
  let ?bs = "take 12 (drop 124 block)"
  have "unat (parse_octal_from 0 ?bs) < 2 ^ (0 + 3 * length ?bs)"
    by (rule parse_octal_from_bound) auto
  also have "(2 :: nat) ^ (0 + 3 * length ?bs) \<le> 2 ^ 36"
    by (rule power_increasing) auto
  finally show ?thesis by (simp add: header_size_def parse_octal_def)
qed

text \<open>So the rounding of the size to blocks does not wrap.\<close>

lemma next_header_nat:
  "next_header off (header_size block) = off + 512 + (unat (header_size block) + 511) div 512 * 512"
proof -
  let ?s = "header_size block"
  have b: "unat ?s < 2 ^ 36" by (rule header_size_bound)
  have a: "unat (?s + 511) = unat ?s + 511" using b by (subst unat_add64) simp_all
  have "(unat ?s + 511) div 512 * 512 \<le> unat ?s + 511" by simp
  then have "unat ((?s + 511) div 512 * 512) = (unat ?s + 511) div 512 * 512"
    using a b by (subst unat_mult64) (simp_all add: unat_div)
  then show ?thesis by (cases "?s = 0") (simp_all add: next_header_def word_gt_0)
qed

subsection \<open>The two passes\<close>

text \<open>All entries of an archive, without the limit of 128.\<close>

function ustar_entries :: "u8 list \<Rightarrow> nat \<Rightarrow> initramfs_entry list" where
  "ustar_entries arc off =
     (if off + 512 \<le> length arc then
        (let block = block_at arc off in
         if is_zero_block block then []
         else if \<not> is_valid_header block then ustar_entries arc (off + 512)
         else \<lparr>ie_name = off, ie_data = off + 512, ie_size = header_size block,
               ie_type = header_typeflag block\<rparr>
              # ustar_entries arc (next_header off (header_size block)))
      else [])"
  by pat_completeness auto

termination
  by (relation "measure (\<lambda>(arc, off). length arc - off)") (auto simp: next_header_def)

declare ustar_entries.simps [simp del]

lemma count_entries_eq:
  "c < MAX_INITRAMFS_ENTRIES \<Longrightarrow>
   count_entries arc off c = min MAX_INITRAMFS_ENTRIES (c + length (ustar_entries arc off))"
proof (induction arc off c rule: count_entries.induct)
  case (1 arc off c)
  then show ?case
    by (subst count_entries.simps, subst ustar_entries.simps) (auto simp: Let_def)
qed

lemma fill_entries_eq: "fill_entries arc off idx n = take (n - idx) (ustar_entries arc off)"
proof (induction arc off idx n rule: fill_entries.induct)
  case (1 arc off idx n)
  show ?case
  proof (cases "off + 512 \<le> length arc \<and> idx < n")
    case True
    then have "n - idx = Suc (n - (idx + 1))" by (simp add: Suc_diff_Suc)
    then show ?thesis
      using True 1 by (subst fill_entries.simps, subst ustar_entries.simps) (auto simp: Let_def)
  next
    case False
    then show ?thesis
      by (subst fill_entries.simps, subst ustar_entries.simps) auto
  qed
qed

lemma passes_agree:
  "fill_entries arc 0 0 (count_entries arc 0 0) = take MAX_INITRAMFS_ENTRIES (ustar_entries arc 0)"
  by (simp add: fill_entries_eq count_entries_eq MAX_INITRAMFS_ENTRIES_def min_def)

subsection \<open>Archives of files\<close>

text \<open>A ustar writer, as the specification of what the parser reads: a header block
  with the name, eleven octal digits of size, the type flag and the magic, then the
  data padded to whole blocks.\<close>

primrec octal_digits :: "nat \<Rightarrow> nat \<Rightarrow> u8 list" where
  "octal_digits 0 v = []"
| "octal_digits (Suc n) v = octal_digits n (v div 8) @ [of_nat (0x30 + v mod 8)]"

record ufile =
  uf_name :: "u8 list"
  uf_data :: "u8 list"
  uf_type :: u8

definition ustar_header :: "ufile \<Rightarrow> u8 list" where
  "ustar_header f = (uf_name f @ replicate (100 - length (uf_name f)) 0) @ replicate 24 0
     @ (octal_digits 11 (length (uf_data f)) @ [0]) @ replicate 20 0 @ [uf_type f]
     @ replicate 100 0 @ USTAR_MAGIC @ replicate 249 0"

definition ustar_file :: "ufile \<Rightarrow> u8 list" where
  "ustar_file f = ustar_header f @ uf_data f @ replicate ((512 - length (uf_data f) mod 512) mod 512) 0"

definition ustar_archive :: "ufile list \<Rightarrow> u8 list" where
  "ustar_archive fs = concat (map ustar_file fs) @ replicate 1024 0"

definition ufile_ok :: "ufile \<Rightarrow> bool" where
  "ufile_ok f \<longleftrightarrow> length (uf_name f) < 100 \<and> 0 \<notin> set (uf_name f) \<and> length (uf_data f) < 8 ^ 11"

lemma length_octal_digits [simp]: "length (octal_digits n v) = n"
  by (induction n arbitrary: v) simp_all

lemma length_USTAR_MAGIC [simp]: "length USTAR_MAGIC = 6"
  by (simp add: USTAR_MAGIC_def bytes_def)

lemma length_ustar_header [simp]: "length (uf_name f) \<le> 100 \<Longrightarrow> length (ustar_header f) = 512"
  by (simp add: ustar_header_def)

lemma parse_octal_digit:
  assumes "d < 8"
  shows "parse_octal_from v (of_nat (0x30 + d) # bs) = parse_octal_from (v * 8 + of_nat d) bs"
proof -
  have u: "unat (of_nat (0x30 + d) :: u8) = 0x30 + d"
    using assms by (simp add: unat_of_nat take_bit_nat_eq_self del: of_nat_add)
  have "unat (of_nat (0x30 + d) - 0x30 :: u8) = d"
    using u by (subst unat_sub) (simp_all add: word_le_nat_alt del: of_nat_add)
  then have "(ucast (of_nat (0x30 + d) - 0x30 :: u8) :: u64) = of_nat d"
    using assms by (simp add: word_unat_eq_iff del: of_nat_add)
  moreover have "0x30 \<le> (of_nat (0x30 + d) :: u8) \<and> (of_nat (0x30 + d) :: u8) \<le> 0x37"
    using u assms by (simp add: word_le_nat_alt del: of_nat_add)
  ultimately show ?thesis by (simp del: of_nat_add)
qed

lemma parse_octal_append_digits:
  "parse_octal_from v (octal_digits n x @ bs) = parse_octal_from (v * 8 ^ n + of_nat (x mod 8 ^ n)) bs"
proof (induction n arbitrary: x bs)
  case (Suc n)
  have "x mod 8 ^ Suc n = (x div 8) mod 8 ^ n * 8 + x mod 8"
    using mod_mult2_eq [of x 8 "8 ^ n"] by (simp add: mult.commute)
  then have "(v * 8 ^ n + of_nat (x div 8 mod 8 ^ n)) * 8 + of_nat (x mod 8)
      = v * 8 ^ Suc n + of_nat (x mod 8 ^ Suc n)"
    by (simp only: of_nat_add of_nat_mult of_nat_numeral) (simp add: algebra_simps)
  then show ?case by (simp only: octal_digits.simps append_assoc Suc append.simps parse_octal_digit pos_mod_bound
      mod_less_divisor zero_less_numeral)
qed simp

lemma take_drop_mid: "length xs = n \<Longrightarrow> length ys = m \<Longrightarrow> take m (drop n (xs @ ys @ zs)) = ys"
  by simp

lemma header_parts:
  assumes "ufile_ok f"
  shows "take 100 (ustar_header f) = uf_name f @ replicate (100 - length (uf_name f)) 0"
    and "take 12 (drop 124 (ustar_header f)) = octal_digits 11 (length (uf_data f)) @ [0]"
    and "ustar_header f ! 156 = uf_type f"
    and "take 6 (drop 257 (ustar_header f)) = USTAR_MAGIC"
proof -
  let ?nm = "uf_name f @ replicate (100 - length (uf_name f)) 0"
  let ?sz = "octal_digits 11 (length (uf_data f)) @ [0]"
  have l: "length ?nm = 100" using assms by (simp add: ufile_ok_def)
  let ?rest = "replicate 100 0 @ USTAR_MAGIC @ replicate 249 0"
  have h: "ustar_header f = ?nm @ replicate 24 0 @ ?sz @ replicate 20 0 @ [uf_type f] @ ?rest"
    by (simp add: ustar_header_def)
  show "take 100 (ustar_header f) = ?nm" using l by (simp add: h)
  have "ustar_header f = (?nm @ replicate 24 0) @ ?sz @ replicate 20 0 @ [uf_type f] @ ?rest"
    by (simp add: h)
  then show "take 12 (drop 124 (ustar_header f)) = ?sz"
    using l by (simp only:) (rule take_drop_mid, simp_all)
  have "ustar_header f = (?nm @ replicate 24 0 @ ?sz @ replicate 20 0) @ uf_type f # ?rest"
    by (simp add: h)
  moreover have "length (?nm @ replicate 24 0 @ ?sz @ replicate 20 0) = 156" using l by simp
  ultimately show "ustar_header f ! 156 = uf_type f" by (metis nth_append_length)
  have "ustar_header f =
      (?nm @ replicate 24 0 @ ?sz @ replicate 20 0 @ [uf_type f] @ replicate 100 0) @ USTAR_MAGIC @ replicate 249 0"
    by (simp add: h)
  then show "take 6 (drop 257 (ustar_header f)) = USTAR_MAGIC"
    using l by (simp only:) (rule take_drop_mid, simp_all)
qed

lemma header_fields:
  assumes ok: "ufile_ok f"
  shows "header_name (ustar_header f) = uf_name f"
    and "header_size (ustar_header f) = of_nat (length (uf_data f))"
    and "header_typeflag (ustar_header f) = uf_type f"
    and "is_valid_header (ustar_header f)"
    and "\<not> is_zero_block (ustar_header f)"
proof -
  have nz: "0 \<notin> set (uf_name f)" using ok by (simp add: ufile_ok_def)
  have "takeWhile (\<lambda>b. b \<noteq> 0) (uf_name f @ replicate (100 - length (uf_name f)) 0) = uf_name f"
    using nz by (subst takeWhile_append2) (auto simp: takeWhile_replicate)
  then show "header_name (ustar_header f) = uf_name f"
    by (simp add: header_name_def header_parts [OF ok])
  show "header_size (ustar_header f) = of_nat (length (uf_data f))"
    using ok by (simp add: header_size_def header_parts [OF ok] parse_octal_def ufile_ok_def
        parse_octal_append_digits)
  show "header_typeflag (ustar_header f) = uf_type f"
    by (simp add: header_typeflag_def header_parts [OF ok])
  show "is_valid_header (ustar_header f)" by (simp add: is_valid_header_def header_parts [OF ok])
  have "0x75 \<in> set (take 6 (drop 257 (ustar_header f)))"
    by (simp add: header_parts [OF ok] USTAR_MAGIC_def bytes_def)
  then have "0x75 \<in> set (ustar_header f)" by (meson in_set_dropD in_set_takeD)
  then show "\<not> is_zero_block (ustar_header f)"
    unfolding is_zero_block_def list_all_iff by force
qed

text \<open>What the parser should find: one entry per file, in order.\<close>

primrec file_entries :: "nat \<Rightarrow> ufile list \<Rightarrow> initramfs_entry list" where
  "file_entries off [] = []"
| "file_entries off (f # fs) =
     \<lparr>ie_name = off, ie_data = off + 512, ie_size = of_nat (length (uf_data f)), ie_type = uf_type f\<rparr>
     # file_entries (off + length (ustar_file f)) fs"

lemma length_file_entries [simp]: "length (file_entries off fs) = length fs"
  by (induction fs arbitrary: off) simp_all

lemma pad_to_block: "n + (512 - n mod 512) mod 512 = (n + 511) div 512 * (512 :: nat)"
proof (cases "n mod 512 = 0")
  case True
  then obtain q where "n = 512 * q" by (auto simp: mod_eq_0_iff_dvd dvd_def)
  then show ?thesis by simp
next
  case False
  define q r where "q = n div 512" and "r = n mod 512"
  have n: "n = 512 * q + r" and r: "0 < r" "r < 512" using False by (simp_all add: q_def r_def)
  have "(n + 511) div 512 = q + (r + 511) div 512" by (simp add: n)
  also have "(r + 511) div 512 = 1" using r by (simp add: div_nat_eqI)
  finally show ?thesis using r by (simp add: n)
qed

lemma length_ustar_file:
  "ufile_ok f \<Longrightarrow> length (ustar_file f) = 512 + (length (uf_data f) + 511) div 512 * 512"
  by (simp add: ustar_file_def ufile_ok_def pad_to_block)

lemma block_at_ustar_file [simp]:
  "ufile_ok f \<Longrightarrow> block_at (pre @ ustar_file f @ rest) (length pre) = ustar_header f"
  by (simp add: block_at_def ustar_file_def ufile_ok_def)

lemma ustar_entries_archive:
  "list_all ufile_ok fs \<Longrightarrow>
   ustar_entries (pre @ ustar_archive fs) (length pre) = file_entries (length pre) fs"
proof (induction fs arbitrary: pre)
  case Nil
  then show ?case
    by (subst ustar_entries.simps)
      (simp add: ustar_archive_def block_at_def is_zero_block_def list_all_iff)
next
  case (Cons f fs)
  then have ok: "ufile_ok f" by simp
  have arc: "pre @ ustar_archive (f # fs) = pre @ ustar_file f @ ustar_archive fs"
    by (simp add: ustar_archive_def)
  have sz: "unat (of_nat (length (uf_data f)) :: u64) = length (uf_data f)"
    using ok by (simp add: ufile_ok_def)
  let ?next = "length pre + length (ustar_file f)"
  have next_off: "next_header (length pre) (of_nat (length (uf_data f))) = ?next"
    unfolding header_fields(2) [OF ok, symmetric]
    by (subst next_header_nat) (simp add: header_fields [OF ok] length_ustar_file [OF ok] sz)
  have IH: "ustar_entries (pre @ ustar_file f @ ustar_archive fs) ?next = file_entries ?next fs"
    using Cons.IH [of "pre @ ustar_file f"] Cons.prems by simp
  have le: "length pre + 512 \<le> length (pre @ ustar_file f @ ustar_archive fs)"
    by (simp add: length_ustar_file [OF ok])
  show ?case
    unfolding arc
    by (subst ustar_entries.simps)
      (simp only: le if_True Let_def block_at_ustar_file [OF ok] header_fields [OF ok] next_off IH
        file_entries.simps if_False not_True_eq_False simp_thms)
qed

subsection \<open>Lookup and reading\<close>

lemma header_name_nth:
  assumes ok: "ufile_ok f" and j: "j < 100"
  shows "(pre @ ustar_file f @ rest) ! (length pre + j) = (if j < length (uf_name f) then uf_name f ! j else 0)"
proof -
  let ?nm = "uf_name f @ replicate (100 - length (uf_name f)) 0"
  have l: "length ?nm = 100" using ok by (simp add: ufile_ok_def)
  have "(pre @ ustar_file f @ rest) ! (length pre + j) = take 100 (ustar_header f) ! j"
    using j ok by (simp add: nth_append ustar_file_def ufile_ok_def)
  also have "\<dots> = ?nm ! j" by (simp add: header_parts [OF ok])
  finally show ?thesis using j l by (simp add: nth_append)
qed

lemma name_matches_iff:
  assumes ok: "ufile_ok f"
  shows "name_matches (pre @ ustar_file f @ rest) (length pre) path \<longleftrightarrow> path = uf_name f"
proof
  let ?arc = "pre @ ustar_file f @ rest"
  let ?n = "length (uf_name f)"
  note nth = header_name_nth [OF ok, of _ pre rest]
  have n: "?n < 100" and nz: "0 \<notin> set (uf_name f)" using ok by (simp_all add: ufile_ok_def)
  assume m: "name_matches ?arc (length pre) path"
  then have eq: "\<And>j. j < length path \<Longrightarrow> ?arc ! (length pre + j) \<noteq> 0 \<and> ?arc ! (length pre + j) = path ! j"
    and stop: "?arc ! (length pre + length path) = 0"
    unfolding name_matches_def by (fastforce, blast)
  have le: "length path \<le> ?n"
  proof (rule ccontr)
    assume "\<not> length path \<le> ?n"
    then show False using eq [of ?n] nth [OF n] by simp
  qed
  moreover have "\<not> length path < ?n"
    using stop nth [of "length path"] n nz by (auto simp: in_set_conv_nth)
  ultimately have len: "length path = ?n" by simp
  show "path = uf_name f"
  proof (rule nth_equalityI [OF len])
    fix i assume "i < length path"
    then show "path ! i = uf_name f ! i" using eq [of i] nth [of i] len n by simp
  qed
next
  note nth = header_name_nth [OF ok, of _ pre rest]
  have n: "length (uf_name f) < 100" and nz: "0 \<notin> set (uf_name f)" using ok by (simp_all add: ufile_ok_def)
  assume "path = uf_name f"
  then show "name_matches (pre @ ustar_file f @ rest) (length pre) path"
    using n nz nth by (auto simp: name_matches_def in_set_conv_nth)
qed

definition found_file :: "u8 list \<Rightarrow> (nat \<times> u64 \<times> u8) option \<Rightarrow> ufile option \<Rightarrow> bool" where
  "found_file arc r fo = (case (r, fo) of
       (None, None) \<Rightarrow> True
     | (Some (d, sz, t), Some f) \<Rightarrow>
         sz = of_nat (length (uf_data f)) \<and> t = uf_type f \<and> take (length (uf_data f)) (drop d arc) = uf_data f
     | _ \<Rightarrow> False)"

lemma entry_find_files:
  "list_all ufile_ok fs \<Longrightarrow>
   found_file (pre @ ustar_archive fs)
     (entry_find (pre @ ustar_archive fs) (file_entries (length pre) fs) path)
     (find (\<lambda>f. uf_name f = path) fs)"
proof (induction fs arbitrary: pre)
  case Nil
  show ?case by (simp add: entry_find_def found_file_def)
next
  case (Cons f fs)
  then have ok: "ufile_ok f" by simp
  have arc: "pre @ ustar_archive (f # fs) = pre @ ustar_file f @ ustar_archive fs"
    by (simp add: ustar_archive_def)
  show ?case
  proof (cases "uf_name f = path")
    case True
    have "take (length (uf_data f)) (drop (length pre + 512) (pre @ ustar_file f @ ustar_archive fs)) = uf_data f"
      using ok by (simp add: ustar_file_def ufile_ok_def)
    then show ?thesis
      using True name_matches_iff [OF ok, of pre "ustar_archive fs" path]
      by (simp add: arc entry_find_def found_file_def)
  next
    case False
    then show ?thesis
      using Cons.IH [of "pre @ ustar_file f"] Cons.prems name_matches_iff [OF ok, of pre "ustar_archive fs" path]
      by (simp add: arc entry_find_def)
  qed
qed

lemma archive_read_data:
  assumes d: "take n (drop d arc) = dat" and n: "length dat = n" "n < 2 ^ 64"
  shows "archive_read arc d (of_nat n) len off
         = (take (unat len) (drop (unat off) dat), off + of_nat (length (take (unat len) (drop (unat off) dat))))"
proof (cases "of_nat n \<le> off")
  case True
  then have "n \<le> unat off" using n by (simp add: word_le_nat_alt)
  then show ?thesis using True n by (simp add: archive_read_def)
next
  case False
  then have lt: "unat off < n" using n by (simp add: word_le_nat_alt)
  have r: "unat (of_nat n - off) = n - unat off" using False n by (subst unat_sub64) auto
  let ?c = "min len (of_nat n - off)"
  have c: "unat ?c = min (unat len) (n - unat off)" by (simp add: min_def word_le_nat_alt r)
  have tk: "take (unat ?c) (drop (d + unat off) arc) = take (unat len) (drop (unat off) dat)"
    by (simp only: d [symmetric] c drop_take take_take drop_drop add.commute [of d])
  have ln: "length (take (unat len) (drop (unat off) dat)) = unat ?c" unfolding c using n by simp
  have "(of_nat (length (take (unat len) (drop (unat off) dat))) :: u64) = ?c" unfolding ln by simp
  moreover have "?c = 0 \<Longrightarrow> take (unat len) (drop (unat off) dat) = []" using ln by auto
  ultimately show ?thesis using False tk by (auto simp: archive_read_def Let_def)
qed

lemma initramfs_parsed:
  assumes "list_all ufile_ok fs" "length fs \<le> MAX_INITRAMFS_ENTRIES"
  shows "fill_entries (ustar_archive fs) 0 0 (count_entries (ustar_archive fs) 0 0) = file_entries 0 fs"
  using ustar_entries_archive [OF assms(1), of "[]"] assms(2) by (simp add: passes_agree)

lemma initramfs_parsed_find:
  assumes "list_all ufile_ok fs" "length fs \<le> MAX_INITRAMFS_ENTRIES"
  shows "found_file (ustar_archive fs)
     (entry_find (ustar_archive fs)
        (fill_entries (ustar_archive fs) 0 0 (count_entries (ustar_archive fs) 0 0)) path)
     (find (\<lambda>f. uf_name f = path) fs)"
  unfolding initramfs_parsed [OF assms] using entry_find_files [OF assms(1), of "[]"] by simp

lemma found_file_Some:
  assumes "found_file arc r (Some f)" "ufile_ok f"
  obtains d where "r = Some (d, of_nat (length (uf_data f)), uf_type f)"
    "\<And>len off. archive_read arc d (of_nat (length (uf_data f))) len off =
       (take (unat len) (drop (unat off) (uf_data f)),
        off + of_nat (length (take (unat len) (drop (unat off) (uf_data f)))))"
proof -
  have n: "length (uf_data f) < 2 ^ 64" using assms(2) by (simp add: ufile_ok_def)
  obtain d where d: "r = Some (d, of_nat (length (uf_data f)), uf_type f)"
    "take (length (uf_data f)) (drop d arc) = uf_data f"
    using assms(1) by (auto simp: found_file_def split: option.splits)
  show thesis using that [OF d(1) archive_read_data [OF d(2) refl n]] .
qed

definition mnt_files :: "ufile list" where
  "mnt_files = [\<lparr>uf_name = bytes ''sbin/init'', uf_data = [0x7f, 0x45, 0x4c, 0x46], uf_type = 0x30\<rparr>,
                \<lparr>uf_name = bytes ''etc/motd'', uf_data = [0x68, 0x69], uf_type = 0x30\<rparr>]"



end
