(* ===== verification/Pipe_Buffer.thy ===== *)
theory Pipe_Buffer imports Ring begin

text \<open>The shared ring buffer of a pipe (\<open>vfs/pipe.rs\<close>, \<open>PipeBuf\<close>) and the transfer loops
  of \<open>pipe_read\<close> and \<open>pipe_write\<close>.  The two positions increase without bound and wrap
  at the machine word; the slot of a position is its remainder by the buffer size.
  The copies to and from user memory are in the file system calls.\<close>

definition PIPE_BUF_SIZE :: u64 where "PIPE_BUF_SIZE = 4096"

record pipe_buf =
  pb_buf :: "u8 list"
  pb_read_off :: u64
  pb_write_off :: u64
  pb_refcount :: u32

text \<open>\<open>ptr::write_bytes(pb, 0, size_of::<PipeBuf>())\<close> and the initial count.\<close>
definition pipe_buf_new :: pipe_buf where
  "pipe_buf_new = \<lparr>pb_buf = replicate 4096 0, pb_read_off = 0, pb_write_off = 0, pb_refcount = 2\<rparr>"

fun pipe_get_loop :: "nat \<Rightarrow> pipe_buf \<Rightarrow> u8 list \<times> pipe_buf" where
  "pipe_get_loop 0 pb = ([], pb)"
| "pipe_get_loop (Suc n) pb =
     (let b = pb_buf pb ! unat (pb_read_off pb mod PIPE_BUF_SIZE);
          (bs, pb') = pipe_get_loop n (pb\<lparr>pb_read_off := pb_read_off pb + 1\<rparr>)
      in (b # bs, pb'))"

definition pipe_avail :: "pipe_buf \<Rightarrow> u64" where
  "pipe_avail pb = pb_write_off pb - pb_read_off pb"

definition pipe_take :: "nat \<Rightarrow> pipe_buf \<Rightarrow> u8 list \<times> pipe_buf" where
  "pipe_take len pb =
     (let avail = pipe_avail pb in
      if avail = 0 then ([], pb) else pipe_get_loop (min len (unat avail)) pb)"

fun pipe_put_loop :: "u8 list \<Rightarrow> pipe_buf \<Rightarrow> pipe_buf" where
  "pipe_put_loop [] pb = pb"
| "pipe_put_loop (b # bs) pb =
     pipe_put_loop bs (pb\<lparr>pb_buf := (pb_buf pb)[unat (pb_write_off pb mod PIPE_BUF_SIZE) := b],
                          pb_write_off := pb_write_off pb + 1\<rparr>)"

definition pipe_space :: "pipe_buf \<Rightarrow> u64" where
  "pipe_space pb = PIPE_BUF_SIZE - 1 - pipe_avail pb"

text \<open>\<open>pipe_write\<close> with the source bytes given: how many are taken, and the new buffer.\<close>
definition pipe_put :: "u8 list \<Rightarrow> pipe_buf \<Rightarrow> nat \<times> pipe_buf" where
  "pipe_put bs pb =
     (let space = pipe_space pb in
      if space = 0 then (0, pb)
      else let n = min (length bs) (unat space) in (n, pipe_put_loop (take n bs) pb))"

subsection \<open>The buffer as a queue\<close>

definition pipe_contents :: "pipe_buf \<Rightarrow> u8 list" where
  "pipe_contents pb =
     map (\<lambda>k. pb_buf pb ! ((unat (pb_read_off pb) + k) mod 4096)) [0..<unat (pipe_avail pb)]"

definition pipe_inv :: "pipe_buf \<Rightarrow> bool" where
  "pipe_inv pb \<longleftrightarrow> length (pb_buf pb) = 4096 \<and> unat (pipe_avail pb) \<le> 4095"

lemma length_pipe_contents [simp]: "length (pipe_contents pb) = unat (pipe_avail pb)"
  by (simp add: pipe_contents_def)

lemma unat_add_mod_4096: "unat (a + b :: u64) mod 4096 = (unat a + unat b) mod 4096"
proof -
  have "unat (a + b) = (unat a + unat b) mod 2 ^ 64" by (simp add: unat_word_ariths)
  moreover have "(4096 :: nat) dvd 2 ^ 64" by simp
  ultimately show ?thesis by (simp add: mod_mod_cancel)
qed

lemma pipe_space_inv: "pipe_inv pb \<Longrightarrow> unat (pipe_space pb) = 4095 - length (pipe_contents pb)"
  unfolding pipe_inv_def pipe_space_def PIPE_BUF_SIZE_def
  by (simp add: unat_sub64 word_le_nat_alt)

lemma pipe_avail_incr:
  "unat (pipe_avail pb) \<le> 4095 \<Longrightarrow> unat (pipe_avail pb + 1) = Suc (unat (pipe_avail pb))"
  by (subst unat_add64) simp_all

lemma add_mod_inj:
  assumes "i < n" "j < n" "i < j"
  shows "(r + i) mod n \<noteq> (r + j) mod (n :: nat)"
proof
  assume "(r + i) mod n = (r + j) mod n"
  then have "n dvd (r + j) - (r + i)" using assms by (metis mod_eq_dvd_iff_nat add_le_cancel_left less_imp_le_nat)
  then show False using assms by (auto dest: dvd_imp_le)
qed

lemma pipe_put_one:
  fixes b :: u8
  assumes inv: "pipe_inv pb" and room: "length (pipe_contents pb) < 4095"
  defines "pb' \<equiv> pb\<lparr>pb_buf := (pb_buf pb)[unat (pb_write_off pb mod PIPE_BUF_SIZE) := b],
                    pb_write_off := pb_write_off pb + 1\<rparr>"
  shows "pipe_inv pb' \<and> pipe_contents pb' = pipe_contents pb @ [b]"
proof -
  let ?d = "unat (pipe_avail pb)" and ?r = "unat (pb_read_off pb)"
  have len: "length (pb_buf pb) = 4096" and d: "?d < 4095" using inv room by (simp_all add: pipe_inv_def)
  have av: "pipe_avail pb' = pipe_avail pb + 1" by (simp add: pb'_def pipe_avail_def)
  have w: "unat (pb_write_off pb mod PIPE_BUF_SIZE) = (?r + ?d) mod 4096"
    using unat_add_mod_4096 [of "pb_read_off pb" "pipe_avail pb"]
    by (simp add: PIPE_BUF_SIZE_def unat_mod pipe_avail_def)
  have ne: "(?r + k) mod 4096 \<noteq> (?r + ?d) mod 4096" if "k < ?d" for k
    using that d by (intro add_mod_inj) simp_all
  have old: "pb_buf pb' ! ((?r + k) mod 4096) = pb_buf pb ! ((?r + k) mod 4096)" if "k < ?d" for k
    using ne [OF that] by (simp add: pb'_def w)
  have new: "pb_buf pb' ! ((?r + ?d) mod 4096) = b" by (simp add: pb'_def w len)
  have "pb_read_off pb' = pb_read_off pb" by (simp add: pb'_def)
  then have "pipe_contents pb' = pipe_contents pb @ [b]"
    using old new d by (simp add: pipe_contents_def av pipe_avail_incr)
  moreover have "pipe_inv pb'"
    using len d by (simp add: pipe_inv_def av pipe_avail_incr) (simp add: pb'_def)
  ultimately show ?thesis by blast
qed

lemma pipe_get_one:
  assumes inv: "pipe_inv pb" and ne: "pipe_contents pb \<noteq> []"
  defines "pb' \<equiv> pb\<lparr>pb_read_off := pb_read_off pb + 1\<rparr>"
  shows "pipe_inv pb' \<and>
    pipe_contents pb = pb_buf pb ! unat (pb_read_off pb mod PIPE_BUF_SIZE) # pipe_contents pb'"
proof -
  let ?r = "unat (pb_read_off pb)"
  obtain d where d: "unat (pipe_avail pb) = Suc d"
    using ne by (metis length_greater_0_conv length_pipe_contents not0_implies_Suc less_numeral_extra(3))
  have av: "pipe_avail pb' = pipe_avail pb - 1" by (simp add: pb'_def pipe_avail_def)
  have "1 \<le> pipe_avail pb" using d by (simp add: word_le_nat_alt)
  then have ud: "unat (pipe_avail pb') = d" using d by (simp add: av unat_sub64)
  have ix: "unat (pb_read_off pb') mod 4096 = (?r + 1) mod 4096"
    using unat_add_mod_4096 [of "pb_read_off pb" 1] by (simp add: pb'_def)
  have "(unat (pb_read_off pb') + k) mod 4096 = (?r + Suc k) mod 4096" for k
    using ix by (metis add_Suc_right add_Suc_shift mod_add_left_eq Suc_eq_plus1)
  moreover have "[0..<Suc d] = 0 # map Suc [0..<d]" by (simp add: upt_conv_Cons map_Suc_upt del: upt_Suc)
  ultimately have "pipe_contents pb = pb_buf pb ! (?r mod 4096) # pipe_contents pb'"
    using ud by (simp add: pipe_contents_def d pb'_def o_def del: upt_Suc)
  then show ?thesis
    using inv d ud by (simp add: pipe_inv_def PIPE_BUF_SIZE_def unat_mod pb'_def)
qed

lemma pipe_get_loop_contents:
  "pipe_inv pb \<Longrightarrow> n \<le> length (pipe_contents pb) \<Longrightarrow> pipe_get_loop n pb = (bs, pb') \<Longrightarrow>
   bs = take n (pipe_contents pb) \<and> pipe_contents pb' = drop n (pipe_contents pb) \<and> pipe_inv pb'"
proof (induction n arbitrary: pb bs)
  case (Suc n)
  let ?pb = "pb\<lparr>pb_read_off := pb_read_off pb + 1\<rparr>"
  have "pipe_contents pb \<noteq> []" using Suc.prems(2) by (metis Suc_n_not_le_n le0 le_trans list.size(3) not_less_eq_eq)
  note one = pipe_get_one [OF Suc.prems(1) this]
  obtain cs where cs: "pipe_get_loop n ?pb = (cs, pb')"
    "bs = pb_buf pb ! unat (pb_read_off pb mod PIPE_BUF_SIZE) # cs"
    using Suc.prems(3) by (auto simp: Let_def split: prod.splits)
  have "length (pipe_contents pb) = Suc (length (pipe_contents ?pb))" using one by (metis length_Cons)
  then have "n \<le> length (pipe_contents ?pb)" using Suc.prems(2) by simp
  then show ?case using Suc.IH [OF _ _ cs(1)] one cs(2) by auto
qed simp

lemma pipe_take_contents:
  assumes "pipe_inv pb" "pipe_take len pb = (bs, pb')"
  shows "bs = take len (pipe_contents pb) \<and> pipe_contents pb' = drop len (pipe_contents pb) \<and> pipe_inv pb'"
proof (cases "pipe_avail pb = 0")
  case True
  then have "pipe_contents pb = []" by (simp add: pipe_contents_def)
  then show ?thesis using assms True by (simp add: pipe_take_def)
next
  case False
  then have "pipe_get_loop (min len (unat (pipe_avail pb))) pb = (bs, pb')"
    using assms(2) by (simp add: pipe_take_def Let_def)
  note c = pipe_get_loop_contents [OF assms(1) _ this]
  show ?thesis
  proof (cases "len \<le> unat (pipe_avail pb)")
    case True
    then show ?thesis using c by (simp add: min_def)
  next
    case False
    moreover have "take (unat (pipe_avail pb)) (pipe_contents pb) = pipe_contents pb" by simp
    ultimately show ?thesis using c by (simp add: min_def)
  qed
qed

lemma pipe_put_loop_contents:
  "pipe_inv pb \<Longrightarrow> length (pipe_contents pb) + length bs \<le> 4095 \<Longrightarrow>
   pipe_inv (pipe_put_loop bs pb) \<and> pipe_contents (pipe_put_loop bs pb) = pipe_contents pb @ bs"
proof (induction bs arbitrary: pb)
  case (Cons b bs)
  let ?pb = "pb\<lparr>pb_buf := (pb_buf pb)[unat (pb_write_off pb mod PIPE_BUF_SIZE) := b],
                pb_write_off := pb_write_off pb + 1\<rparr>"
  have one: "pipe_inv ?pb \<and> pipe_contents ?pb = pipe_contents pb @ [b]"
    using Cons.prems by (intro pipe_put_one) simp_all
  then have "length (pipe_contents ?pb) + length bs \<le> 4095" using Cons.prems(2) by simp
  then show ?case using Cons.IH [of ?pb] one by simp
qed simp

lemma pipe_put_contents:
  assumes inv: "pipe_inv pb" and put: "pipe_put bs pb = (n, pb')"
  shows "n = min (length bs) (4095 - length (pipe_contents pb)) \<and>
         pipe_contents pb' = pipe_contents pb @ take n bs \<and> pipe_inv pb'"
proof (cases "pipe_space pb = 0")
  case True
  then have "4095 - length (pipe_contents pb) = 0" using pipe_space_inv [OF inv] by simp
  then show ?thesis using True put inv by (simp add: pipe_put_def)
next
  case False
  have n: "n = min (length bs) (4095 - length (pipe_contents pb))" "pb' = pipe_put_loop (take n bs) pb"
    using False put pipe_space_inv [OF inv] by (auto simp: pipe_put_def Let_def)
  have "length (pipe_contents pb) \<le> 4095" using inv by (simp add: pipe_inv_def)
  then have "length (pipe_contents pb) + length (take n bs) \<le> 4095" using n(1) by simp
  then show ?thesis using pipe_put_loop_contents [OF inv] n by blast
qed

text \<open>Reading and writing one byte at a time: the pipe is a bounded queue.\<close>

definition pipe_push :: "u8 \<Rightarrow> pipe_buf \<Rightarrow> pipe_buf" where
  "pipe_push b pb = snd (pipe_put [b] pb)"

definition pipe_pop :: "pipe_buf \<Rightarrow> (u8 \<times> pipe_buf) option" where
  "pipe_pop pb = (case pipe_take 1 pb of (b # _, pb') \<Rightarrow> Some (b, pb') | _ \<Rightarrow> None)"

interpretation pipe: byte_fifo pipe_push pipe_pop pipe_contents pipe_inv 4095
proof
  fix s b
  assume i: "pipe_inv s"
  obtain n s' where p: "pipe_put [b] s = (n, s')" by (cases "pipe_put [b] s")
  note c = pipe_put_contents [OF i p]
  show "pipe_inv (pipe_push b s)" using c p by (simp add: pipe_push_def)
  show "pipe_contents (pipe_push b s) =
      (if length (pipe_contents s) < 4095 then pipe_contents s @ [b] else pipe_contents s)"
    using c p by (auto simp: pipe_push_def min_def not_less)
  show "length (pipe_contents s) \<le> 4095" using i by (simp add: pipe_inv_def)
  obtain bs s1 where t: "pipe_take 1 s = (bs, s1)" by (cases "pipe_take 1 s")
  show "pipe_pop s = None \<longleftrightarrow> pipe_contents s = []"
    using pipe_take_contents [OF i t] t by (cases "pipe_contents s") (auto simp: pipe_pop_def)
next
  fix s b s'
  assume i: "pipe_inv s" and p: "pipe_pop s = Some (b, s')"
  then obtain bs where t: "pipe_take 1 s = (b # bs, s')"
    by (auto simp: pipe_pop_def split: prod.splits list.splits)
  note c = pipe_take_contents [OF i t]
  show "pipe_inv s'" using c by simp
  show "pipe_contents s = b # pipe_contents s'"
    using c by (cases "pipe_contents s") auto
qed

lemma pipe_inv_new: "pipe_inv pipe_buf_new" "pipe_contents pipe_buf_new = []"
  by (simp_all add: pipe_inv_def pipe_buf_new_def pipe_avail_def pipe_contents_def)

text \<open>\<open>size_of::<PipeBuf>()\<close>: 4096 + 8 + 8 + 4 bytes, rounded up to the alignment of 8.\<close>
definition PIPE_STRUCT_SIZE :: u64 where "PIPE_STRUCT_SIZE = 4120"

end
