(* ===== verification/Tty_Buffer.thy ===== *)
theory Tty_Buffer imports Ring begin

text \<open>The state of the terminal (\<open>vfs/tty.rs\<close>, \<open>Tty\<close>): the ring of completed input, the
  line being typed, the mode bits and the PID of the blocked reader; with the ring
  part of \<open>push_byte\<close> and of \<open>read\<close>.\<close>

definition TTY_BUF_SIZE :: nat where "TTY_BUF_SIZE = 4096"
definition LINE_MAX :: nat where "LINE_MAX = 255"

record tty =
  tty_buf :: "u8 list"
  tty_head :: nat
  tty_tail :: nat
  tty_line :: "u8 list"
  tty_line_len :: nat
  tty_echo :: bool
  tty_canonical :: bool
  tty_waiting_pid :: u64

definition tty_new :: tty where
  "tty_new = \<lparr>tty_buf = replicate TTY_BUF_SIZE 0, tty_head = 0, tty_tail = 0,
     tty_line = replicate LINE_MAX 0, tty_line_len = 0, tty_echo = True, tty_canonical = True,
     tty_waiting_pid = 0\<rparr>"

definition tty_put :: "u8 \<Rightarrow> tty \<Rightarrow> tty" where
  "tty_put b t =
     (let nxt = (tty_head t + 1) mod TTY_BUF_SIZE in
      if nxt \<noteq> tty_tail t then t\<lparr>tty_buf := (tty_buf t)[tty_head t := b], tty_head := nxt\<rparr> else t)"

definition tty_pop :: "tty \<Rightarrow> (u8 \<times> tty) option" where
  "tty_pop t =
     (if tty_tail t \<noteq> tty_head t
      then Some (tty_buf t ! tty_tail t, t\<lparr>tty_tail := (tty_tail t + 1) mod TTY_BUF_SIZE\<rparr>)
      else None)"

definition tty_contents :: "tty \<Rightarrow> u8 list" where
  "tty_contents t = ring_contents TTY_BUF_SIZE (tty_buf t) (tty_head t) (tty_tail t)"

definition tty_inv :: "tty \<Rightarrow> bool" where
  "tty_inv t \<longleftrightarrow> ring_ok TTY_BUF_SIZE (tty_buf t) (tty_head t) (tty_tail t) \<and>
     length (tty_line t) = LINE_MAX \<and> tty_line_len t \<le> LINE_MAX"

text \<open>The line typed so far.\<close>
definition tty_typed :: "tty \<Rightarrow> u8 list" where
  "tty_typed t = take (tty_line_len t) (tty_line t)"

interpretation ttyq: byte_fifo tty_put tty_pop tty_contents tty_inv "TTY_BUF_SIZE - 1"
proof
  fix s b
  assume i: "tty_inv s"
  then have ok: "ring_ok TTY_BUF_SIZE (tty_buf s) (tty_head s) (tty_tail s)"
    by (simp add: tty_inv_def)
  show "tty_inv (tty_put b s)"
    using i by (simp add: tty_put_def Let_def tty_inv_def ring_simps [simplified])
  show "tty_contents (tty_put b s) =
      (if length (tty_contents s) < TTY_BUF_SIZE - 1 then tty_contents s @ [b] else tty_contents s)"
    unfolding tty_contents_def ring_full_iff [OF ok]
    using ring_push [OF ok, of b] by (simp add: tty_put_def Let_def)
  show "tty_pop s = None \<longleftrightarrow> tty_contents s = []"
    using ring_empty_iff [OF ok] by (auto simp: tty_pop_def tty_contents_def)
  show "length (tty_contents s) \<le> TTY_BUF_SIZE - 1"
    using ring_bounded [OF ok] by (simp add: tty_contents_def)
next
  fix s b s'
  assume i: "tty_inv s" and p: "tty_pop s = Some (b, s')"
  then have ok: "ring_ok TTY_BUF_SIZE (tty_buf s) (tty_head s) (tty_tail s)"
    by (simp add: tty_inv_def)
  show "tty_inv s'"
    using ring_ok_pop [OF ok] p i by (auto simp: tty_pop_def tty_inv_def split: if_splits)
  show "tty_contents s = b # tty_contents s'"
    using ring_pop [OF ok] p by (auto simp: tty_pop_def tty_contents_def split: if_splits)
qed

lemma tty_inv_new: "tty_inv tty_new" "tty_contents tty_new = []" "tty_typed tty_new = []"
  by (simp_all add: tty_inv_def tty_new_def ring_ok_def TTY_BUF_SIZE_def tty_contents_def
      ring_contents_def tty_typed_def)

lemma tty_put_fields [simp]:
  "tty_line (tty_put b t) = tty_line t" "tty_line_len (tty_put b t) = tty_line_len t"
  "tty_echo (tty_put b t) = tty_echo t" "tty_canonical (tty_put b t) = tty_canonical t"
  "tty_waiting_pid (tty_put b t) = tty_waiting_pid t" "tty_typed (tty_put b t) = tty_typed t"
  by (simp_all add: tty_put_def Let_def tty_typed_def)

lemma tty_contents_line [simp]:
  "tty_contents (t\<lparr>tty_line := l\<rparr>) = tty_contents t" "tty_contents (t\<lparr>tty_line_len := n\<rparr>) = tty_contents t"
  "tty_contents (t\<lparr>tty_waiting_pid := w\<rparr>) = tty_contents t"
  by (simp_all add: tty_contents_def)

end
