(* ===== verification/Kernel_State.thy ===== *)
theory Kernel_State imports
  Keyboard Kmm Proc_Table Memory Chardev Mount Open_File Ustar Pipe_Buffer Tty_Buffer
  "HOL-Library.Monad_Syntax"
begin

text \<open>The state of the running kernel: the singletons of the Rust sources and the
  assembly globals the Rust code writes, in one record.

  An operation of the kernel is a function from the state to an optional result and
  new state.  \<^term>\<open>None\<close> stands for the runs that do not come back: a Rust panic, a
  halt loop, or a fault of the kernel on an unmapped address.  Vnodes and pipe buffers
  that live on the kernel heap are kept in typed stores under the address that
  \<open>kmalloc\<close> returned for them.  The serial port is its pending input and the bytes sent;
  what the debug build adds is in \<open>Debug_Build\<close>.\<close>

record kernel =
  k_procs :: proc_table
  k_cur :: u64
  k_should_schedule :: bool
  k_oft :: oft
  k_vnodes :: "vref \<Rightarrow> vnode"
  k_mounts :: mount_table
  k_chardevs :: chardev_table
  k_archive :: "u8 list"
  k_entries :: "initramfs_entry list"
  k_pipes :: "u64 \<Rightarrow> pipe_buf"
  k_tty :: tty
  k_kbd :: keyboard
  k_serial_in :: "u8 list"
  k_serial_out :: "u8 list"
  k_heap :: kmm
  k_pmm :: pmm
  k_mem :: mem
  k_cr3 :: u64
  k_rsp0 :: u64
  k_syscall_kstack :: u64
  k_sys_rsp :: u64
  k_sys_rflags :: u64
  k_sys_rip :: u64
  k_sigreturn_frame :: "u64 list"
  k_sigreturn_pending :: bool
  k_prov_mask :: u64

abbreviation k_slots :: "kernel \<Rightarrow> slots" where
  "k_slots k \<equiv> slots (k_procs k)"

definition upd_slots :: "(slots \<Rightarrow> slots) \<Rightarrow> kernel \<Rightarrow> kernel" where
  "upd_slots f k = k\<lparr>k_procs := (k_procs k)\<lparr>slots := f (k_slots k)\<rparr>\<rparr>"

text \<open>\<open>process(pid)\<close> and \<open>process_mut(pid)\<close>: \<^term>\<open>None\<close> is their panic.\<close>
definition process_mut :: "u64 \<Rightarrow> kernel \<Rightarrow> process option" where
  "process_mut q k = process_mut_if q (k_slots k)"

definition set_process :: "u64 \<Rightarrow> (process \<Rightarrow> process) \<Rightarrow> kernel \<Rightarrow> kernel" where
  "set_process q f k = upd_slots (upd_process q f) k"

definition set_schedule :: "kernel \<Rightarrow> kernel" where
  "set_schedule k = k\<lparr>k_should_schedule := True\<rparr>"

subsection \<open>Devices and memory\<close>

text \<open>\<open>SerialPort::putchar\<close>: a carriage return follows every newline.\<close>
definition putchar :: "u8 \<Rightarrow> kernel \<Rightarrow> kernel" where
  "putchar b k = k\<lparr>k_serial_out := k_serial_out k @ (if b = 0x0A then [b, 0x0D] else [b])\<rparr>"

definition serial_write :: "u8 list \<Rightarrow> kernel \<Rightarrow> kernel" where
  "serial_write bs k = fold putchar bs k"

definition serial_read :: "nat \<Rightarrow> kernel \<Rightarrow> u8 list \<times> kernel" where
  "serial_read n k = (take n (k_serial_in k), k\<lparr>k_serial_in := drop n (k_serial_in k)\<rparr>)"

definition user_load :: "u64 \<Rightarrow> nat \<Rightarrow> kernel \<Rightarrow> u8 list option" where
  "user_load a n k = load_virt (k_mem k) (k_cr3 k) a n"

definition user_store :: "u64 \<Rightarrow> u8 list \<Rightarrow> kernel \<Rightarrow> kernel option" where
  "user_store a bs k = map_option (\<lambda>m. k\<lparr>k_mem := m\<rparr>) (store_virt (k_cr3 k) a bs (k_mem k))"

definition k_malloc :: "u64 \<Rightarrow> kernel \<Rightarrow> (u64 \<times> kernel) option" where
  "k_malloc n k = map_option (\<lambda>(p, h). (p, k\<lparr>k_heap := h\<rparr>)) (kmalloc n (k_heap k))"

definition k_free :: "u64 \<Rightarrow> kernel \<Rightarrow> kernel option" where
  "k_free p k = map_option (\<lambda>h. k\<lparr>k_heap := h\<rparr>) (kfree p (k_heap k))"

definition set_vnode :: "vref \<Rightarrow> vnode \<Rightarrow> kernel \<Rightarrow> kernel" where
  "set_vnode r vn k = k\<lparr>k_vnodes := (k_vnodes k)(r := vn)\<rparr>"

definition set_pipe :: "u64 \<Rightarrow> pipe_buf \<Rightarrow> kernel \<Rightarrow> kernel" where
  "set_pipe p pb k = k\<lparr>k_pipes := (k_pipes k)(p := pb)\<rparr>"

subsection \<open>Field accesses\<close>

lemma upd_slots_simps [simp]:
  "k_slots (upd_slots f k) = f (k_slots k)" "k_cur (upd_slots f k) = k_cur k"
  "k_oft (upd_slots f k) = k_oft k" "k_vnodes (upd_slots f k) = k_vnodes k"
  "k_tty (upd_slots f k) = k_tty k" "k_serial_out (upd_slots f k) = k_serial_out k"
  "k_heap (upd_slots f k) = k_heap k" "k_pipes (upd_slots f k) = k_pipes k"
  "k_mem (upd_slots f k) = k_mem k" "k_cr3 (upd_slots f k) = k_cr3 k"
  "k_should_schedule (upd_slots f k) = k_should_schedule k" "k_pmm (upd_slots f k) = k_pmm k"
  "k_entries (upd_slots f k) = k_entries k" "k_archive (upd_slots f k) = k_archive k"
  "next_pid (k_procs (upd_slots f k)) = next_pid (k_procs k)" "k_serial_in (upd_slots f k) = k_serial_in k"
  "k_kbd (upd_slots f k) = k_kbd k"
  by (simp_all add: upd_slots_def)

lemma set_process_simps [simp]:
  "k_slots (set_process q f k) = upd_process q f (k_slots k)" "k_cur (set_process q f k) = k_cur k"
  "k_oft (set_process q f k) = k_oft k" "k_vnodes (set_process q f k) = k_vnodes k"
  "k_tty (set_process q f k) = k_tty k" "k_serial_out (set_process q f k) = k_serial_out k"
  "k_heap (set_process q f k) = k_heap k" "k_pipes (set_process q f k) = k_pipes k"
  "k_mem (set_process q f k) = k_mem k" "k_cr3 (set_process q f k) = k_cr3 k"
  "k_should_schedule (set_process q f k) = k_should_schedule k" "k_pmm (set_process q f k) = k_pmm k"
  "k_serial_in (set_process q f k) = k_serial_in k" "k_kbd (set_process q f k) = k_kbd k"
  "next_pid (k_procs (set_process q f k)) = next_pid (k_procs k)"
  by (simp_all add: set_process_def)

lemma serial_write_simps [simp]:
  "serial_write [] k = k" "serial_write (b # bs) k = serial_write bs (putchar b k)"
  by (simp_all add: serial_write_def)

lemma serial_write_other [simp]:
  "k_procs (serial_write bs k) = k_procs k" "k_tty (serial_write bs k) = k_tty k"
  "k_should_schedule (serial_write bs k) = k_should_schedule k"
  "k_cur (serial_write bs k) = k_cur k" "k_oft (serial_write bs k) = k_oft k"
  "k_kbd (serial_write bs k) = k_kbd k" "k_serial_in (serial_write bs k) = k_serial_in k"
  "k_mem (serial_write bs k) = k_mem k" "k_cr3 (serial_write bs k) = k_cr3 k"
  "k_vnodes (serial_write bs k) = k_vnodes k" "k_heap (serial_write bs k) = k_heap k"
  "k_pipes (serial_write bs k) = k_pipes k" "k_pmm (serial_write bs k) = k_pmm k"
  "k_entries (serial_write bs k) = k_entries k" "k_archive (serial_write bs k) = k_archive k"
  by (induction bs arbitrary: k) (simp_all add: putchar_def)

lemma user_store_other:
  "user_store a bs k = Some k' \<Longrightarrow> \<exists>m. k' = k\<lparr>k_mem := m\<rparr>"
  by (auto simp: user_store_def)

subsection \<open>A concrete state\<close>

text \<open>For the examples: given processes, empty tables, the boot heap, and an address space
  whose one table page at \<open>0x1000\<close> maps every 2 MiB region to the low memory.\<close>

definition flat_mem :: mem where
  "flat_mem a = (if 0x1000 \<le> a \<and> a < 0x2000
     then (if a AND 7 = 0 then 0x83 else if a AND 7 = 1 then 0x10 else 0) else 0)"

definition kernel0 :: "process list \<Rightarrow> kernel" where
  "kernel0 ps = \<lparr>k_procs = \<lparr>slots = slots_of ps, next_pid = 3, proc_count = length ps\<rparr>,
     k_cur = 1, k_should_schedule = False, k_oft = oft_new,
     k_vnodes = (\<lambda>_. \<lparr>vn_ops = ROOTFS_DIR_OPS, vn_mode = V_DIR, vn_ino = 0, vn_size = 0,
                     vn_fs_type = RootFS, vn_data = Data_Null, vn_mount = None\<rparr>),
     k_mounts = mount_table_new, k_chardevs = chardev_table_new, k_archive = [], k_entries = [],
     k_pipes = (\<lambda>_. pipe_buf_new), k_tty = tty_new, k_kbd = keyboard_new,
     k_serial_in = [], k_serial_out = [], k_heap = heap0, k_pmm = pmm_new (replicate BITMAP_SIZE 0),
     k_mem = flat_mem, k_cr3 = 0x1000, k_rsp0 = 0, k_syscall_kstack = 0,
     k_sys_rsp = 0, k_sys_rflags = 0, k_sys_rip = 0,
     k_sigreturn_frame = replicate 18 0, k_sigreturn_pending = False, k_prov_mask = - 1\<rparr>"

end
