(* ===== verification/Serial_Port.thy ===== *)
theory Serial_Port imports Kernel_State begin

text \<open>Port I/O and the serial driver (\<open>serial.rs\<close>).

  The devices behind the ports are not part of the sources.  A \<open>bus\<close> gives the effect of the
  \<open>inb\<close> and \<open>outb\<close> instructions on a device state of any type; what a driver needs of its device is
  a hypothesis of the theorem that needs it.  The spin loops count down the driver's own limits, so they
  are structural recursions on them.\<close>

record 'd bus =
  in_b :: "u16 \<Rightarrow> 'd \<Rightarrow> u8 \<times> 'd"
  out_b :: "u16 \<Rightarrow> u8 \<Rightarrow> 'd \<Rightarrow> 'd"

definition SERIAL_COM1_BASE :: u16 where "SERIAL_COM1_BASE = 0x3F8"
definition SERIAL_DATA :: u16 where "SERIAL_DATA = 0"
definition SERIAL_INTR :: u16 where "SERIAL_INTR = 1"
definition SERIAL_FIFO :: u16 where "SERIAL_FIFO = 2"
definition SERIAL_LCR :: u16 where "SERIAL_LCR = 3"
definition SERIAL_MCR :: u16 where "SERIAL_MCR = 4"
definition SERIAL_LSR :: u16 where "SERIAL_LSR = 5"
definition SERIAL_LSR_THR_EMPTY :: u8 where "SERIAL_LSR_THR_EMPTY = 0x20"
definition SERIAL_LSR_DATA_READY :: u8 where "SERIAL_LSR_DATA_READY = 0x01"
definition PUTCHAR_TIMEOUT :: nat where "PUTCHAR_TIMEOUT = 1000000"

abbreviation com1 :: "u16 \<Rightarrow> u16" where
  "com1 r \<equiv> SERIAL_COM1_BASE + r"

text \<open>\<open>SERIAL_INITIALIZED\<close> is the flag of the first component.\<close>
definition serial_init :: "'d bus \<Rightarrow> bool \<times> 'd \<Rightarrow> bool \<times> 'd" where
  "serial_init b s = (case s of (initialized, d) \<Rightarrow>
     if initialized then (True, d)
     else (True, fold (\<lambda>(r, v). out_b b (com1 r) v)
       [(SERIAL_INTR, 0x00), (SERIAL_LCR, 0x80), (SERIAL_DATA, 0x01), (SERIAL_INTR, 0x00), (SERIAL_LCR, 0x03),
        (SERIAL_FIFO, 0xC7), (SERIAL_MCR, 0x0B)] d))"

text \<open>The wait for the transmit holding register: whether it became empty before the limit.\<close>
fun wait_thr :: "'d bus \<Rightarrow> nat \<Rightarrow> 'd \<Rightarrow> bool \<times> 'd" where
  "wait_thr b 0 d = (False, d)"
| "wait_thr b (Suc timeout) d =
     (let (s, d) = in_b b (com1 SERIAL_LSR) d in
      if s AND SERIAL_LSR_THR_EMPTY \<noteq> 0 then (True, d) else wait_thr b timeout d)"

definition port_putchar :: "'d bus \<Rightarrow> u8 \<Rightarrow> 'd \<Rightarrow> 'd" where
  "port_putchar b c d =
     (let (ok, d) = wait_thr b PUTCHAR_TIMEOUT d in
      if \<not> ok then d
      else let d = out_b b (com1 SERIAL_DATA) c d in
      if c = 0x0A
      then let (ok, d) = wait_thr b PUTCHAR_TIMEOUT d in
           if \<not> ok then d else out_b b (com1 SERIAL_DATA) 0x0D d
      else d)"

definition writestrs :: "'d bus \<Rightarrow> u8 list list \<Rightarrow> 'd \<Rightarrow> 'd" where
  "writestrs b strs d = fold (fold (port_putchar b)) strs d"

definition getchar :: "'d bus \<Rightarrow> 'd \<Rightarrow> u8 option \<times> 'd" where
  "getchar b d =
     (let (s, d) = in_b b (com1 SERIAL_LSR) d in
      if s AND SERIAL_LSR_DATA_READY \<noteq> 0 then let (c, d) = in_b b (com1 SERIAL_DATA) d in (Some c, d)
      else (None, d))"

fun port_read :: "'d bus \<Rightarrow> nat \<Rightarrow> 'd \<Rightarrow> u8 list \<times> 'd" where
  "port_read b 0 d = ([], d)"
| "port_read b (Suc n) d =
     (case getchar b d of
        (None, d) \<Rightarrow> ([], d)
      | (Some c, d) \<Rightarrow> let (cs, d) = port_read b n d in (c # cs, d))"

subsection \<open>The driver and the serial port of the kernel model\<close>

text \<open>A UART that is always ready to send: \<open>sent\<close> is what it has transmitted, \<open>rx\<close> what it has received and
  not given out yet.\<close>
definition uart_ready :: "'d bus \<Rightarrow> ('d \<Rightarrow> u8 list) \<Rightarrow> ('d \<Rightarrow> u8 list) \<Rightarrow> bool" where
  "uart_ready b sent rx \<longleftrightarrow>
     (\<forall>d. case in_b b (com1 SERIAL_LSR) d of (s, d') \<Rightarrow>
        s AND SERIAL_LSR_THR_EMPTY \<noteq> 0 \<and> (s AND SERIAL_LSR_DATA_READY \<noteq> 0) = (rx d \<noteq> []) \<and> sent d' = sent d \<and> rx d' = rx d) \<and>
     (\<forall>d v. sent (out_b b (com1 SERIAL_DATA) v d) = sent d @ [v] \<and> rx (out_b b (com1 SERIAL_DATA) v d) = rx d) \<and>
     (\<forall>d. rx d \<noteq> [] \<longrightarrow> (case in_b b (com1 SERIAL_DATA) d of (c, d') \<Rightarrow> c = hd (rx d) \<and> rx d' = tl (rx d) \<and> sent d' = sent d))"

lemma uart_status:
  assumes "uart_ready b sent rx" "in_b b (com1 SERIAL_LSR) d = (s, d')"
  shows "s AND SERIAL_LSR_THR_EMPTY \<noteq> 0" "(s AND SERIAL_LSR_DATA_READY \<noteq> 0) = (rx d \<noteq> [])" "sent d' = sent d" "rx d' = rx d"
  using conjunct1 [OF assms(1) [unfolded uart_ready_def], rule_format, of d] assms(2) by simp_all

lemma uart_data:
  assumes "uart_ready b sent rx" "in_b b (com1 SERIAL_DATA) d = (c, d')" "rx d \<noteq> []"
  shows "c = hd (rx d)" "rx d' = tl (rx d)" "sent d' = sent d"
  using conjunct2 [OF conjunct2 [OF assms(1) [unfolded uart_ready_def]], rule_format, OF assms(3)] assms(2) by simp_all

lemma wait_thr_ready:
  assumes "uart_ready b sent rx" "0 < n"
  obtains d' where "wait_thr b n d = (True, d')" "sent d' = sent d" "rx d' = rx d"
proof -
  obtain s d' where i: "in_b b (com1 SERIAL_LSR) d = (s, d')" by fastforce
  show ?thesis using uart_status [OF assms(1) i] that [of d'] assms(2) i by (cases n) auto
qed

lemma port_putchar_ready:
  assumes u: "uart_ready b sent rx"
  shows "sent (port_putchar b c d) = sent d @ (if c = 0x0A then [c, 0x0D] else [c]) \<and> rx (port_putchar b c d) = rx d"
proof -
  have out: "sent (out_b b (com1 SERIAL_DATA) v d) = sent d @ [v]" "rx (out_b b (com1 SERIAL_DATA) v d) = rx d" for v d
    using u by (simp_all add: uart_ready_def)
  have pos: "0 < PUTCHAR_TIMEOUT" by (simp add: PUTCHAR_TIMEOUT_def)
  obtain d1 where d1: "wait_thr b PUTCHAR_TIMEOUT d = (True, d1)" "sent d1 = sent d" "rx d1 = rx d"
    using wait_thr_ready [OF u pos] by blast
  obtain d2 where d2: "wait_thr b PUTCHAR_TIMEOUT (out_b b (com1 SERIAL_DATA) c d1) = (True, d2)"
      "sent d2 = sent d @ [c]" "rx d2 = rx d"
    using wait_thr_ready [OF u pos, of "out_b b (com1 SERIAL_DATA) c d1"] d1 out by metis
  show ?thesis using d1 d2 out by (cases "c = 0x0A") (simp_all add: port_putchar_def)
qed

lemma putchar_out: "k_serial_out (putchar c k) = k_serial_out k @ (if c = 0x0A then [c, 0x0D] else [c])"
  by (simp add: putchar_def)

lemma port_write_ready:
  assumes u: "uart_ready b sent rx" and "sent d = k_serial_out k"
  shows "sent (fold (port_putchar b) bs d) = k_serial_out (serial_write bs k) \<and> rx (fold (port_putchar b) bs d) = rx d"
  using assms(2)
proof (induction bs arbitrary: d k)
  case (Cons c bs)
  have "sent (port_putchar b c d) = k_serial_out (putchar c k)" "rx (port_putchar b c d) = rx d"
    using port_putchar_ready [OF u] Cons.prems by (simp_all add: putchar_out)
  then show ?case using Cons.IH [of "port_putchar b c d" "putchar c k"] by (simp add: serial_write_def)
qed (simp add: serial_write_def)

lemma writestrs_concat: "writestrs b strs d = fold (port_putchar b) (concat strs) d"
  by (induction strs arbitrary: d) (simp_all add: writestrs_def)

lemma getchar_ready:
  assumes u: "uart_ready b sent rx"
  obtains d' where "getchar b d = ((case rx d of [] \<Rightarrow> None | c # _ \<Rightarrow> Some c), d')" "rx d' = tl (rx d)" "sent d' = sent d"
proof -
  obtain s d1 where i: "in_b b (com1 SERIAL_LSR) d = (s, d1)" by fastforce
  obtain c d2 where j: "in_b b (com1 SERIAL_DATA) d1 = (c, d2)" by fastforce
  note s = uart_status [OF u i]
  have c: "rx d \<noteq> [] \<Longrightarrow> c = hd (rx d) \<and> rx d2 = tl (rx d) \<and> sent d2 = sent d"
    using uart_data [OF u j] s(3,4) by simp
  show ?thesis
    by (cases "rx d") (use i j s c that [of d1] that [of d2] in \<open>simp_all add: getchar_def\<close>)
qed

lemma port_read_ready:
  assumes u: "uart_ready b sent rx"
  shows "fst (port_read b n d) = take n (rx d) \<and> rx (snd (port_read b n d)) = drop n (rx d) \<and>
    sent (snd (port_read b n d)) = sent d"
proof (induction n arbitrary: d)
  case (Suc n)
  obtain d' where g: "getchar b d = ((case rx d of [] \<Rightarrow> None | c # _ \<Rightarrow> Some c), d')" "rx d' = tl (rx d)" "sent d' = sent d"
    using getchar_ready [OF u] by blast
  show ?case using g Suc.IH [of d'] by (cases "rx d") (auto simp: split_beta)
qed simp


definition demo_uart :: "(u8 list \<times> u8 list) bus" where
  "demo_uart = \<lparr>in_b = (\<lambda>p (tx, rx). if p = com1 SERIAL_LSR then (if rx = [] then 0x60 else 0x61, (tx, rx))
       else (hd rx, (tx, tl rx))),
     out_b = (\<lambda>p v (tx, rx). if p = com1 SERIAL_DATA then (tx @ [v], rx) else (tx, rx))\<rparr>"


subsection \<open>A port that never becomes ready\<close>

lemma wait_thr_stuck:
  assumes "\<forall>d. fst (in_b b (com1 SERIAL_LSR) d) AND SERIAL_LSR_THR_EMPTY = 0"
  shows "wait_thr b n d = (False, ((\<lambda>d. snd (in_b b (com1 SERIAL_LSR) d)) ^^ n) d)"
proof (induction n arbitrary: d)
  case (Suc n)
  show ?case using assms Suc.IH [of "snd (in_b b (com1 SERIAL_LSR) d)"]
    by (simp add: split_beta funpow_Suc_right del: funpow.simps)
qed simp

text \<open>When the transmitter never becomes empty, \<open>putchar\<close> polls the line status a million times, gives up
  and sends nothing, so no message can hang the kernel.\<close>
lemma putchar_gives_up:
  assumes "\<forall>d. fst (in_b b (com1 SERIAL_LSR) d) AND SERIAL_LSR_THR_EMPTY = 0"
  shows "port_putchar b c d = ((\<lambda>d. snd (in_b b (com1 SERIAL_LSR) d)) ^^ 1000000) d"
  using wait_thr_stuck [OF assms] by (simp add: port_putchar_def PUTCHAR_TIMEOUT_def)

definition stuck_uart :: "(nat \<times> u8 list) bus" where
  "stuck_uart = \<lparr>in_b = (\<lambda>p (polls, tx). (0, (Suc polls, tx))), out_b = (\<lambda>p v (polls, tx). (polls, tx @ [v]))\<rparr>"

lemma putchar_gives_up_example: "port_putchar stuck_uart 0x41 (0, []) = (1000000, [])"
proof -
  have stuck: "\<forall>d. fst (in_b stuck_uart (com1 SERIAL_LSR) d) AND SERIAL_LSR_THR_EMPTY = 0"
    by (simp add: stuck_uart_def split_beta)
  have "((\<lambda>d. snd (in_b stuck_uart p d)) ^^ n) (i, tx) = (i + n, tx)" for p n i tx
    by (induction n) (simp_all add: stuck_uart_def)
  then show ?thesis unfolding putchar_gives_up [OF stuck] by (simp only: add_0)
qed

end
