(* ===== verification/Format.thy ===== *)
theory Format imports Vibix_Prelude begin

text \<open>The number formats of the kernel's messages: the fixed-width hexadecimal buffers of
  \<open>interrupts.rs\<close>, \<open>multiboot.rs\<close> and \<open>lib.rs\<close>, and the decimal and hexadecimal formats of
  \<open>write!\<close> that the messages use.\<close>

definition HEX_UPPER :: "u8 list" where "HEX_UPPER = bytes ''0123456789ABCDEF''"
definition HEX_LOWER :: "u8 list" where "HEX_LOWER = bytes ''0123456789abcdef''"

definition hex_str :: "u64 \<Rightarrow> u8 list" where
  "hex_str v = bytes ''0x'' @ map (\<lambda>i. HEX_UPPER ! unat (drop_bit (60 - i * 4) v AND 0xF)) [0..<16]"

definition hex_buf :: "u32 \<Rightarrow> u8 list" where
  "hex_buf v = bytes ''0x'' @ map (\<lambda>i. HEX_UPPER ! unat (drop_bit (28 - i * 4) v AND 0xF)) [0..<8]"

text \<open>The buffer of \<open>hex_out\<close>, filled from its end.\<close>
definition hex_out_buf :: "u64 \<Rightarrow> u8 list" where
  "hex_out_buf v = fold (\<lambda>i buf. buf[17 - i := HEX_LOWER ! unat (drop_bit (4 * i) v AND 0xF)]) [0..<16]
     (bytes ''0x'' @ replicate 16 0)"

text \<open>\<open>{}\<close> and \<open>{:x}\<close> of an unsigned integer.\<close>
fun fmt_dec :: "nat \<Rightarrow> u8 list" where
  "fmt_dec n = (if n < 10 then [0x30 + of_nat n] else fmt_dec (n div 10) @ [0x30 + of_nat (n mod 10)])"

fun fmt_hex :: "nat \<Rightarrow> u8 list" where
  "fmt_hex n = (if n < 16 then [HEX_LOWER ! n] else fmt_hex (n div 16) @ [HEX_LOWER ! (n mod 16)])"

declare fmt_dec.simps [simp del] fmt_hex.simps [simp del]

text \<open>\<open>{:08x}\<close>: zeros up to the width.\<close>
definition fmt_hex_pad :: "nat \<Rightarrow> nat \<Rightarrow> u8 list" where
  "fmt_hex_pad w n = replicate (w - length (fmt_hex n)) 0x30 @ fmt_hex n"

subsection \<open>Reading the digits back\<close>

definition hex_value :: "u8 list \<Rightarrow> u8 \<Rightarrow> nat" where
  "hex_value alphabet d = (case find (\<lambda>i. alphabet ! i = d) [0..<16] of Some i \<Rightarrow> i | None \<Rightarrow> 0)"

definition parse_hex :: "u8 list \<Rightarrow> u8 list \<Rightarrow> nat" where
  "parse_hex alphabet ds = fold (\<lambda>d n. 16 * n + hex_value alphabet d) ds 0"

lemma hex_value_nth:
  assumes "i < 16"
  shows "hex_value HEX_UPPER (HEX_UPPER ! i) = i" "hex_value HEX_LOWER (HEX_LOWER ! i) = i"
proof -
  have "\<forall>i \<in> set [0..<16]. hex_value HEX_UPPER (HEX_UPPER ! i) = i \<and> hex_value HEX_LOWER (HEX_LOWER ! i) = i"
    by code_simp
  then show "hex_value HEX_UPPER (HEX_UPPER ! i) = i" "hex_value HEX_LOWER (HEX_LOWER ! i) = i" using assms by auto
qed

lemma parse_hex_snoc: "parse_hex al (ds @ [d]) = 16 * parse_hex al ds + hex_value al d"
  by (simp add: parse_hex_def)

lemma parse_digits:
  "parse_hex al (map (\<lambda>i. al ! (n div 16 ^ (w - 1 - i) mod 16)) [0..<w]) = n mod 16 ^ w"
  if "\<And>i. i < 16 \<Longrightarrow> hex_value al (al ! i) = i"
proof (induction w arbitrary: n)
  case (Suc w)
  have m: "map (\<lambda>i. al ! (n div 16 ^ (Suc w - 1 - i) mod 16)) [0..<w] = map (\<lambda>i. al ! (n div 16 div 16 ^ (w - 1 - i) mod 16)) [0..<w]"
    by (rule map_cong [OF refl]) (auto simp: div_mult2_eq [symmetric] power_Suc [symmetric] Suc_diff_Suc simp del: power_Suc)
  have "map (\<lambda>i. al ! (n div 16 ^ (Suc w - 1 - i) mod 16)) [0..<Suc w] =
      map (\<lambda>i. al ! (n div 16 div 16 ^ (w - 1 - i) mod 16)) [0..<w] @ [al ! (n mod 16)]"
    by (simp only: upt_Suc le0 if_True map_append m) simp
  then have "parse_hex al (map (\<lambda>i. al ! (n div 16 ^ (Suc w - 1 - i) mod 16)) [0..<Suc w]) = 16 * (n div 16 mod 16 ^ w) + n mod 16"
    using Suc [of "n div 16"] that [of "n mod 16"] by (simp only: parse_hex_snoc)
  also have "\<dots> = n mod 16 ^ Suc w" by (simp add: mod_mult2_eq)
  finally show ?case .
qed (simp add: parse_hex_def)

lemma nibble: "unat (drop_bit k v AND 0xF) = unat v div 2 ^ k mod 16" for v :: "'a::len word"
proof -
  have "drop_bit k v AND 0xF = take_bit 4 (drop_bit k v)" by (simp add: take_bit_eq_mask mask_eq_exp_minus_1)
  then show ?thesis by (simp add: unsigned_take_bit_eq unsigned_drop_bit_eq take_bit_nat_def drop_bit_nat_def)
qed

lemma hex_str_digits: "drop 2 (hex_str v) = map (\<lambda>i. HEX_UPPER ! (unat v div 16 ^ (15 - i) mod 16)) [0..<16]"
proof -
  have "(2 :: nat) ^ (60 - i * 4) = 16 ^ (15 - i)" if "i < 16" for i
  proof -
    have "60 - i * 4 = 4 * (15 - i)" by simp
    then show ?thesis by (simp only: power_mult) simp
  qed
  then show ?thesis by (simp add: hex_str_def bytes_def nibble)
qed

lemma hex_str_parse: "parse_hex HEX_UPPER (drop 2 (hex_str v)) = unat v"
proof -
  have "unat v < 16 ^ 16" using unsigned_less [of v, where 'a = nat] by simp
  then show ?thesis
    using parse_digits [of HEX_UPPER "unat v" 16] hex_value_nth(1) by (simp add: hex_str_digits)
qed

lemma length_hex_str [simp]: "length (hex_str v) = 18"
  by (simp add: hex_str_def bytes_def)

end
