(* ===== verification/Tty.thy ===== *)
theory Tty imports Kernel_State begin

text \<open>The terminal driver (\<open>vfs/tty.rs\<close>): the line discipline between the input devices
  and the ring of completed input, blocking reads, wake-ups, and the terminal's
  vnode operations.\<close>

definition SIGINT :: nat where "SIGINT = 2"

definition set_tty :: "(tty \<Rightarrow> tty) \<Rightarrow> kernel \<Rightarrow> kernel" where
  "set_tty f k = k\<lparr>k_tty := f (k_tty k)\<rparr>"

text \<open>The wake-up at the end of \<open>push_byte\<close>, for a waiting PID that is not 0.\<close>
definition wake_reader :: "u64 \<Rightarrow> kernel \<Rightarrow> kernel" where
  "wake_reader pid k =
     (case process_mut_if pid (k_slots k) of
        Some p \<Rightarrow> if p_state p = Blocked
                  then set_schedule (set_process pid (\<lambda>p. p\<lparr>p_state := Ready\<rparr>) k) else k
      | None \<Rightarrow> k)"

definition push_byte :: "u8 \<Rightarrow> kernel \<Rightarrow> kernel" where
  "push_byte b k =
     (let k = set_tty (tty_put b) k; pid = tty_waiting_pid (k_tty k) in
      if pid \<noteq> 0 then wake_reader pid (set_tty (\<lambda>t. t\<lparr>tty_waiting_pid := 0\<rparr>) k) else k)"

definition echo :: "u8 list \<Rightarrow> kernel \<Rightarrow> kernel" where
  "echo bs k = (if tty_echo (k_tty k) then serial_write bs k else k)"

definition handle_backspace :: "kernel \<Rightarrow> kernel" where
  "handle_backspace k =
     (if tty_line_len (k_tty k) > 0
      then echo [0x08, 0x20, 0x08] (set_tty (\<lambda>t. t\<lparr>tty_line_len := tty_line_len t - 1\<rparr>) k)
      else k)"

definition handle_ctrlc :: "kernel \<Rightarrow> kernel" where
  "handle_ctrlc k =
     (let reader_pid = tty_waiting_pid (k_tty k);
          k = echo (bytes ''^C'' @ [0x0D, 0x0A]) (set_tty (\<lambda>t. t\<lparr>tty_line_len := 0\<rparr>) k);
          k = (if reader_pid \<noteq> 0
               then case process_mut_if reader_pid (k_slots k) of
                      Some p \<Rightarrow> if p_state p = Blocked
                                then set_process reader_pid
                                       (\<lambda>p. p\<lparr>p_sig_pending := p_sig_pending p OR push_bit SIGINT 1\<rparr>) k
                                else set_tty (\<lambda>t. t\<lparr>tty_waiting_pid := 0\<rparr>) k
                    | None \<Rightarrow> set_tty (\<lambda>t. t\<lparr>tty_waiting_pid := 0\<rparr>) k
               else k)
      in push_byte 0x0A k)"

definition handle_enter :: "kernel \<Rightarrow> kernel" where
  "handle_enter k =
     (let k = echo [0x0D, 0x0A] k;
          k = fold push_byte (map (\<lambda>i. tty_line (k_tty k) ! i) [0..<tty_line_len (k_tty k)]) k;
          k = push_byte 0x0A k
      in set_tty (\<lambda>t. t\<lparr>tty_line_len := 0\<rparr>) k)"

definition line_append :: "u8 \<Rightarrow> tty \<Rightarrow> tty" where
  "line_append c t = t\<lparr>tty_line := (tty_line t)[tty_line_len t := c], tty_line_len := tty_line_len t + 1\<rparr>"

definition handle_tab :: "kernel \<Rightarrow> kernel" where
  "handle_tab k =
     (let k = echo [0x09] k in
      if tty_line_len (k_tty k) < LINE_MAX then set_tty (line_append 0x09) k else k)"

definition handle_char :: "u8 \<Rightarrow> kernel \<Rightarrow> kernel" where
  "handle_char c k =
     (if tty_line_len (k_tty k) < LINE_MAX then echo [c] (set_tty (line_append c) k) else k)"

definition process_byte :: "u8 \<Rightarrow> kernel \<Rightarrow> kernel" where
  "process_byte c k =
     (if \<not> tty_canonical (k_tty k) then push_byte c k
      else if c = 0x08 \<or> c = 0x7F then handle_backspace k
      else if c = 0x03 then handle_ctrlc k
      else if c = 0x0D \<or> c = 0x0A then handle_enter k
      else if c = 0x09 then handle_tab k
      else if c = 0x1B then k
      else if c \<ge> 0x20 then handle_char c k
      else k)"

definition process_input :: "kernel \<Rightarrow> kernel" where
  "process_input k =
     (let (bs, kbd) = kbd_read 64 (k_kbd k);
          k = fold process_byte bs (k\<lparr>k_kbd := kbd\<rparr>);
          (bs2, k) = serial_read 64 k
      in fold process_byte bs2 k)"

abbreviation poll_input :: "kernel \<Rightarrow> kernel" where "poll_input \<equiv> process_input"

definition tty_read_bytes :: "nat \<Rightarrow> kernel \<Rightarrow> (u8 list \<times> kernel) option" where
  "tty_read_bytes len k =
     (let k = process_input k in
      if tty_tail (k_tty k) \<noteq> tty_head (k_tty k)
      then let (bs, t) = drain tty_pop len (k_tty k) in Some (bs, k\<lparr>k_tty := t\<rparr>)
      else if k_cur k \<noteq> 0
      then (case process_mut (k_cur k) k of
              None \<Rightarrow> None
            | Some _ \<Rightarrow> Some ([], set_schedule (set_tty (\<lambda>t. t\<lparr>tty_waiting_pid := k_cur k\<rparr>)
                               (set_process (k_cur k) (\<lambda>p. p\<lparr>p_state := Blocked\<rparr>) k))))
      else Some ([], k))"

text \<open>The vnode operations.\<close>

definition tty_read :: "u64 \<Rightarrow> nat \<Rightarrow> kernel \<Rightarrow> (int \<times> kernel) option" where
  "tty_read buf len k = do {
     (bs, k) \<leftarrow> tty_read_bytes len k;
     k \<leftarrow> user_store buf bs k;
     Some (int (length bs), k) }"

definition tty_write :: "u64 \<Rightarrow> nat \<Rightarrow> kernel \<Rightarrow> (int \<times> kernel) option" where
  "tty_write buf len k = do {
     bs \<leftarrow> user_load buf len k;
     Some (int len, serial_write bs k) }"

definition tty_ioctl :: "u64 \<Rightarrow> u64 \<Rightarrow> kernel \<Rightarrow> (int \<times> kernel) option" where
  "tty_ioctl request arg k =
     (if arg = 0 then Some (- EFAULT, k)
      else let r = (ucast request :: u32) in
        if r = 0x5413 then do {
          k \<leftarrow> user_store arg (le_bytes 2 (25 :: u16) @ le_bytes 2 (80 :: u16) @ replicate 4 0) k;
          Some (0, k) }
        else if r = 0x5401 then do {
          k \<leftarrow> user_store arg (replicate 8 0 @ [0xFD, 0x0B, 0, 0] @ [0xCB, 0x03, 0, 0] @ replicate 44 0) k;
          Some (0, k) }
        else if r = 0x5402 then Some (0, k)
        else Some (- ENOTTY, k))"

subsection \<open>Specification of the line discipline\<close>

text \<open>The effect of one input byte in canonical mode: the line after it, the input it
  completes, and what is echoed.\<close>

definition ld_step :: "u8 \<Rightarrow> u8 list \<Rightarrow> u8 list \<times> u8 list \<times> u8 list" where
  "ld_step c l =
     (if c = 0x08 \<or> c = 0x7F then (butlast l, [], if l = [] then [] else [0x08, 0x20, 0x08])
      else if c = 0x03 then ([], [0x0A], bytes ''^C'' @ [0x0D, 0x0A])
      else if c = 0x0D \<or> c = 0x0A then ([], l @ [0x0A], [0x0D, 0x0A])
      else if c = 0x09 then (if length l < LINE_MAX then l @ [c] else l, [], [c])
      else if c = 0x1B \<or> c < 0x20 then (l, [], [])
      else if length l < LINE_MAX then (l @ [c], [], [c]) else (l, [], []))"

primrec ld_run :: "u8 list \<Rightarrow> u8 list \<Rightarrow> u8 list \<times> u8 list \<times> u8 list" where
  "ld_run [] l = (l, [], [])"
| "ld_run (c # cs) l =
     (let (l1, o1, e1) = ld_step c l; (l2, o2, e2) = ld_run cs l1 in (l2, o1 @ o2, e1 @ e2))"

text \<open>The bytes the serial port sends for a written sequence.\<close>
definition sent :: "u8 list \<Rightarrow> u8 list" where
  "sent bs = concat (map (\<lambda>b. if b = 0x0A then [b, 0x0D] else [b]) bs)"

lemma serial_write_out: "k_serial_out (serial_write bs k) = k_serial_out k @ sent bs"
  by (induction bs arbitrary: k) (simp_all add: putchar_def sent_def)

subsection \<open>Pushing completed bytes\<close>

definition wake :: "process \<Rightarrow> process" where
  "wake p = (if p_state p = Blocked then p\<lparr>p_state := Ready\<rparr> else p)"

lemma p_pid_wake [simp]: "p_pid (wake p) = p_pid p"
  by (simp add: wake_def)

lemma set_tty_simps [simp]:
  "k_tty (set_tty f k) = f (k_tty k)" "k_procs (set_tty f k) = k_procs k"
  "k_serial_out (set_tty f k) = k_serial_out k" "k_cur (set_tty f k) = k_cur k"
  "k_should_schedule (set_tty f k) = k_should_schedule k" "k_serial_in (set_tty f k) = k_serial_in k"
  by (simp_all add: set_tty_def)

lemma wake_reader_tty [simp]:
  "k_tty (wake_reader q k) = k_tty k" "k_serial_out (wake_reader q k) = k_serial_out k"
  "k_cur (wake_reader q k) = k_cur k" "k_serial_in (wake_reader q k) = k_serial_in k"
  by (simp_all add: wake_reader_def set_schedule_def split: option.split)

lemma wake_reader_slots: "k_slots (wake_reader q k) = upd_process q wake (k_slots k)"
proof (cases "process_mut_if q (k_slots k)")
  case None
  then show ?thesis using upd_process_same [of q "k_slots k" wake] by (simp add: wake_reader_def)
next
  case (Some p)
  then show ?thesis
    by (cases "p_state p = Blocked")
      (auto simp: wake_reader_def set_schedule_def wake_def
        intro!: upd_process_cong upd_process_same [symmetric])
qed

lemma push_byte_tty [simp]:
  "k_tty (push_byte b k) = (tty_put b (k_tty k))\<lparr>tty_waiting_pid := 0\<rparr>"
  "k_serial_out (push_byte b k) = k_serial_out k" "k_cur (push_byte b k) = k_cur k"
  "k_serial_in (push_byte b k) = k_serial_in k"
  by (simp_all add: push_byte_def Let_def)

lemma upd_process_0: "slots_inv ss \<Longrightarrow> upd_process 0 f ss = ss"
  by (rule upd_process_same) (simp add: slots_inv_def process_mut_if_None [symmetric])

lemma push_byte_slots:
  "slots_inv (k_slots k) \<Longrightarrow>
   k_slots (push_byte b k) = upd_process (tty_waiting_pid (k_tty k)) wake (k_slots k)"
  by (simp add: push_byte_def Let_def wake_reader_slots upd_process_0)

lemma push_byte_schedule:
  "k_should_schedule (push_byte b k) \<longleftrightarrow> k_should_schedule k \<or>
     (tty_waiting_pid (k_tty k) \<noteq> 0 \<and>
      (\<exists>p. process_mut_if (tty_waiting_pid (k_tty k)) (k_slots k) = Some p \<and> p_state p = Blocked))"
  by (auto simp: push_byte_def Let_def wake_reader_def set_schedule_def split: option.split)

lemma tty_put_waiting: "tty_put b (t\<lparr>tty_waiting_pid := w\<rparr>) = (tty_put b t)\<lparr>tty_waiting_pid := w\<rparr>"
  by (simp add: tty_put_def Let_def)

lemma fold_push_byte_tty:
  "bs \<noteq> [] \<Longrightarrow> k_tty (fold push_byte bs k) = (fold tty_put bs (k_tty k))\<lparr>tty_waiting_pid := 0\<rparr>"
proof (induction bs arbitrary: k)
  case (Cons b bs)
  have put: "fold tty_put bs (t\<lparr>tty_waiting_pid := 0\<rparr>) = (fold tty_put bs t)\<lparr>tty_waiting_pid := 0\<rparr>" for bs t
    by (induction bs arbitrary: t) (simp_all add: tty_put_waiting)
  show ?case using Cons by (cases "bs = []") (simp_all add: put)
qed simp

lemma fold_push_byte_out [simp]:
  "k_serial_out (fold push_byte bs k) = k_serial_out k" "k_cur (fold push_byte bs k) = k_cur k"
  "k_serial_in (fold push_byte bs k) = k_serial_in k"
  by (induction bs arbitrary: k) simp_all

lemma fold_push_byte_slots:
  "slots_inv (k_slots k) \<Longrightarrow> bs \<noteq> [] \<Longrightarrow>
   k_slots (fold push_byte bs k) = upd_process (tty_waiting_pid (k_tty k)) wake (k_slots k)"
proof (induction bs arbitrary: k)
  case (Cons b bs)
  have s: "k_slots (push_byte b k) = upd_process (tty_waiting_pid (k_tty k)) wake (k_slots k)"
    by (rule push_byte_slots [OF Cons.prems(1)])
  then have inv: "slots_inv (k_slots (push_byte b k))" using Cons.prems(1) by (simp add: slots_inv_upd)
  show ?case
  proof (cases "bs = []")
    case False
    then show ?thesis using Cons.IH [OF inv] inv s by (simp add: upd_process_0)
  qed (simp add: s)
qed simp

subsection \<open>One byte\<close>

lemma echo_simps [simp]:
  "k_tty (echo bs k) = k_tty k" "k_procs (echo bs k) = k_procs k" "k_cur (echo bs k) = k_cur k"
  "k_serial_in (echo bs k) = k_serial_in k"
  "k_should_schedule (echo bs k) = k_should_schedule k"
  by (simp_all add: echo_def)

lemma echo_out: "k_serial_out (echo bs k) = k_serial_out k @ (if tty_echo (k_tty k) then sent bs else [])"
  by (simp add: echo_def serial_write_out)

lemma tty_typed_fields [simp]:
  "tty_typed (t\<lparr>tty_waiting_pid := w\<rparr>) = tty_typed t" "tty_typed (t\<lparr>tty_line_len := 0\<rparr>) = []"
  "tty_inv (t\<lparr>tty_waiting_pid := w\<rparr>) = tty_inv t"
  by (simp_all add: tty_typed_def tty_inv_def)

lemma length_tty_typed [simp]: "tty_inv t \<Longrightarrow> length (tty_typed t) = tty_line_len t"
  by (simp add: tty_typed_def tty_inv_def)

lemma line_append_typed:
  "tty_inv t \<Longrightarrow> tty_line_len t < LINE_MAX \<Longrightarrow>
   tty_typed (line_append c t) = tty_typed t @ [c] \<and> tty_inv (line_append c t)"
  by (auto simp: tty_typed_def line_append_def tty_inv_def take_Suc_conv_app_nth)

lemma line_append_fields [simp]:
  "tty_contents (line_append c t) = tty_contents t" "tty_echo (line_append c t) = tty_echo t"
  "tty_canonical (line_append c t) = tty_canonical t"
  "tty_waiting_pid (line_append c t) = tty_waiting_pid t"
  by (simp_all add: line_append_def tty_contents_def)

lemma line_drop_typed:
  "tty_inv t \<Longrightarrow> tty_typed (t\<lparr>tty_line_len := tty_line_len t - 1\<rparr>) = butlast (tty_typed t) \<and>
   tty_inv (t\<lparr>tty_line_len := tty_line_len t - 1\<rparr>)"
  by (auto simp: tty_typed_def tty_inv_def butlast_take)

lemma tty_inv_clear: "tty_inv t \<Longrightarrow> tty_inv (t\<lparr>tty_line_len := 0\<rparr>)"
  by (simp add: tty_inv_def)

lemma fold_tty_put:
  assumes "tty_inv t"
  shows "tty_inv (fold tty_put bs t)" "tty_contents (fold tty_put bs t) = take 4095 (tty_contents t @ bs)"
    "tty_typed (fold tty_put bs t) = tty_typed t" "tty_echo (fold tty_put bs t) = tty_echo t"
    "tty_canonical (fold tty_put bs t) = tty_canonical t"
    "tty_line (fold tty_put bs t) = tty_line t" "tty_line_len (fold tty_put bs t) = tty_line_len t"
proof -
  show "tty_inv (fold tty_put bs t)" "tty_contents (fold tty_put bs t) = take 4095 (tty_contents t @ bs)"
    using ttyq.pushes_contents [OF assms, of bs] by (simp_all add: TTY_BUF_SIZE_def)
  show "tty_typed (fold tty_put bs t) = tty_typed t" "tty_echo (fold tty_put bs t) = tty_echo t"
    "tty_canonical (fold tty_put bs t) = tty_canonical t"
    "tty_line (fold tty_put bs t) = tty_line t" "tty_line_len (fold tty_put bs t) = tty_line_len t"
    by (induction bs arbitrary: t) simp_all
qed

lemma tty_contents_short: "tty_inv t \<Longrightarrow> take 4095 (tty_contents t) = tty_contents t"
  using ttyq.contents_bounded [of t] by (simp add: TTY_BUF_SIZE_def)

lemma handle_enter_eq:
  "handle_enter k = set_tty (\<lambda>t. t\<lparr>tty_line_len := 0\<rparr>)
     (fold push_byte (map ((!) (tty_line (k_tty k))) [0..<tty_line_len (k_tty k)] @ [0x0A]) (echo [0x0D, 0x0A] k))"
  by (simp add: handle_enter_def Let_def)

lemma typed_map: "tty_inv t \<Longrightarrow> map ((!) (tty_line t)) [0..<tty_line_len t] = tty_typed t"
  by (auto simp: tty_typed_def tty_inv_def intro!: nth_equalityI)

definition tty_agrees :: "kernel \<Rightarrow> kernel \<Rightarrow> u8 list \<times> u8 list \<times> u8 list \<Rightarrow> bool" where
  "tty_agrees k k' r \<longleftrightarrow> (case r of (l, out, e) \<Rightarrow>
     tty_inv (k_tty k') \<and> tty_canonical (k_tty k') = tty_canonical (k_tty k) \<and>
     tty_echo (k_tty k') = tty_echo (k_tty k) \<and> tty_typed (k_tty k') = l \<and>
     tty_contents (k_tty k') = take 4095 (tty_contents (k_tty k) @ out) \<and>
     k_serial_out k' = k_serial_out k @ (if tty_echo (k_tty k) then sent e else []))"

lemma handle_enter_ld:
  "tty_inv (k_tty k) \<Longrightarrow> tty_agrees k (handle_enter k) ([], tty_typed (k_tty k) @ [0x0A], [0x0D, 0x0A])"
  unfolding handle_enter_eq typed_map
  by (simp add: tty_agrees_def fold_push_byte_tty fold_tty_put tty_inv_clear echo_out
      del: fold_append fold_simps)

lemma handle_ctrlc_ld:
  "tty_inv (k_tty k) \<Longrightarrow> tty_agrees k (handle_ctrlc k) ([], [0x0A], bytes ''^C'' @ [0x0D, 0x0A])"
  using fold_tty_put [of "(k_tty k)\<lparr>tty_line_len := 0\<rparr>" "[0x0A]"]
  by (auto simp: tty_agrees_def handle_ctrlc_def Let_def tty_inv_clear echo_out tty_put_waiting split: option.split)

lemma process_byte_ld:
  assumes "tty_inv (k_tty k)" "tty_canonical (k_tty k)"
  shows "tty_agrees k (process_byte c k) (ld_step c (tty_typed (k_tty k)))"
proof -
  note can = assms(2) and inv = assms(1)
  have len: "length (tty_typed (k_tty k)) = tty_line_len (k_tty k)" using inv by simp
  consider "c = 0x08 \<or> c = 0x7F" | "c = 0x03" | "c = 0x0D \<or> c = 0x0A" | "c = 0x09" | "c = 0x1B \<or> c < 0x20"
    and "c \<notin> {0x08, 0x03, 0x0D, 0x0A, 0x09}"
    | "c \<notin> {0x08, 0x7F, 0x03, 0x0D, 0x0A, 0x09, 0x1B}" "c \<ge> 0x20" by fastforce
  then show ?thesis
  proof cases
    case 1
    then have pb: "process_byte c k = handle_backspace k" and
      ld: "ld_step c (tty_typed (k_tty k)) = (butlast (tty_typed (k_tty k)), [],
             if tty_line_len (k_tty k) = 0 then [] else [0x08, 0x20, 0x08])"
      using can by (auto simp: process_byte_def ld_step_def len [symmetric])
    show ?thesis
    proof (cases "tty_line_len (k_tty k) = 0")
      case True
      then have "tty_typed (k_tty k) = []" using len by (metis length_0_conv)
      then show ?thesis using True inv tty_contents_short [OF inv] unfolding pb ld
        by (simp add: tty_agrees_def handle_backspace_def sent_def)
    next
      case False
      then show ?thesis using inv line_drop_typed [OF inv] tty_contents_short [OF inv] unfolding pb ld
        by (simp add: tty_agrees_def handle_backspace_def echo_out)
    qed
  next
    case 2
    then show ?thesis using handle_ctrlc_ld [OF inv] can by (simp add: process_byte_def ld_step_def)
  next
    case 3
    then show ?thesis using handle_enter_ld [OF inv] can by (auto simp: process_byte_def ld_step_def)
  next
    case 4
    then show ?thesis
      using inv line_append_typed [OF inv, of 9] can tty_contents_short [OF inv] len
      by (auto simp: tty_agrees_def process_byte_def ld_step_def handle_tab_def Let_def echo_out)
  next
    case 5
    then have "process_byte c k = k" "ld_step c (tty_typed (k_tty k)) = (tty_typed (k_tty k), [], [])"
      using can by (auto simp: process_byte_def ld_step_def)
    then show ?thesis using inv tty_contents_short [OF inv] by (simp add: tty_agrees_def sent_def)
  next
    case 6
    then have pb: "process_byte c k = handle_char c k" and
      ld: "ld_step c (tty_typed (k_tty k)) = (if tty_line_len (k_tty k) < LINE_MAX
             then (tty_typed (k_tty k) @ [c], [], [c]) else (tty_typed (k_tty k), [], []))"
      using can len by (auto simp: process_byte_def ld_step_def)
    show ?thesis
      using inv line_append_typed [OF inv, of c] tty_contents_short [OF inv] unfolding pb ld
      by (auto simp: tty_agrees_def handle_char_def echo_out sent_def)
  qed
qed

lemma tty_agrees_trans:
  assumes "tty_agrees k k1 (l1, o1, e1)" "tty_agrees k1 k2 (l2, o2, e2)"
  shows "tty_agrees k k2 (l2, o1 @ o2, e1 @ e2)"
proof -
  have "take 4095 (take 4095 (xs @ o1) @ o2) = take 4095 (xs @ o1 @ o2)" for xs :: "u8 list"
    by (simp add: take_append min_def)
  then show ?thesis using assms by (simp add: tty_agrees_def sent_def)
qed

lemma ld_run_append:
  "ld_run (as @ bs) l =
     (let (l1, o1, e1) = ld_run as l; (l2, o2, e2) = ld_run bs l1 in (l2, o1 @ o2, e1 @ e2))"
  by (induction as arbitrary: l) (simp_all add: Let_def split: prod.splits)

lemma process_bytes_ld:
  "tty_inv (k_tty k) \<Longrightarrow> tty_canonical (k_tty k) \<Longrightarrow>
   tty_agrees k (fold process_byte cs k) (ld_run cs (tty_typed (k_tty k)))"
proof (induction cs arbitrary: k)
  case Nil
  then show ?case using tty_contents_short [of "k_tty k"] by (simp add: tty_agrees_def sent_def)
next
  case (Cons c cs)
  obtain l1 o1 e1 where s1: "ld_step c (tty_typed (k_tty k)) = (l1, o1, e1)"
    by (metis prod_cases3)
  have a1: "tty_agrees k (process_byte c k) (l1, o1, e1)"
    using process_byte_ld [OF Cons.prems, of c] s1 by simp
  obtain l2 o2 e2 where s2: "ld_run cs l1 = (l2, o2, e2)" by (metis prod_cases3)
  have "tty_agrees (process_byte c k) (fold process_byte cs (process_byte c k)) (l2, o2, e2)"
    using Cons.IH [of "process_byte c k"] a1 Cons.prems s2 by (simp add: tty_agrees_def)
  then show ?case using tty_agrees_trans [OF a1] s1 s2 by simp
qed

subsection \<open>Wake-ups\<close>

definition completes :: "kernel \<Rightarrow> u8 \<Rightarrow> bool" where
  "completes k c \<longleftrightarrow> \<not> tty_canonical (k_tty k) \<or> c = 0x03 \<or> c = 0x0D \<or> c = 0x0A"

text \<open>What the input byte \<open>c\<close> does to the process waiting for input.\<close>
definition wake_by :: "kernel \<Rightarrow> u8 \<Rightarrow> process \<Rightarrow> process" where
  "wake_by k c p =
     (if p_state p = Blocked
      then p\<lparr>p_state := Ready,
             p_sig_pending := if tty_canonical (k_tty k) \<and> c = 0x03
                              then p_sig_pending p OR push_bit SIGINT 1 else p_sig_pending p\<rparr>
      else p)"

lemma p_pid_wake_by [simp]: "p_pid (wake_by k c p) = p_pid p"
  by (simp add: wake_by_def)

lemma wake_by_plain: "\<not> tty_canonical (k_tty k) \<or> c \<noteq> 0x03 \<Longrightarrow> wake_by k c = wake"
  by (auto simp: wake_by_def wake_def fun_eq_iff)

lemma handle_ctrlc_slots:
  assumes inv: "slots_inv (k_slots k)" and can: "tty_canonical (k_tty k)"
  shows "k_slots (handle_ctrlc k) = upd_process (tty_waiting_pid (k_tty k)) (wake_by k 0x03) (k_slots k)"
proof -
  let ?w = "tty_waiting_pid (k_tty k)" and ?ss = "k_slots k"
  show ?thesis
  proof (cases "process_mut_if ?w ?ss")
    case None
    have "k_slots (handle_ctrlc k) = ?ss"
      using None inv by (simp add: handle_ctrlc_def Let_def push_byte_slots upd_process_0)
    then show ?thesis using None upd_process_same [of ?w ?ss "wake_by k 0x03"] by simp
  next
    case (Some p)
    then have w: "?w \<noteq> 0" using inv by (auto simp: slots_inv_def process_mut_if_None [symmetric])
    show ?thesis
    proof (cases "p_state p = Blocked")
      case False
      then have "k_slots (handle_ctrlc k) = ?ss"
        using Some inv w by (simp add: handle_ctrlc_def Let_def push_byte_slots upd_process_0)
      moreover have "upd_process ?w (wake_by k 0x03) ?ss = ?ss"
        using Some False by (intro upd_process_same) (simp add: wake_by_def)
      ultimately show ?thesis by simp
    next
      case True
      let ?int = "\<lambda>p. p\<lparr>p_sig_pending := p_sig_pending p OR push_bit SIGINT 1\<rparr>"
      have "k_slots (handle_ctrlc k) = upd_process ?w wake (upd_process ?w ?int ?ss)"
        using Some True inv w
        by (simp add: handle_ctrlc_def Let_def push_byte_slots slots_inv_upd)
      also have "\<dots> = upd_process ?w (wake_by k 0x03) ?ss"
        using Some True can by (simp add: upd_process_twice) (rule upd_process_cong, simp add: wake_def wake_by_def)
      finally show ?thesis .
    qed
  qed
qed

lemma process_byte_slots:
  assumes inv: "slots_inv (k_slots k)"
  shows "k_slots (process_byte c k) =
    (if completes k c then upd_process (tty_waiting_pid (k_tty k)) (wake_by k c) (k_slots k) else k_slots k)"
proof (cases "tty_canonical (k_tty k)")
  case False
  then show ?thesis using push_byte_slots [OF inv] by (simp add: process_byte_def completes_def wake_by_plain)
next
  case True
  have enter: "k_slots (handle_enter k) = upd_process (tty_waiting_pid (k_tty k)) wake (k_slots k)"
    unfolding handle_enter_eq by (simp add: fold_push_byte_slots inv del: fold_append fold_simps)
  have [simp]: "k_procs (handle_backspace k) = k_procs k" "k_procs (handle_tab k) = k_procs k"
    "k_procs (handle_char c k) = k_procs k"
    by (simp_all add: handle_backspace_def handle_tab_def handle_char_def Let_def)
  show ?thesis
    using True enter handle_ctrlc_slots [OF inv True]
    by (auto simp: process_byte_def completes_def wake_by_plain)
qed

lemma process_byte_cur [simp]:
  "k_cur (process_byte c k) = k_cur k" "k_serial_in (process_byte c k) = k_serial_in k"
  by (auto simp: process_byte_def handle_backspace_def handle_tab_def handle_char_def handle_ctrlc_def
      handle_enter_eq Let_def simp del: fold_append fold_simps split: option.split)

lemma fold_process_byte_cur [simp]: "k_cur (fold process_byte cs k) = k_cur k"
  by (induction cs arbitrary: k) simp_all

lemma process_byte_inv:
  "tty_inv (k_tty k) \<Longrightarrow> tty_inv (k_tty (process_byte c k)) \<and>
   tty_canonical (k_tty (process_byte c k)) = tty_canonical (k_tty k)"
  using process_byte_ld [of k c] ttyq.inv_push [of "k_tty k" c]
  by (cases "tty_canonical (k_tty k)") (auto simp: tty_agrees_def process_byte_def split: prod.splits)

lemma process_bytes_inv [wf_intros]:
  "tty_inv (k_tty k) \<Longrightarrow> slots_inv (k_slots k) \<Longrightarrow>
   tty_inv (k_tty (fold process_byte cs k)) \<and> slots_inv (k_slots (fold process_byte cs k)) \<and>
   tty_canonical (k_tty (fold process_byte cs k)) = tty_canonical (k_tty k)"
proof (induction cs arbitrary: k)
  case (Cons c cs)
  have "slots_inv (k_slots (process_byte c k))"
    using Cons.prems by (simp add: process_byte_slots slots_inv_upd)
  then show ?case using Cons.IH [of "process_byte c k"] process_byte_inv [OF Cons.prems(1)] by simp
qed simp

lemma process_input_eq:
  "process_input k =
     (let k1 = fold process_byte (fst (kbd_read 64 (k_kbd k))) (k\<lparr>k_kbd := snd (kbd_read 64 (k_kbd k))\<rparr>)
      in fold process_byte (take 64 (k_serial_in k1)) (k1\<lparr>k_serial_in := drop 64 (k_serial_in k1)\<rparr>))"
  by (simp add: process_input_def serial_read_def Let_def split: prod.split)

lemma process_input_cur [simp]: "k_cur (process_input k) = k_cur k"
  by (simp add: process_input_eq Let_def)

lemma process_input_inv [wf_intros]:
  "tty_inv (k_tty k) \<Longrightarrow> slots_inv (k_slots k) \<Longrightarrow>
   tty_inv (k_tty (process_input k)) \<and> slots_inv (k_slots (process_input k)) \<and>
   tty_canonical (k_tty (process_input k)) = tty_canonical (k_tty k)"
  unfolding process_input_eq Let_def by (simp add: process_bytes_inv)

lemma fold_process_byte_serial_in [simp]: "k_serial_in (fold process_byte cs k) = k_serial_in k"
  by (induction cs arbitrary: k) simp_all

lemma tty_empty_iff: "tty_inv t \<Longrightarrow> tty_tail t = tty_head t \<longleftrightarrow> tty_contents t = []"
  using ttyq.pop_None_iff [of t] by (auto simp: tty_pop_def split: if_splits)

text \<open>A read that finds nothing blocks the caller.\<close>

lemma tty_read_blocks:
  assumes inv: "tty_inv (k_tty k)" "slots_inv (k_slots k)" and p: "process_mut (k_cur k) k = Some p"
    and r: "tty_read_bytes len k = Some ([], k1)" "0 < len"
  shows "tty_waiting_pid (k_tty k1) = k_cur k \<and> k_cur k1 = k_cur k \<and> k_should_schedule k1 \<and>
    tty_inv (k_tty k1) \<and> slots_inv (k_slots k1) \<and> tty_contents (k_tty k1) = [] \<and>
    (\<exists>p1. process_mut_if (k_cur k) (k_slots k1) = Some p1 \<and> p_state p1 = Blocked)"
proof -
  let ?k = "process_input k"
  note inv' = process_input_inv [OF inv]
  have c0: "k_cur k \<noteq> 0"
    using p inv(2) by (auto simp: process_mut_def slots_inv_def process_mut_if_None [symmetric])
  have empty: "tty_tail (k_tty ?k) = tty_head (k_tty ?k)"
  proof (rule ccontr)
    assume ne: "tty_tail (k_tty ?k) \<noteq> tty_head (k_tty ?k)"
    then obtain t where t: "drain tty_pop len (k_tty ?k) = ([], t)"
      using r(1) by (auto simp: tty_read_bytes_def Let_def split: prod.splits)
    have "take len (tty_contents (k_tty ?k)) = []"
      using ttyq.drain_contents [OF _ t] inv' by simp
    then show False using ne r(2) tty_empty_iff [of "k_tty ?k"] inv' by simp
  qed
  then obtain p1 where p1: "process_mut (k_cur k) ?k = Some p1"
    and k1: "k1 = set_schedule (set_tty (\<lambda>t. t\<lparr>tty_waiting_pid := k_cur k\<rparr>)
                    (set_process (k_cur k) (\<lambda>p. p\<lparr>p_state := Blocked\<rparr>) ?k))"
    using r(1) c0 by (auto simp: tty_read_bytes_def Let_def split: option.splits)
  have t: "tty_contents (k_tty ?k) = []" using empty tty_empty_iff inv' by blast
  have m: "process_mut_if (k_cur k) (k_slots k1) = Some (p1\<lparr>p_state := Blocked\<rparr>)"
    using p1 by (simp add: k1 set_schedule_def table.get_upd process_mut_def)
  show ?thesis
    using inv' t m by (auto simp: k1 set_schedule_def slots_inv_upd)
qed

lemma process_byte_contents:
  assumes "tty_inv (k_tty k)" "completes k c"
  shows "tty_contents (k_tty (process_byte c k)) \<noteq> []"
proof (cases "tty_canonical (k_tty k)")
  case True
  obtain l out e where ld: "ld_step c (tty_typed (k_tty k)) = (l, out, e)" by (metis prod_cases3)
  then have "out \<noteq> []" using True assms(2) by (auto simp: ld_step_def completes_def)
  then show ?thesis using process_byte_ld [OF assms(1) True, of c] ld by (auto simp: tty_agrees_def)
next
  case False
  then show ?thesis
    using ttyq.push_contents [OF assms(1), of c] by (auto simp: process_byte_def TTY_BUF_SIZE_def)
qed

lemma process_byte_schedule:
  assumes inv: "slots_inv (k_slots k)" "k_should_schedule k"
  shows "k_should_schedule (process_byte c k)"
proof -
  have "k_should_schedule (fold push_byte bs k')" if "k_should_schedule k'" for bs k'
    using that by (induction bs arbitrary: k') (simp_all add: push_byte_schedule)
  then show ?thesis
    using assms(2) by (auto simp: process_byte_def handle_backspace_def handle_tab_def handle_char_def
        handle_ctrlc_def handle_enter_eq Let_def push_byte_schedule
        simp del: fold_append fold_simps split: option.split)
qed

subsection \<open>Properties\<close>

text \<open>C6. The line discipline.  Polling the input devices in canonical mode takes up to 64
  bytes from the keyboard and then up to 64 from the serial line, and processes them
  exactly as the specification does: backspace removes the last byte of the line,
  Ctrl+C discards it, Enter completes it, other control bytes but Tab are dropped, and
  a line never exceeds 255 bytes.  Completed lines are appended to the readable input
  in order, cut at the 4095 bytes the ring holds, and the echo is what the
  specification says.\<close>

theorem tty_line_discipline:
  assumes "tty_inv (k_tty k)" "kbd_inv (k_kbd k)" "tty_canonical (k_tty k)"
  shows "tty_agrees k (process_input k)
           (ld_run (take 64 (kbd_contents (k_kbd k)) @ take 64 (k_serial_in k)) (tty_typed (k_tty k)))"
proof -
  obtain bs kbd where r: "kbd_read 64 (k_kbd k) = (bs, kbd)" by (cases "kbd_read 64 (k_kbd k)")
  have bs: "bs = take 64 (kbd_contents (k_kbd k))"
    using kbd.drain_contents [OF assms(2)] r by (simp add: kbd_read_def)
  let ?k1 = "fold process_byte bs (k\<lparr>k_kbd := kbd\<rparr>)"
  let ?k2 = "?k1\<lparr>k_serial_in := drop 64 (k_serial_in k)\<rparr>"
  obtain l1 o1 e1 where s1: "ld_run bs (tty_typed (k_tty k)) = (l1, o1, e1)" by (metis prod_cases3)
  obtain l2 o2 e2 where s2: "ld_run (take 64 (k_serial_in k)) l1 = (l2, o2, e2)" by (metis prod_cases3)
  have a1: "tty_agrees k ?k2 (l1, o1, e1)"
    using process_bytes_ld [of "k\<lparr>k_kbd := kbd\<rparr>" bs] assms s1 by (simp add: tty_agrees_def)
  then have "tty_inv (k_tty ?k2)" "tty_canonical (k_tty ?k2)" "tty_typed (k_tty ?k2) = l1"
    using assms(3) by (simp_all add: tty_agrees_def)
  then have "tty_agrees ?k2 (fold process_byte (take 64 (k_serial_in k)) ?k2) (l2, o2, e2)"
    using process_bytes_ld [of ?k2 "take 64 (k_serial_in k)"] s2 by simp
  then have "tty_agrees k (fold process_byte (take 64 (k_serial_in k)) ?k2) (l2, o1 @ o2, e1 @ e2)"
    by (rule tty_agrees_trans [OF a1])
  then show ?thesis
    by (simp add: process_input_eq Let_def r bs [symmetric] ld_run_append s1 s2)
qed

theorem tty_line_discipline_witness:
  "tty_agrees ((kernel0 [])\<lparr>k_serial_in := bytes ''lx'' @ [0x7F, 0x73, 0x0D]\<rparr>)
     (process_input ((kernel0 [])\<lparr>k_serial_in := bytes ''lx'' @ [0x7F, 0x73, 0x0D]\<rparr>))
     ([], bytes ''ls'' @ [0x0A], bytes ''lx'' @ [0x08, 0x20, 0x08, 0x73, 0x0D, 0x0A])"
proof -
  let ?k = "(kernel0 [])\<lparr>k_serial_in := bytes ''lx'' @ [0x7F, 0x73, 0x0D]\<rparr>"
  have "tty_inv (k_tty ?k)" "kbd_inv (k_kbd ?k)" "tty_canonical (k_tty ?k)"
    using tty_inv_new kbd_inv_new by (simp_all add: kernel0_def) (simp add: tty_new_def)
  moreover have "ld_run (take 64 (kbd_contents (k_kbd ?k)) @ take 64 (k_serial_in ?k)) (tty_typed (k_tty ?k))
      = ([], bytes ''ls'' @ [0x0A], bytes ''lx'' @ [0x08, 0x20, 0x08, 0x73, 0x0D, 0x0A])"
    by (simp add: kernel0_def kbd_contents_new tty_inv_new bytes_def ld_step_def LINE_MAX_def)
  ultimately show ?thesis using tty_line_discipline [of ?k] by simp
qed

text \<open>C29. Who is woken, and how.  A byte that completes input (any byte in raw mode; Enter
  and Ctrl+C in canonical mode) makes the recorded reader Ready if it is Blocked,
  with SIGINT pending when the byte is Ctrl+C; no other process changes, and a byte
  that completes nothing changes no process.\<close>

theorem tty_wakes_only_the_reader:
  assumes "slots_inv (k_slots k)"
  shows "process_mut_if q (k_slots (process_byte c k)) =
    (if completes k c \<and> q = tty_waiting_pid (k_tty k)
     then map_option (wake_by k c) (process_mut_if q (k_slots k))
     else process_mut_if q (k_slots k))"
  by (auto simp: process_byte_slots [OF assms] table.get_upd)

theorem tty_wakes_only_the_reader_witness:
  "process_mut_if 1 (k_slots (process_byte 0x03
       ((kernel0 [blank_process 1 Blocked])\<lparr>k_tty := tty_new\<lparr>tty_waiting_pid := 1\<rparr>\<rparr>)))
     = Some ((blank_process 1 Ready)\<lparr>p_sig_pending := 4\<rparr>)"
proof -
  let ?k = "(kernel0 [blank_process 1 Blocked])\<lparr>k_tty := tty_new\<lparr>tty_waiting_pid := 1\<rparr>\<rparr>"
  have inv: "slots_inv (k_slots ?k)"
    by (simp add: kernel0_def) (rule slots_inv_slots_of, simp_all add: MAX_PROCS_def blank_process_def)
  have p: "process_mut_if 1 (k_slots ?k) = Some (blank_process 1 Blocked)"
    using process_mut_if_Some [OF inv] by (simp add: kernel0_def slots_of_def blank_process_def)
  have c: "completes ?k 3" "tty_canonical (k_tty ?k)" "tty_waiting_pid (k_tty ?k) = 1"
    by (simp_all add: completes_def tty_new_def)
  show ?thesis
    using tty_wakes_only_the_reader [OF inv, of 1 3] p c
    by (simp add: wake_by_def blank_process_def SIGINT_def push_bit_eq_mult)
qed



end
