(* ===== verification/Fs.thy ===== *)
theory Fs imports Tty begin

text \<open>The file systems behind the VFS: the device file system (\<open>vfs/devfs.rs\<close>), the root
  directory skeleton (\<open>vfs/rootfs.rs\<close>) and the vnodes of the initial RAM file system
  (\<open>vfs/initramfs.rs\<close>).\<close>

subsection \<open>devfs\<close>

datatype dev_id = DevNull | DevZero | DevTtyS0

text \<open>\<open>dev_id\<close>: only the device numbers 0 and 1 reach it; everything else reads as null.\<close>
definition dev_id_of :: "vdata \<Rightarrow> dev_id" where
  "dev_id_of d = (if d = Data_Dev 1 then DevZero else DevNull)"

fun devfs_get_vnode :: "dev_id \<Rightarrow> vref" where
  "devfs_get_vnode DevNull = DEV_NULL_VNODE"
| "devfs_get_vnode DevZero = DEV_ZERO_VNODE"
| "devfs_get_vnode DevTtyS0 = DEV_TTYS0_VNODE"

definition devfs_read :: "vdata \<Rightarrow> u64 \<Rightarrow> nat \<Rightarrow> kernel \<Rightarrow> (int \<times> kernel) option" where
  "devfs_read d buf len k =
     (case dev_id_of d of
        DevZero \<Rightarrow> do { k \<leftarrow> user_store buf (replicate len 0) k; Some (int len, k) }
      | _ \<Rightarrow> Some (0, k))"

definition devfs_write :: "nat \<Rightarrow> kernel \<Rightarrow> (int \<times> kernel) option" where
  "devfs_write len k = Some (int len, k)"

definition devfs_lseek :: "u64 \<Rightarrow> u32 \<Rightarrow> int" where
  "devfs_lseek offset whence = (if whence = 0 \<or> whence = 1 then sint offset else - EINVAL)"

text \<open>A directory entry as the readdir operations fill it; the type byte is the low byte
  of the mode bits.\<close>
definition mk_dirent :: "u64 \<Rightarrow> u16 \<Rightarrow> string \<Rightarrow> dirent" where
  "mk_dirent ino mode name = \<lparr>d_ino = ino, d_off = 0, d_reclen = of_nat DIRENT_SIZE,
     d_type = ucast mode, d_name = pad_name (bytes name)\<rparr>"

definition devfs_readdir :: "nat \<Rightarrow> dirent option" where
  "devfs_readdir index =
     (if index = 0 then Some (mk_dirent 1 V_DIR ''.'')
      else if index = 1 then Some (mk_dirent 2 V_DIR ''..'')
      else if index = 2 then Some (mk_dirent 3 V_CHR ''null'')
      else if index = 3 then Some (mk_dirent 4 V_CHR ''zero'')
      else if index = 4 then Some (mk_dirent 5 V_CHR ''ttyS0'')
      else None)"

definition devfs_ioctl :: int where "devfs_ioctl = - ENOTTY"

definition devfs_lookup :: "u8 list \<Rightarrow> chardev_table \<Rightarrow> vref option" where
  "devfs_lookup name t =
     (case chardev_find name t of
        None \<Rightarrow> None
      | Some d \<Rightarrow> if d = 0 then Some (devfs_get_vnode DevNull)
                  else if d = 1 then Some (devfs_get_vnode DevZero)
                  else if d = 2 then Some (devfs_get_vnode DevTtyS0) else None)"

definition devfs_init :: "kernel \<Rightarrow> vref \<times> kernel" where
  "devfs_init k =
     (let dev = (\<lambda>ops ino d. \<lparr>vn_ops = ops, vn_mode = V_CHR OR 0x1B6, vn_ino = ino, vn_size = 0,
                   vn_fs_type = DevFS, vn_data = Data_Dev d, vn_mount = None\<rparr>);
          k = set_vnode DEV_NULL_VNODE (dev DEVFS_OPS 1 0) k;
          k = set_vnode DEV_ZERO_VNODE (dev DEVFS_OPS 2 1) k;
          k = set_vnode DEV_TTYS0_VNODE (dev TTY_OPS 3 2) k;
          k = set_vnode DEVFS_ROOT \<lparr>vn_ops = DEVFS_DIR_OPS, vn_mode = V_DIR OR 0x1ED, vn_ino = 0,
                vn_size = 0, vn_fs_type = DevFS, vn_data = Data_Null, vn_mount = None\<rparr> k;
          t = snd (register_chardev (bytes ''null'') 0 (k_chardevs k));
          t = snd (register_chardev (bytes ''zero'') 1 t);
          t = snd (register_chardev (bytes ''ttyS0'') 2 t)
      in (DEVFS_ROOT, k\<lparr>k_chardevs := t\<rparr>))"

subsection \<open>initramfs\<close>

definition VNODE_SIZE :: u64 where "VNODE_SIZE = 56"
definition ENTRY_SIZE :: u64 where "ENTRY_SIZE = 32"

text \<open>\<open>initramfs_embed\<close> calls it with the archive that the build links in.\<close>
definition initramfs_set_archive :: "u8 list \<Rightarrow> kernel \<Rightarrow> kernel" where
  [simp]: "initramfs_set_archive data k = k\<lparr>k_archive := data\<rparr>"

definition initramfs_init :: "kernel \<Rightarrow> kernel option" where
  "initramfs_init k =
     (let arc = k_archive k in
      if length arc < USTAR_BLOCK_SIZE then Some (k\<lparr>k_entries := []\<rparr>)
      else let count = count_entries arc 0 0 in
        if count = 0 then Some k
        else do {
          (p, k) \<leftarrow> k_malloc (of_nat count * ENTRY_SIZE) k;
          if p = 0 then Some k
          else Some (k\<lparr>k_entries := fill_entries arc 0 0 count\<rparr>) })"

definition initramfs_find :: "u8 list \<Rightarrow> kernel \<Rightarrow> (nat \<times> u64 \<times> u8) option" where
  "initramfs_find path k = entry_find (k_archive k) (k_entries k) path"

definition alloc_vnode :: "kernel \<Rightarrow> (u64 option \<times> kernel) option" where
  "alloc_vnode k = do {
     (p, k) \<leftarrow> k_malloc VNODE_SIZE k;
     Some (if p = 0 then None else Some p, k) }"

definition initramfs_build_vnode :: "u8 list \<Rightarrow> kernel \<Rightarrow> (vref option \<times> kernel) option" where
  "initramfs_build_vnode path k =
     (case initramfs_find path k of
        None \<Rightarrow> Some (None, k)
      | Some (data, sz, ty) \<Rightarrow> do {
          (v, k) \<leftarrow> alloc_vnode k;
          case v of
            None \<Rightarrow> Some (None, k)
          | Some p \<Rightarrow> Some (Some (Heap_Vnode p),
              set_vnode (Heap_Vnode p)
                \<lparr>vn_ops = INITRAMFS_FILE_OPS,
                 vn_mode = (if ty = 0x35 then V_DIR OR 0x1ED else V_FILE OR 0x1A4),
                 vn_ino = 0, vn_size = sz, vn_fs_type = InitramFS,
                 vn_data = Data_Archive data, vn_mount = None\<rparr> k) })"

fun archive_offset :: "vdata \<Rightarrow> nat" where
  "archive_offset (Data_Archive d) = d"
| "archive_offset _ = 0"

text \<open>\<open>initramfs_read\<close>: the result and the new offset.\<close>
definition initramfs_read :: "vnode \<Rightarrow> u64 \<Rightarrow> nat \<Rightarrow> u64 \<Rightarrow> kernel \<Rightarrow> (int \<times> u64 \<times> kernel) option" where
  "initramfs_read vn buf len offset k =
     (let (bs, off') = archive_read (k_archive k) (archive_offset (vn_data vn)) (vn_size vn) (of_nat len) offset
      in do { k \<leftarrow> user_store buf bs k; Some (int (length bs), off', k) })"

subsection \<open>rootfs\<close>

definition rootfs_readdir :: "u64 \<Rightarrow> nat \<Rightarrow> dirent option" where
  "rootfs_readdir ino index =
     (if index = 0 then Some (mk_dirent ino V_DIR ''.'')
      else if index = 1 then Some (mk_dirent 0 V_DIR ''..'')
      else if ino = 0 then
        (if index = 2 then Some (mk_dirent 1 V_DIR ''sbin'')
         else if index = 3 then Some (mk_dirent 2 V_DIR ''bin'')
         else if index = 4 then Some (mk_dirent 3 V_DIR ''etc'')
         else if index = 5 then Some (mk_dirent 4 V_DIR ''dev'')
         else None)
      else None)"

fun data_prefix :: "vdata \<Rightarrow> u8 list" where
  "data_prefix (Data_Prefix s) = takeWhile (\<lambda>b. b \<noteq> 0) s"
| "data_prefix _ = []"

text \<open>The path buffer of \<open>rootfs_lookup\<close>: directory prefix, slash, name; \<^term>\<open>None\<close> when it
  does not fit.\<close>
definition child_path :: "vdata \<Rightarrow> u8 list \<Rightarrow> u8 list option" where
  "child_path d name =
     (let pre = (if data_is_null d then [] else take (PATH_MAX - 2) (data_prefix d));
          pre = (if \<not> data_is_null d \<and> length pre > 0 \<and> length pre < PATH_MAX - 1 then pre @ [0x2F] else pre)
      in if length pre + length name > PATH_MAX then None else Some (pre @ name))"

definition rootfs_lookup :: "vref \<Rightarrow> u8 list \<Rightarrow> kernel \<Rightarrow> ((int + vref) \<times> kernel) option" where
  "rootfs_lookup dir name k =
     (let vn = k_vnodes k dir in
      if vn_ino vn = 0 \<and> name = bytes ''sbin'' then Some (Inr SBIN_DIR, k)
      else if vn_ino vn = 0 \<and> name = bytes ''bin'' then Some (Inr BIN_DIR, k)
      else if vn_ino vn = 0 \<and> name = bytes ''etc'' then Some (Inr ETC_DIR, k)
      else if vn_ino vn = 0 \<and> name = bytes ''dev'' then Some (Inr DEV_DIR, k)
      else case child_path (vn_data vn) name of
        None \<Rightarrow> Some (Inl ENAMETOOLONG, k)
      | Some cp \<Rightarrow>
          (case initramfs_find cp k of
             None \<Rightarrow> Some (Inl ENOENT, k)
           | Some (_, _, ty) \<Rightarrow>
               if ty = 0x35 then Some (Inl ENOENT, k)
               else do {
                 (v, k) \<leftarrow> initramfs_build_vnode cp k;
                 Some (case v of Some r \<Rightarrow> Inr r | None \<Rightarrow> Inl ENOMEM, k) }))"

definition rootfs_dir :: "u64 \<Rightarrow> vdata \<Rightarrow> vnode" where
  "rootfs_dir ino d = \<lparr>vn_ops = ROOTFS_DIR_OPS, vn_mode = V_DIR OR 0x1ED, vn_ino = ino, vn_size = 0,
     vn_fs_type = RootFS, vn_data = d, vn_mount = None\<rparr>"

definition rootfs_init :: "kernel \<Rightarrow> kernel" where
  "rootfs_init k =
     (let k = set_vnode ROOT_DIR (rootfs_dir 0 Data_Null) k;
          k = set_vnode SBIN_DIR (rootfs_dir 1 (Data_Prefix (bytes ''sbin''))) k;
          k = set_vnode BIN_DIR (rootfs_dir 2 (Data_Prefix (bytes ''bin''))) k;
          k = set_vnode ETC_DIR (rootfs_dir 3 (Data_Prefix (bytes ''etc''))) k
      in set_vnode DEV_DIR (rootfs_dir 4 Data_Null) k)"

end
