(* ===== verification/Vfs_Path.thy ===== *)
theory Vfs_Path imports Fs begin

text \<open>Path resolution (\<open>vfs/mod.rs\<close>): the component collection of \<open>vfs_resolve\<close>, lookup of
  the components from the root with mount points followed, the fallback to the
  archive, relative paths, paths from user space, and \<open>vfs_init\<close>.\<close>

subsection \<open>Definitions\<close>

function skip_slashes :: "u8 list \<Rightarrow> nat \<Rightarrow> nat" where
  "skip_slashes path pos =
     (if pos < length path \<and> path ! pos = 0x2F then skip_slashes path (pos + 1) else pos)"
  by pat_completeness auto
termination by (relation "measure (\<lambda>(path, pos). length path - pos)") auto

function component_end :: "u8 list \<Rightarrow> nat \<Rightarrow> nat" where
  "component_end path pos =
     (if pos < length path \<and> path ! pos \<noteq> 0x2F then component_end path (pos + 1) else pos)"
  by pat_completeness auto
termination by (relation "measure (\<lambda>(path, pos). length path - pos)") auto

declare skip_slashes.simps [simp del] component_end.simps [simp del]

definition slice :: "u8 list \<Rightarrow> nat \<times> nat \<Rightarrow> u8 list" where
  "slice path c = take (snd c - fst c) (drop (fst c) path)"

lemma skip_slashes_ge: "pos \<le> skip_slashes path pos"
proof (induction path pos rule: skip_slashes.induct)
  case (1 path pos)
  then show ?case by (subst skip_slashes.simps) auto
qed

lemma component_end_ge: "pos \<le> component_end path pos"
proof (induction path pos rule: component_end.induct)
  case (1 path pos)
  then show ?case by (subst component_end.simps) auto
qed

lemma skip_slashes_stop:
  "skip_slashes path pos < length path \<Longrightarrow> path ! skip_slashes path pos \<noteq> 0x2F"
proof (induction path pos rule: skip_slashes.induct)
  case (1 path pos)
  then show ?case using skip_slashes.simps [of path pos] by (auto split: if_splits)
qed

lemma component_end_gt:
  "pos < length path \<Longrightarrow> path ! pos \<noteq> 0x2F \<Longrightarrow> pos < component_end path pos"
  using component_end_ge [of "pos + 1" path] by (subst component_end.simps) auto

text \<open>Pass 1 of \<open>vfs_resolve\<close>: start and end of the components on the stack.\<close>
function collect :: "u8 list \<Rightarrow> nat \<Rightarrow> (nat \<times> nat) list \<Rightarrow> int + (nat \<times> nat) list" where
  "collect path pos comps =
     (if pos < length path then
        (let cs = skip_slashes path pos in
         if cs \<ge> length path then Inr comps
         else let e = component_end path cs in
           if length comps < VFS_MAX_COMPONENTS then
             (if slice path (cs, e) = bytes ''..'' then collect path e (butlast comps)
              else if slice path (cs, e) \<noteq> bytes ''.'' then collect path e (comps @ [(cs, e)])
              else collect path e comps)
           else Inl ENAMETOOLONG)
      else Inr comps)"
  by pat_completeness auto
termination
proof (relation "measure (\<lambda>(path, pos, _). length path - pos)", goal_cases)
  case 1
  show ?case by simp
qed (auto intro!: diff_less_mono2 le_less_trans [OF skip_slashes_ge component_end_gt] skip_slashes_stop)

declare collect.simps [simp del]

definition vfs_lookup :: "vref \<Rightarrow> u8 list \<Rightarrow> kernel \<Rightarrow> ((int + vref) \<times> kernel) option" where
  "vfs_lookup dir name k =
     (if name = [] \<or> name = bytes ''.'' then Some (Inl EINVAL, k)
      else if name = bytes ''..'' then Some (Inl EINVAL, k)
      else case vn_fs_type (k_vnodes k dir) of
        RootFS \<Rightarrow> rootfs_lookup dir name k
      | DevFS \<Rightarrow> Some (case devfs_lookup name (k_chardevs k) of Some v \<Rightarrow> Inr v | None \<Rightarrow> Inl ENOENT, k)
      | InitramFS \<Rightarrow> Some (Inl ENOENT, k))"

text \<open>Pass 2: \<open>start\<close> is where the leading slashes end, for the fallback.\<close>
fun resolve_from :: "u8 list \<Rightarrow> nat \<Rightarrow> (nat \<times> nat) list \<Rightarrow> vref \<Rightarrow> kernel \<Rightarrow> ((int + vref) \<times> kernel) option" where
  "resolve_from path start [] cur k = Some (Inr cur, k)"
| "resolve_from path start (c # cs) cur k = do {
     (r, k) \<leftarrow> vfs_lookup cur (slice path c) k;
     case r of
       Inr nxt \<Rightarrow> resolve_from path start cs
                   (case vn_mount (k_vnodes k nxt) of Some mnt \<Rightarrow> mnt | None \<Rightarrow> nxt) k
     | Inl e \<Rightarrow>
         if slice path (start, snd c) \<noteq> [] then do {
           (v, k) \<leftarrow> initramfs_build_vnode (slice path (start, snd c)) k;
           Some (case v of Some vn \<Rightarrow> Inr vn | None \<Rightarrow> Inl e, k) }
         else Some (Inl e, k) }"

definition vfs_resolve :: "u8 list \<Rightarrow> kernel \<Rightarrow> ((int + vref) \<times> kernel) option" where
  "vfs_resolve path k =
     (case mount_get_root (k_mounts k) of
        None \<Rightarrow> Some (Inl ENODEV, k)
      | Some root \<Rightarrow>
          if path = [] \<or> path = [0x2F] then Some (Inr root, k)
          else let start = skip_slashes path 0 in
            if start \<ge> length path then Some (Inr root, k)
            else case collect path start [] of
                   Inl e \<Rightarrow> Some (Inl e, k)
                 | Inr cs \<Rightarrow> resolve_from path start cs root k)"

text \<open>The buffer of \<open>vfs_resolve_relative\<close>; the cwd has at most 255 bytes.\<close>
definition relative_path :: "u8 list \<Rightarrow> u8 list \<Rightarrow> int + u8 list" where
  "relative_path cwd path =
     (if cwd = [] \<or> last cwd \<noteq> 0x2F
      then if length cwd \<ge> PATH_MAX - 1 then Inl ENAMETOOLONG
           else if length cwd + 1 + length path > PATH_MAX then Inl ENAMETOOLONG
           else Inr (cwd @ [0x2F] @ path)
      else if length cwd + length path > PATH_MAX then Inl ENAMETOOLONG
      else Inr (cwd @ path))"

definition vfs_resolve_relative :: "u8 list \<Rightarrow> u8 list \<Rightarrow> kernel \<Rightarrow> ((int + vref) \<times> kernel) option" where
  "vfs_resolve_relative cwd path k =
     (if path \<noteq> [] \<and> hd path = 0x2F then vfs_resolve path k
      else case relative_path cwd path of
             Inl e \<Rightarrow> Some (Inl e, k)
           | Inr buf \<Rightarrow> vfs_resolve buf k)"

text \<open>The byte loop of \<open>cstr_from_user\<close> with \<open>n\<close> bytes of room; the result is the string
  without its terminator.\<close>
fun cstr_bytes :: "u64 \<Rightarrow> nat \<Rightarrow> kernel \<Rightarrow> (int + u8 list) option" where
  "cstr_bytes a 0 k = Some (Inl ENAMETOOLONG)"
| "cstr_bytes a (Suc n) k = do {
     bs \<leftarrow> user_load a 1 k;
     if hd bs = 0 then Some (Inr [])
     else do {
       r \<leftarrow> cstr_bytes (a + 1) n k;
       Some (map_sum id ((#) (hd bs)) r) } }"

definition cstr_from_user :: "u64 \<Rightarrow> nat \<Rightarrow> kernel \<Rightarrow> (int + u8 list) option" where
  "cstr_from_user ptr max_len k =
     (if ptr = 0 then Some (Inl EFAULT) else cstr_bytes ptr (min PATH_MAX max_len) k)"

definition vfs_init :: "u8 list \<Rightarrow> kernel \<Rightarrow> kernel option" where
  "vfs_init archive k = do {
     k \<leftarrow> initramfs_init (initramfs_set_archive archive k);
     let k = rootfs_init k;
     let (dev_root, k) = devfs_init k;
     let k = k\<lparr>k_mounts := snd (mount_add (bytes ''/'') ROOT_DIR RootFS 0 (k_mounts k))\<rparr>;
     let (rc, t) = mount_add (bytes ''/dev'') dev_root DevFS 0 (k_mounts k);
     let k = k\<lparr>k_mounts := t\<rparr>;
     Some (if rc \<noteq> 0 then serial_write (bytes ''VFS: WARNING '' @ [0xE2, 0x80, 0x94] @ bytes '' mount /dev failed.'' @ [0x0A]) k
           else case mount_find (bytes ''/dev'') (k_mounts k) of
                  Some dev_mnt \<Rightarrow> set_vnode DEV_DIR ((k_vnodes k DEV_DIR)\<lparr>vn_mount := Some dev_mnt\<rparr>) k
                | None \<Rightarrow> k) }"

subsection \<open>Specification of the component collection\<close>

text \<open>The components of a path are its maximal runs of bytes other than slash.\<close>

function components :: "u8 list \<Rightarrow> u8 list list" where
  "components path =
     (case dropWhile (\<lambda>b. b = 0x2F) path of
        [] \<Rightarrow> []
      | b # bs \<Rightarrow> (b # takeWhile (\<lambda>b. b \<noteq> 0x2F) bs) # components (dropWhile (\<lambda>b. b \<noteq> 0x2F) bs))"
  by pat_completeness auto
termination
proof (relation "measure length", goal_cases)
  case (2 path b bs)
  have "length (dropWhile (\<lambda>b. b \<noteq> 0x2F) bs) \<le> length bs" by (rule length_dropWhile_le)
  also have "length bs < length (dropWhile (\<lambda>b. b = 0x2F) path)" using 2 by simp
  also have "\<dots> \<le> length path" by (rule length_dropWhile_le)
  finally show ?case by simp
qed simp

declare components.simps [simp del]

text \<open>Normalisation with a depth limit of 16: \<open>.\<close> is dropped, \<open>..\<close> removes the previous
  component (or nothing at the root).\<close>

fun normalise :: "u8 list list \<Rightarrow> u8 list list \<Rightarrow> int + u8 list list" where
  "normalise st [] = Inr st"
| "normalise st (c # cs) =
     (if length st < VFS_MAX_COMPONENTS then
        (if c = bytes ''..'' then normalise (butlast st) cs
         else if c \<noteq> bytes ''.'' then normalise (st @ [c]) cs
         else normalise st cs)
      else Inl ENAMETOOLONG)"

lemma skip_slashes_drop:
  "drop (skip_slashes path pos) path = dropWhile (\<lambda>b. b = 0x2F) (drop pos path)"
proof (induction path pos rule: skip_slashes.induct)
  case (1 path pos)
  show ?case
  proof (cases "pos < length path")
    case True
    then have "drop pos path = path ! pos # drop (pos + 1) path" by (simp add: Cons_nth_drop_Suc)
    then show ?thesis using 1 True skip_slashes.simps [of path pos] by simp
  next
    case False
    then show ?thesis using skip_slashes.simps [of path pos] by simp
  qed
qed

lemma component_end_drop:
  "pos \<le> length path \<Longrightarrow>
   slice path (pos, component_end path pos) = takeWhile (\<lambda>b. b \<noteq> 0x2F) (drop pos path) \<and>
   drop (component_end path pos) path = dropWhile (\<lambda>b. b \<noteq> 0x2F) (drop pos path)"
proof (induction path pos rule: component_end.induct)
  case (1 path pos)
  show ?case
  proof (cases "pos < length path \<and> path ! pos \<noteq> 0x2F")
    case True
    then have d: "drop pos path = path ! pos # drop (pos + 1) path" by (simp add: Cons_nth_drop_Suc)
    have e: "component_end path pos = component_end path (pos + 1)"
      using True component_end.simps [of path pos] by simp
    have ge: "pos + 1 \<le> component_end path (pos + 1)" by (rule component_end_ge)
    then have "component_end path (pos + 1) - pos = Suc (component_end path (pos + 1) - (pos + 1))" by simp
    then have "slice path (pos, component_end path pos)
        = path ! pos # slice path (pos + 1, component_end path (pos + 1))"
      unfolding slice_def e by (simp add: d)
    then show ?thesis using 1 True d e by simp
  next
    case False
    then have "component_end path pos = pos" using component_end.simps [of path pos] by auto
    moreover have "drop pos path = [] \<or> (\<exists>bs. drop pos path = 0x2F # bs)"
      using False 1(2) by (cases "pos < length path") (auto simp: Cons_nth_drop_Suc [symmetric])
    ultimately show ?thesis by (auto simp: slice_def)
  qed
qed

lemma collect_normalise:
  "map_sum id (map (slice path)) (collect path pos comps) =
   normalise (map (slice path) comps) (components (drop pos path))"
proof (induction path pos comps rule: collect.induct)
  case (1 path pos comps)
  let ?cs = "skip_slashes path pos"
  show ?case
  proof (cases "?cs < length path")
    case False
    then have "dropWhile (\<lambda>b. b = 0x2F) (drop pos path) = []" by (simp add: skip_slashes_drop [symmetric])
    then have "components (drop pos path) = []"
      by (subst components.simps) (simp del: dropWhile_eq_Nil_conv)
    then show ?thesis using False collect.simps [of path pos comps] by (auto simp: Let_def not_less)
  next
    case True
    then have pos: "pos < length path" using skip_slashes_ge [of pos path] by simp
    let ?e = "component_end path ?cs"
    have c: "path ! ?cs \<noteq> 0x2F" by (rule skip_slashes_stop [OF True])
    have d: "dropWhile (\<lambda>b. b = 0x2F) (drop pos path) = path ! ?cs # drop (Suc ?cs) path"
      using True by (simp add: skip_slashes_drop [symmetric] Cons_nth_drop_Suc)
    have ce: "slice path (?cs, ?e) = path ! ?cs # takeWhile (\<lambda>b. b \<noteq> 0x2F) (drop (Suc ?cs) path)"
      "drop ?e path = dropWhile (\<lambda>b. b \<noteq> 0x2F) (drop (Suc ?cs) path)"
      using component_end_drop [of ?cs path] True c by (simp_all add: Cons_nth_drop_Suc [symmetric])
    have comp: "components (drop pos path) = slice path (?cs, ?e) # components (drop ?e path)"
      by (subst components.simps) (simp add: d ce)
    have step: "collect path pos comps =
       (if length comps < VFS_MAX_COMPONENTS then
             (if slice path (?cs, ?e) = bytes ''..'' then collect path ?e (butlast comps)
              else if slice path (?cs, ?e) \<noteq> bytes ''.'' then collect path ?e (comps @ [(?cs, ?e)])
              else collect path ?e comps)
           else Inl ENAMETOOLONG)"
      using True pos by (subst collect.simps) (simp add: Let_def)
    show ?thesis
      using 1 [OF pos refl _ refl] True unfolding comp step by (auto simp: map_butlast not_le)
  qed
qed

lemma components_skip: "components (drop (skip_slashes path 0) path) = components path"
  by (subst (1 2) components.simps) (simp add: skip_slashes_drop)

subsection \<open>Lookup of a list of components\<close>

definition cross_mount :: "kernel \<Rightarrow> vref \<Rightarrow> vref" where
  "cross_mount k v = (case vn_mount (k_vnodes k v) of Some mnt \<Rightarrow> mnt | None \<Rightarrow> v)"

fun walk :: "u8 list list \<Rightarrow> vref \<Rightarrow> kernel \<Rightarrow> ((int + vref) \<times> kernel) option" where
  "walk [] cur k = Some (Inr cur, k)"
| "walk (c # cs) cur k = do {
     (r, k) \<leftarrow> vfs_lookup cur c k;
     case r of Inr nxt \<Rightarrow> walk cs (cross_mount k nxt) k | Inl e \<Rightarrow> Some (Inl e, k) }"

lemma resolve_from_walk:
  "walk (map (slice path) cs) cur k = Some (Inr v, k') \<Longrightarrow> resolve_from path start cs cur k = Some (Inr v, k')"
proof (induction cs arbitrary: cur k)
  case (Cons c cs)
  obtain r k1 where l: "vfs_lookup cur (slice path c) k = Some (r, k1)"
    using Cons.prems by (auto simp: bind_eq_Some_conv)
  then obtain nxt where "r = Inr nxt" using Cons.prems by (cases r) auto
  then show ?case using Cons l by (simp add: cross_mount_def)
qed simp

lemma vfs_resolve_walk:
  assumes root: "mount_get_root (k_mounts k) = Some root"
    and cs: "normalise [] (components path) = Inr cs" and w: "walk cs root k = Some (Inr v, k')"
  shows "vfs_resolve path k = Some (Inr v, k')"
proof (cases "skip_slashes path 0 < length path")
  case False
  then have "dropWhile (\<lambda>b. b = 0x2F) path = []" using skip_slashes_drop [of path 0] by simp
  then have "components path = []" by (subst components.simps) (simp del: dropWhile_eq_Nil_conv)
  then have "v = root" "k' = k" using cs w by auto
  then show ?thesis using False root by (simp add: vfs_resolve_def Let_def)
next
  case True
  then have ne: "path \<noteq> []" "path \<noteq> [0x2F]" using skip_slashes_stop [OF True] by (auto simp: less_Suc_eq)
  obtain c where c: "collect path (skip_slashes path 0) [] = Inr c" "map (slice path) c = cs"
    using collect_normalise [of path "skip_slashes path 0" "[]"] cs
    by (cases "collect path (skip_slashes path 0) []") (auto simp: components_skip)
  show ?thesis
    using True ne root c(1) resolve_from_walk [of path c root k v k'] c(2) w
    by (simp add: vfs_resolve_def Let_def)
qed

lemma vfs_resolve_too_deep:
  assumes root: "mount_get_root (k_mounts k) = Some root" and e: "normalise [] (components path) = Inl e"
  shows "vfs_resolve path k = Some (Inl e, k)"
proof -
  have lt: "skip_slashes path 0 < length path"
  proof (rule ccontr)
    assume "\<not> skip_slashes path 0 < length path"
    then have "dropWhile (\<lambda>b. b = 0x2F) path = []" using skip_slashes_drop [of path 0] by simp
    then have "components path = []" by (subst components.simps) (simp del: dropWhile_eq_Nil_conv)
    then show False using e by simp
  qed
  then have ne: "path \<noteq> []" "path \<noteq> [0x2F]" using skip_slashes_stop [OF lt] by (auto simp: less_Suc_eq)
  have "collect path (skip_slashes path 0) [] = Inl e"
    using collect_normalise [of path "skip_slashes path 0" "[]"] e
    by (cases "collect path (skip_slashes path 0) []") (auto simp: components_skip)
  then show ?thesis using lt ne root by (simp add: vfs_resolve_def Let_def)
qed


subsection \<open>The name space after boot\<close>

definition unbooted :: "kernel \<Rightarrow> bool" where
  "unbooted k \<longleftrightarrow> k_mounts k = mount_table_new \<and> k_chardevs k = chardev_table_new \<and> k_entries k = []"

lemma initramfs_init_fields:
  assumes "initramfs_init k = Some k1"
  shows "k_archive k1 = k_archive k" "k_mounts k1 = k_mounts k" "k_chardevs k1 = k_chardevs k"
    "k_entries k = [] \<Longrightarrow> k_entries k1 \<noteq> [] \<Longrightarrow>
       k_entries k1 = fill_entries (k_archive k) 0 0 (count_entries (k_archive k) 0 0)"
  using assms by (auto simp: initramfs_init_def Let_def k_malloc_def bind_eq_Some_conv split: if_splits)

lemma vfs_init_fields:
  assumes k: "unbooted k" and i: "vfs_init arc k = Some k'"
  shows "k_archive k' = arc" "mount_get_root (k_mounts k') = Some ROOT_DIR"
    "chardev_find n (k_chardevs k') =
       (if n = bytes ''null'' then Some 0 else if n = bytes ''zero'' then Some 1
        else if n = bytes ''ttyS0'' then Some 2 else None)"
    "k_vnodes k' ROOT_DIR = rootfs_dir 0 Data_Null"
    "k_vnodes k' SBIN_DIR = rootfs_dir 1 (Data_Prefix (bytes ''sbin''))"
    "k_vnodes k' BIN_DIR = rootfs_dir 2 (Data_Prefix (bytes ''bin''))"
    "k_vnodes k' ETC_DIR = rootfs_dir 3 (Data_Prefix (bytes ''etc''))"
    "k_vnodes k' DEV_DIR = (rootfs_dir 4 Data_Null)\<lparr>vn_mount := Some DEVFS_ROOT\<rparr>"
    "vn_fs_type (k_vnodes k' DEVFS_ROOT) = DevFS"
    "\<And>v. v \<in> {DEV_NULL_VNODE, DEV_ZERO_VNODE, DEV_TTYS0_VNODE} \<Longrightarrow> vn_mount (k_vnodes k' v) = None"
    "k_entries k' \<noteq> [] \<Longrightarrow> k_entries k' = fill_entries arc 0 0 (count_entries arc 0 0)"
proof -
  obtain k1 where k1: "initramfs_init (k\<lparr>k_archive := arc\<rparr>) = Some k1"
    using i by (auto simp: vfs_init_def bind_eq_Some_conv)
  note f = initramfs_init_fields [OF k1]
  have t: "k_mounts k1 = mount_table_new" "k_chardevs k1 = chardev_table_new"
    using f k by (simp_all add: unbooted_def)
  let ?t1 = "snd (register_chardev (bytes ''null'') 0 chardev_table_new)"
  let ?t2 = "snd (register_chardev (bytes ''zero'') 1 ?t1)"
  let ?t3 = "snd (register_chardev (bytes ''ttyS0'') 2 ?t2)"
  have r: "replicate 4 None = [None, None, None, None :: mount_entry option]"
    by (simp add: numeral_eq_Suc)
  have e: "k' = set_vnode DEV_DIR ((rootfs_dir 4 Data_Null)\<lparr>vn_mount := Some DEVFS_ROOT\<rparr>)
    ((snd (devfs_init (rootfs_init k1)))\<lparr>k_mounts := snd (mount_add (bytes ''/dev'') DEVFS_ROOT DevFS 0
       (snd (mount_add (bytes ''/'') ROOT_DIR RootFS 0 mount_table_new)))\<rparr>)"
    using i k1 t
    by (simp add: vfs_init_def Let_def devfs_init_def rootfs_init_def set_vnode_def mount_add_def
        mount_table_new_def r MAX_MOUNTS_def mount_find_def mount_path_def bytes_def)
  show "k_archive k' = arc" "mount_get_root (k_mounts k') = Some ROOT_DIR"
    "k_vnodes k' ROOT_DIR = rootfs_dir 0 Data_Null"
    "k_vnodes k' SBIN_DIR = rootfs_dir 1 (Data_Prefix (bytes ''sbin''))"
    "k_vnodes k' BIN_DIR = rootfs_dir 2 (Data_Prefix (bytes ''bin''))"
    "k_vnodes k' ETC_DIR = rootfs_dir 3 (Data_Prefix (bytes ''etc''))"
    "k_vnodes k' DEV_DIR = (rootfs_dir 4 Data_Null)\<lparr>vn_mount := Some DEVFS_ROOT\<rparr>"
    "vn_fs_type (k_vnodes k' DEVFS_ROOT) = DevFS"
    "\<And>v. v \<in> {DEV_NULL_VNODE, DEV_ZERO_VNODE, DEV_TTYS0_VNODE} \<Longrightarrow> vn_mount (k_vnodes k' v) = None"
    "k_entries k' \<noteq> [] \<Longrightarrow> k_entries k' = fill_entries arc 0 0 (count_entries arc 0 0)"
    using f k unfolding e
    by (auto simp: devfs_init_def rootfs_init_def set_vnode_def Let_def mount_add_def mount_table_new_def
        MAX_MOUNTS_def mount_get_root_def unbooted_def)
  have "k_chardevs k' = ?t3" unfolding e using t by (simp add: devfs_init_def rootfs_init_def set_vnode_def Let_def)
  moreover have c: "chardev_inv ?t1" "chardev_inv ?t2" "cd_count ?t1 < MAX_CHARDEVS" "cd_count ?t2 < MAX_CHARDEVS"
    "cd_count chardev_table_new < MAX_CHARDEVS"
    by (simp_all add: register_chardev_inv chardev_inv_new)
      (simp_all add: register_chardev_def Let_def chardev_table_new_def MAX_CHARDEVS_def)
  moreover have l: "length (bytes ''null'') \<le> 31" "length (bytes ''zero'') \<le> 31" "length (bytes ''ttyS0'') \<le> 31"
    by (simp_all add: bytes_def)
  moreover have "chardev_find n chardev_table_new = None"
    by (simp add: chardev_find_def chardev_table_new_def)
  ultimately show "chardev_find n (k_chardevs k') =
       (if n = bytes ''null'' then Some 0 else if n = bytes ''zero'' then Some 1
        else if n = bytes ''ttyS0'' then Some 2 else None)"
    by (simp only: chardev_find_register [OF c(2,4) l(3)] chardev_find_register [OF c(1,3) l(2)]
        chardev_find_register [OF chardev_inv_new c(5) l(1)]) simp
qed

definition dev_vnode :: "u8 list \<Rightarrow> vref option" where
  "dev_vnode n = (if n = bytes ''null'' then Some DEV_NULL_VNODE
     else if n = bytes ''zero'' then Some DEV_ZERO_VNODE
     else if n = bytes ''ttyS0'' then Some DEV_TTYS0_VNODE else None)"

lemma walk_dev:
  assumes "unbooted k" "vfs_init arc k = Some k'" "dev_vnode n = Some v"
  shows "walk [bytes ''dev'', n] ROOT_DIR k' = Some (Inr v, k')"
proof -
  note f = vfs_init_fields [OF assms(1,2)]
  have l1: "vfs_lookup ROOT_DIR (bytes ''dev'') k' = Some (Inr DEV_DIR, k')"
    using f by (simp add: vfs_lookup_def rootfs_lookup_def rootfs_dir_def bytes_def)
  have m: "cross_mount k' DEV_DIR = DEVFS_ROOT" using f by (simp add: cross_mount_def)
  have l2: "vfs_lookup DEVFS_ROOT n k' = Some (Inr v, k')"
    using f assms(3) by (auto simp: vfs_lookup_def dev_vnode_def devfs_lookup_def bytes_def split: if_splits)
  have "cross_mount k' v = v"
    using f assms(3) by (auto simp: cross_mount_def dev_vnode_def split: if_splits)
  then show ?thesis using l1 l2 m by simp
qed


definition dir_vnode :: "u8 list \<Rightarrow> vref option" where
  "dir_vnode n = (if n = bytes ''sbin'' then Some SBIN_DIR else if n = bytes ''bin'' then Some BIN_DIR
     else if n = bytes ''etc'' then Some ETC_DIR else None)"

lemma dir_vnode_data:
  assumes "unbooted k" "vfs_init arc k = Some k'" "dir_vnode d = Some v"
  shows "vn_data (k_vnodes k' v) = Data_Prefix d" "vn_fs_type (k_vnodes k' v) = RootFS"
    "vn_ino (k_vnodes k' v) \<noteq> 0" "vn_mount (k_vnodes k' v) = None" "length d \<le> 4" "d \<noteq> []" "0 \<notin> set d"
    "vfs_lookup ROOT_DIR d k' = Some (Inr v, k')"
  using assms(3) vfs_init_fields [OF assms(1,2)]
  by (auto simp: dir_vnode_def rootfs_dir_def vfs_lookup_def rootfs_lookup_def bytes_def split: if_splits)

lemma child_path_dir:
  assumes "d \<noteq> []" "0 \<notin> set d" "length d + 1 + length n \<le> PATH_MAX" "length d \<le> 4"
  shows "child_path (Data_Prefix d) n = Some (d @ [0x2F] @ n)"
proof -
  have t: "takeWhile (\<lambda>b. b \<noteq> 0) d = d" using assms(2) by (auto simp: takeWhile_eq_all_conv)
  have "take (PATH_MAX - 2) d = d" using assms(4) by (simp add: PATH_MAX_def)
  then show ?thesis
    using assms unfolding child_path_def data_prefix.simps t
    by (simp add: Let_def data_is_null_def PATH_MAX_def)
qed

text \<open>The vnode of a file of the archive.\<close>
definition file_vnode :: "nat \<Rightarrow> ufile \<Rightarrow> vnode" where
  "file_vnode d f = \<lparr>vn_ops = INITRAMFS_FILE_OPS, vn_mode = V_FILE OR 0x1A4, vn_ino = 0,
     vn_size = of_nat (length (uf_data f)), vn_fs_type = InitramFS, vn_data = Data_Archive d, vn_mount = None\<rparr>"

lemma lookup_file:
  assumes k: "unbooted k" "vfs_init arc k = Some k'" and d: "dir_vnode d = Some v"
    and n: "n \<noteq> []" "n \<noteq> bytes ''.''" "n \<noteq> bytes ''..''" "length d + 1 + length n \<le> PATH_MAX"
    and f: "initramfs_find (d @ [0x2F] @ n) k' = Some (off, of_nat (length (uf_data f)), uf_type f)"
      "uf_type f \<noteq> 0x35"
    and m: "kmalloc VNODE_SIZE (k_heap k') = Some (p, h)" "p \<noteq> 0"
  shows "vfs_lookup v n k' = Some (Inr (Heap_Vnode p), set_vnode (Heap_Vnode p) (file_vnode off f) (k'\<lparr>k_heap := h\<rparr>))"
proof -
  note D = dir_vnode_data [OF k d]
  have "child_path (vn_data (k_vnodes k' v)) n = Some (d @ [0x2F] @ n)"
    unfolding D(1) by (rule child_path_dir [OF D(6,7) n(4) D(5)])
  then show ?thesis
    using D n(1-3) f m
    by (simp add: vfs_lookup_def rootfs_lookup_def initramfs_build_vnode_def alloc_vnode_def k_malloc_def file_vnode_def)
qed


subsection \<open>Examples\<close>

lemma path_example: "normalise [] (components (bytes ''//dev/./x/../null/'')) = Inr [bytes ''dev'', bytes ''null'']"
  by (simp add: bytes_def components.simps VFS_MAX_COMPONENTS_def)

lemma path_example_file: "normalise [] (components (bytes ''/bin/../sbin//init'')) = Inr [bytes ''sbin'', bytes ''init'']"
  by (simp add: bytes_def components.simps VFS_MAX_COMPONENTS_def)

lemma unbooted_kernel0: "unbooted (kernel0 ps)"
  by (simp add: unbooted_def kernel0_def)

lemma mnt_files_ok: "list_all ufile_ok mnt_files" "length mnt_files \<le> MAX_INITRAMFS_ENTRIES"
  by (simp_all add: mnt_files_def ufile_ok_def bytes_def MAX_INITRAMFS_ENTRIES_def)

lemma boot_example:
  obtains k' p h where "vfs_init (ustar_archive mnt_files) (kernel0 ps) = Some k'" "k_entries k' \<noteq> []"
    "kmalloc VNODE_SIZE (k_heap k') = Some (p, h)" "p \<noteq> 0"
proof -
  let ?arc = "ustar_archive mnt_files" and ?k = "kernel0 ps"
  have len: "length ?arc \<ge> 512" by (simp add: ustar_archive_def)
  have e: "ustar_entries ?arc 0 = file_entries 0 mnt_files"
    using ustar_entries_archive [OF mnt_files_ok(1), of "[]"] by simp
  have cnt: "count_entries ?arc 0 0 = 2"
    by (simp add: count_entries_eq MAX_INITRAMFS_ENTRIES_def e) (simp add: mnt_files_def)
  have fill: "fill_entries ?arc 0 0 2 \<noteq> []"
    by (simp add: fill_entries_eq e) (simp add: mnt_files_def)
  obtain h1 where h1: "kmalloc 64 heap0 = Some (0x200018, h1)" "kmm_rep h1 [(88, False), (0xFFFA8, True)]"
    "heap_low h1 = 0x200000"
    using kmalloc_rep [OF heap0_rep, of 64] by (auto simp: heap0_def unat_needed_size)
  obtain h2 where h2: "kmalloc VNODE_SIZE h1 = Some (0x200000 + 88 + 24, h2)"
    using kmalloc_rep [OF h1(2), of 56] h1(3) by (auto simp: unat_needed_size VNODE_SIZE_def)
  define k1 where "k1 = ?k\<lparr>k_archive := ?arc, k_heap := h1, k_entries := fill_entries ?arc 0 0 2\<rparr>"
  have i: "initramfs_init (?k\<lparr>k_archive := ?arc\<rparr>) = Some k1"
    using len h1(1) cnt unfolding k1_def
    by (simp add: initramfs_init_def k_malloc_def Let_def ENTRY_SIZE_def USTAR_BLOCK_SIZE_def kernel0_def)
  obtain rc t where m: "mount_add (bytes ''/dev'') DEVFS_ROOT DevFS 0
      (snd (mount_add (bytes ''/'') ROOT_DIR RootFS 0 (k_mounts k1))) = (rc, t)" by fastforce
  have "\<exists>k'. vfs_init ?arc ?k = Some k' \<and> k_entries k' = k_entries k1 \<and> k_heap k' = k_heap k1"
    using i m by (simp add: vfs_init_def Let_def devfs_init_def rootfs_init_def set_vnode_def
        del: serial_write_simps split: option.split)
  then obtain k' where k': "vfs_init ?arc ?k = Some k'" "k_entries k' = k_entries k1" "k_heap k' = k_heap k1"
    by blast
  show thesis by (rule that [OF k'(1)]) (use k' fill h2 in \<open>auto simp: k1_def\<close>)
qed




end
