(* ===== verification/File_Calls.thy ===== *)
theory File_Calls imports Vfs_Path begin

text \<open>The file system calls (\<open>vfs/mod.rs\<close>, \<open>vfs/pipe.rs\<close>, the descriptor calls of
  \<open>syscall.rs\<close>): dispatch through the vnode operation tables, and one definition per
  handler.  A handler returns the value of RAX and the new state.\<close>

subsection \<open>Vnode operations\<close>

fun pipe_of :: "vdata \<Rightarrow> u64" where
  "pipe_of (Data_Pipe p) = p"
| "pipe_of _ = 0"

fun vnode_addr :: "vref \<Rightarrow> u64" where
  "vnode_addr (Heap_Vnode a) = a"
| "vnode_addr _ = 0"

definition pipe_read :: "vref \<Rightarrow> u64 \<Rightarrow> nat \<Rightarrow> kernel \<Rightarrow> (int \<times> kernel) option" where
  "pipe_read v buf len k =
     (let p = pipe_of (vn_data (k_vnodes k v)); (bs, pb) = pipe_take len (k_pipes k p)
      in do { k \<leftarrow> user_store buf bs (set_pipe p pb k); Some (int (length bs), k) })"

definition pipe_write :: "vref \<Rightarrow> u64 \<Rightarrow> nat \<Rightarrow> kernel \<Rightarrow> (int \<times> kernel) option" where
  "pipe_write v buf len k =
     (let p = pipe_of (vn_data (k_vnodes k v)); pb = k_pipes k p in
      if pipe_space pb = 0 then Some (0, k)
      else do {
        bs \<leftarrow> user_load buf (min len (unat (pipe_space pb))) k;
        let (n, pb') = pipe_put bs pb;
        Some (int n, set_pipe p pb' k) })"

definition pipe_close :: "vref \<Rightarrow> kernel \<Rightarrow> kernel option" where
  "pipe_close v k =
     (let p = pipe_of (vn_data (k_vnodes k v));
          pb = (k_pipes k p)\<lparr>pb_refcount := pb_refcount (k_pipes k p) - 1\<rparr>;
          k = set_pipe p pb k
      in do {
        k \<leftarrow> k_free (vnode_addr v) k;
        if pb_refcount pb = 0 then k_free p k else Some k })"

definition pipe_lseek :: int where "pipe_lseek = - ESPIPE"

text \<open>The calls through \<open>(*vn.ops).read\<close> and so on, for tables where the slot is filled.  A
  read returns the result and the new file offset.\<close>

definition vn_read :: "vref \<Rightarrow> u64 \<Rightarrow> nat \<Rightarrow> u64 \<Rightarrow> kernel \<Rightarrow> (int \<times> u64 \<times> kernel) option" where
  "vn_read v buf len off k =
     (case vn_ops (k_vnodes k v) of
        DEVFS_OPS \<Rightarrow> do { (n, k) \<leftarrow> devfs_read (vn_data (k_vnodes k v)) buf len k; Some (n, off, k) }
      | TTY_OPS \<Rightarrow> do { (n, k) \<leftarrow> tty_read buf len k; Some (n, off, k) }
      | INITRAMFS_FILE_OPS \<Rightarrow> initramfs_read (k_vnodes k v) buf len off k
      | PIPE_READ_OPS \<Rightarrow> do { (n, k) \<leftarrow> pipe_read v buf len k; Some (n, off, k) }
      | _ \<Rightarrow> None)"

definition vn_write :: "vref \<Rightarrow> u64 \<Rightarrow> nat \<Rightarrow> kernel \<Rightarrow> (int \<times> kernel) option" where
  "vn_write v buf len k =
     (case vn_ops (k_vnodes k v) of
        DEVFS_OPS \<Rightarrow> devfs_write len k
      | TTY_OPS \<Rightarrow> tty_write buf len k
      | PIPE_WRITE_OPS \<Rightarrow> pipe_write v buf len k
      | _ \<Rightarrow> None)"

definition vn_lseek :: "vnode_ops \<Rightarrow> u64 \<Rightarrow> u32 \<Rightarrow> int" where
  "vn_lseek ops offset whence = (if ops = DEVFS_OPS then devfs_lseek offset whence else pipe_lseek)"

definition vn_readdir :: "vnode \<Rightarrow> nat \<Rightarrow> dirent option" where
  "vn_readdir vn index =
     (if vn_ops vn = ROOTFS_DIR_OPS then rootfs_readdir (vn_ino vn) index else devfs_readdir index)"

text \<open>Every open operation returns 0 and every close but the pipe's does nothing.\<close>
definition vn_close :: "vref \<Rightarrow> kernel \<Rightarrow> kernel option" where
  "vn_close v k =
     (if vn_ops (k_vnodes k v) \<in> {PIPE_READ_OPS, PIPE_WRITE_OPS} then pipe_close v k else Some k)"

definition oft_decref :: "nat \<Rightarrow> kernel \<Rightarrow> kernel option" where
  "oft_decref i k =
     (let (v, t) = oft_drop i (k_oft k); k = k\<lparr>k_oft := t\<rparr>
      in case v of Some vn \<Rightarrow> vn_close vn k | None \<Rightarrow> Some k)"

subsection \<open>Descriptors of the current process\<close>

definition cur_fds :: "kernel \<Rightarrow> int list option" where
  "cur_fds k = map_option p_fds (process_mut (k_cur k) k)"

definition set_fd :: "nat \<Rightarrow> int \<Rightarrow> kernel \<Rightarrow> kernel" where
  "set_fd fd v k = set_process (k_cur k) (\<lambda>p. p\<lparr>p_fds := (p_fds p)[fd := v]\<rparr>) k"

definition free_fd :: "int list \<Rightarrow> nat option" where
  "free_fd fds = find (\<lambda>fd. fds ! fd < 0) [0..<MAX_FDS]"

text \<open>The path argument of \<open>open\<close>, \<open>stat\<close> and \<open>chdir\<close>.\<close>
definition user_path :: "u64 \<Rightarrow> kernel \<Rightarrow> (int + u8 list) option" where
  "user_path path k = cstr_from_user path PATH_MAX k"

definition sys_open :: "u64 \<Rightarrow> u64 \<Rightarrow> u64 \<Rightarrow> kernel \<Rightarrow> (u64 \<times> kernel) option" where
  "sys_open path flags mode k = do {
     p \<leftarrow> user_path path k;
     case p of
       Inl e \<Rightarrow> Some (neg_errno e, k)
     | Inr bs \<Rightarrow> do {
         (r, k) \<leftarrow> vfs_resolve bs k;
         case r of
           Inl e \<Rightarrow> Some (neg_errno e, k)
         | Inr v \<Rightarrow>
             (case oft_alloc v (ucast flags) (ucast mode) (k_oft k) of
                (Inl e, _) \<Rightarrow> Some (neg_errno e, k)
              | (Inr i, t) \<Rightarrow> do {
                  let k = k\<lparr>k_oft := t\<rparr>;
                  fds \<leftarrow> cur_fds k;
                  case free_fd fds of
                    Some fd \<Rightarrow> Some (of_nat fd, set_fd fd (int i) k)
                  | None \<Rightarrow> do { k \<leftarrow> oft_decref i k; Some (neg_errno EMFILE, k) } }) } }"

definition sys_close :: "u64 \<Rightarrow> kernel \<Rightarrow> (u64 \<times> kernel) option" where
  "sys_close fd k =
     (if fd \<ge> of_nat MAX_FDS then Some (neg_errno EBADF, k)
      else do {
        fds \<leftarrow> cur_fds k;
        let i = fds ! unat fd;
        if i < 0 then Some (neg_errno EBADF, k)
        else do { k \<leftarrow> oft_decref (nat i) (set_fd (unat fd) (- 1) k); Some (0, k) } })"

text \<open>The common start of the calls on an open descriptor: its table index and file, or
  the errno; \<open>bad\<close> is the handler's argument check between the two lookups.\<close>
definition fd_file :: "u64 \<Rightarrow> int option \<Rightarrow> kernel \<Rightarrow> (int + nat \<times> open_file) option" where
  "fd_file fd bad k =
     (if fd \<ge> of_nat MAX_FDS then Some (Inl EBADF)
      else do {
        fds \<leftarrow> cur_fds k;
        let i = fds ! unat fd;
        if i < 0 then Some (Inl EBADF)
        else case bad of
          Some e \<Rightarrow> Some (Inl e)
        | None \<Rightarrow> Some (case oft_get (nat i) (k_oft k) of None \<Rightarrow> Inl EBADF | Some f \<Rightarrow> Inr (nat i, f)) })"

definition bad_buffer :: "u64 \<Rightarrow> u64 \<Rightarrow> int option" where
  "bad_buffer buf count = (if buf = 0 \<or> count = 0 then Some EINVAL else None)"

definition sys_read_vfs :: "u64 \<Rightarrow> u64 \<Rightarrow> u64 \<Rightarrow> kernel \<Rightarrow> (u64 \<times> kernel) option" where
  "sys_read_vfs fd buf count k = do {
     r \<leftarrow> fd_file fd (bad_buffer buf count) k;
     case r of
       Inl e \<Rightarrow> Some (neg_errno e, k)
     | Inr (i, f) \<Rightarrow>
         if \<not> has_read (vn_ops (k_vnodes k (of_vnode f))) then Some (neg_errno EBADF, k)
         else do {
           (n, off, k) \<leftarrow> vn_read (of_vnode f) buf (unat count) (of_offset f) k;
           Some (of_int n, k\<lparr>k_oft := oft_set_offset i off (k_oft k)\<rparr>) } }"

definition sys_write_vfs :: "u64 \<Rightarrow> u64 \<Rightarrow> u64 \<Rightarrow> kernel \<Rightarrow> (u64 \<times> kernel) option" where
  "sys_write_vfs fd buf count k = do {
     r \<leftarrow> fd_file fd (bad_buffer buf count) k;
     case r of
       Inl e \<Rightarrow> Some (neg_errno e, k)
     | Inr (i, f) \<Rightarrow>
         if \<not> has_write (vn_ops (k_vnodes k (of_vnode f))) then Some (neg_errno EBADF, k)
         else do {
           (n, k) \<leftarrow> vn_write (of_vnode f) buf (unat count) k;
           Some (of_int n, k) } }"

definition sys_lseek :: "u64 \<Rightarrow> u64 \<Rightarrow> u64 \<Rightarrow> kernel \<Rightarrow> (u64 \<times> kernel) option" where
  "sys_lseek fd offset whence k = do {
     r \<leftarrow> fd_file fd None k;
     case r of
       Inl e \<Rightarrow> Some (neg_errno e, k)
     | Inr (i, f) \<Rightarrow>
         let vn = k_vnodes k (of_vnode f) in
         if has_lseek (vn_ops vn) then
           let n = vn_lseek (vn_ops vn) offset (ucast whence) in
           Some (of_int n, if n \<ge> 0 then k\<lparr>k_oft := oft_set_offset i (of_int n) (k_oft k)\<rparr> else k)
         else if whence > 2 then Some (neg_errno EINVAL, k)
         else let new_off = (if whence = 0 then offset
                             else if whence = 1 then of_offset f + offset
                             else vn_size vn + offset) in
           if sint new_off < 0 then Some (neg_errno EINVAL, k)
           else Some (new_off, k\<lparr>k_oft := oft_set_offset i new_off (k_oft k)\<rparr>) }"

lemma vn_readdir_bound: "vn_readdir vn i = Some d \<Longrightarrow> i < 6"
  by (auto simp: vn_readdir_def rootfs_readdir_def devfs_readdir_def split: if_splits)

text \<open>The loop of \<open>sys_getdents\<close>: \<open>left\<close> entries may still be written at \<open>ptr\<close>.\<close>
function getdents_loop :: "vnode \<Rightarrow> nat \<Rightarrow> nat \<Rightarrow> u64 \<Rightarrow> kernel \<Rightarrow> (nat \<times> kernel) option" where
  "getdents_loop vn index left ptr k =
     (if left = 0 then Some (0, k)
      else case vn_readdir vn index of
        None \<Rightarrow> Some (0, k)
      | Some d \<Rightarrow>
          let reclen = unat (d_reclen d) in
          if reclen = 0 \<or> reclen > DIRENT_SIZE then Some (0, k)
          else do {
            k \<leftarrow> user_store ptr (take reclen (dirent_bytes d)) k;
            (n, k) \<leftarrow> getdents_loop vn (index + 1) (left - 1) (ptr + of_nat reclen) k;
            Some (n + 1, k) })"
  by pat_completeness auto
termination
  by (relation "measure (\<lambda>(_, _, left, _). left)") auto

declare getdents_loop.simps [simp del]

definition sys_getdents :: "u64 \<Rightarrow> u64 \<Rightarrow> u64 \<Rightarrow> kernel \<Rightarrow> (u64 \<times> kernel) option" where
  "sys_getdents fd dirent count k = do {
     r \<leftarrow> fd_file fd (bad_buffer dirent count) k;
     case r of
       Inl e \<Rightarrow> Some (neg_errno e, k)
     | Inr (i, f) \<Rightarrow>
         if \<not> has_readdir (vn_ops (k_vnodes k (of_vnode f))) then Some (neg_errno ENOTTY, k)
         else do {
           (n, k) \<leftarrow> getdents_loop (k_vnodes k (of_vnode f)) 0 (unat count) dirent k;
           Some (of_nat n, k) } }"

text \<open>The NUL-terminated contents of a fixed buffer.\<close>
definition cstr :: "u8 list \<Rightarrow> u8 list" where
  "cstr buf = takeWhile (\<lambda>b. b \<noteq> 0) buf"

definition sys_stat :: "u64 \<Rightarrow> u64 \<Rightarrow> kernel \<Rightarrow> (u64 \<times> kernel) option" where
  "sys_stat path statbuf k = do {
     p \<leftarrow> user_path path k;
     case p of
       Inl e \<Rightarrow> Some (neg_errno e, k)
     | Inr bs \<Rightarrow> do {
         proc \<leftarrow> process_mut (k_cur k) k;
         (r, k) \<leftarrow> vfs_resolve_relative (cstr (p_cwd proc)) bs k;
         case r of
           Inl e \<Rightarrow> Some (neg_errno e, k)
         | Inr v \<Rightarrow> do { k \<leftarrow> user_store statbuf (stat_bytes (k_vnodes k v)) k; Some (0, k) } } }"

definition sys_fstat :: "u64 \<Rightarrow> u64 \<Rightarrow> kernel \<Rightarrow> (u64 \<times> kernel) option" where
  "sys_fstat fd statbuf k = do {
     r \<leftarrow> fd_file fd (if statbuf = 0 then Some EFAULT else None) k;
     case r of
       Inl e \<Rightarrow> Some (neg_errno e, k)
     | Inr (i, f) \<Rightarrow> do {
         k \<leftarrow> user_store statbuf (stat_bytes (k_vnodes k (of_vnode f))) k; Some (0, k) } }"

text \<open>The new working directory string: the absolute path, or the old directory, a slash
  and the path, cut at 255 bytes.\<close>
definition new_cwd :: "u8 list \<Rightarrow> u8 list \<Rightarrow> u8 list" where
  "new_cwd cwd path =
     (if path \<noteq> [] \<and> hd path = 0x2F then take (PATH_MAX - 1) path
      else let c = (if cwd \<noteq> [] \<and> last cwd \<noteq> 0x2F then cwd @ [0x2F] else cwd)
           in c @ take (PATH_MAX - 1 - length c) path)"

definition store_cwd :: "u8 list \<Rightarrow> u8 list \<Rightarrow> u8 list" where
  "store_cwd new buf = (let n = min (length new) (PATH_MAX - 1) in take n new @ [0] @ drop (n + 1) buf)"

definition sys_chdir :: "u64 \<Rightarrow> kernel \<Rightarrow> (u64 \<times> kernel) option" where
  "sys_chdir path k = do {
     p \<leftarrow> user_path path k;
     case p of
       Inl e \<Rightarrow> Some (neg_errno e, k)
     | Inr bs \<Rightarrow> do {
         proc \<leftarrow> process_mut (k_cur k) k;
         (r, k) \<leftarrow> vfs_resolve_relative (cstr (p_cwd proc)) bs k;
         case r of
           Inl e \<Rightarrow> Some (neg_errno e, k)
         | Inr v \<Rightarrow>
             if vn_mode (k_vnodes k v) AND V_DIR = 0 then Some (neg_errno ENOTDIR, k)
             else Some (0, set_process (k_cur k)
                    (\<lambda>q. q\<lparr>p_cwd := store_cwd (new_cwd (cstr (p_cwd proc)) bs) (p_cwd q)\<rparr>) k) } }"

definition sys_getcwd :: "u64 \<Rightarrow> u64 \<Rightarrow> kernel \<Rightarrow> (u64 \<times> kernel) option" where
  "sys_getcwd buf sz k = do {
     proc \<leftarrow> process_mut (k_cur k) k;
     let cwd_len = (if 0 \<in> set (p_cwd proc) then length (cstr (p_cwd proc)) else 255);
     if buf = 0 then Some (neg_errno EFAULT, k)
     else if sz > 0 then do {
       let copy_len = min cwd_len (unat (sz - 1));
       k \<leftarrow> user_store buf (take copy_len (p_cwd proc)) k;
       k \<leftarrow> user_store (buf + of_nat copy_len) [0] k;
       Some (buf, k) }
     else Some (buf, k) }"

definition is_tty :: "kernel \<Rightarrow> open_file \<Rightarrow> bool" where
  "is_tty k f \<longleftrightarrow> vn_ops (k_vnodes k (of_vnode f)) = TTY_OPS"

definition sys_isatty :: "u64 \<Rightarrow> kernel \<Rightarrow> (u64 \<times> kernel) option" where
  "sys_isatty fd k = do {
     r \<leftarrow> fd_file fd None k;
     Some (case r of Inl e \<Rightarrow> neg_errno e | Inr (i, f) \<Rightarrow> if is_tty k f then 1 else 0, k) }"

text \<open>\<open>sys_tcgetattr\<close> and \<open>sys_tcsetattr\<close> differ in the request number; a negative result
  of the terminal is negated before it is returned.\<close>
definition tc_call :: "u64 \<Rightarrow> u64 \<Rightarrow> u64 \<Rightarrow> kernel \<Rightarrow> (u64 \<times> kernel) option" where
  "tc_call request fd arg k =
     (if fd \<ge> of_nat MAX_FDS \<or> arg = 0 then Some (neg_errno EBADF, k)
      else do {
        r \<leftarrow> fd_file fd None k;
        case r of
          Inl e \<Rightarrow> Some (neg_errno e, k)
        | Inr (i, f) \<Rightarrow>
            if \<not> is_tty k f then Some (neg_errno ENOTTY, k)
            else do {
              (rc, k) \<leftarrow> tty_ioctl request arg k;
              Some (if rc < 0 then of_int (- rc) else 0, k) } })"

definition sys_tcgetattr :: "u64 \<Rightarrow> u64 \<Rightarrow> kernel \<Rightarrow> (u64 \<times> kernel) option" where
  "sys_tcgetattr = tc_call 0x5401"

definition sys_tcsetattr :: "u64 \<Rightarrow> u64 \<Rightarrow> kernel \<Rightarrow> (u64 \<times> kernel) option" where
  "sys_tcsetattr = tc_call 0x5402"

end
