(* ===== verification/Fd_Calls.thy ===== *)
theory Fd_Calls imports File_Calls begin

text \<open>The calls that create and duplicate descriptors: \<open>sys_dup\<close>, \<open>sys_dup2\<close>, \<open>sys_read\<close> and
  \<open>sys_write\<close> of \<open>syscall.rs\<close> and \<open>sys_pipe\<close> of \<open>vfs/pipe.rs\<close> with its roll backs; and
  the reference-count discipline of the open file table.\<close>

definition sys_write :: "u64 \<Rightarrow> u64 \<Rightarrow> u64 \<Rightarrow> kernel \<Rightarrow> (u64 \<times> kernel) option" where
  "sys_write fd buf len k =
     (if fd \<ge> of_nat MAX_FDS \<or> buf = 0 \<or> len = 0 then Some (0, k)
      else do {
        r \<leftarrow> fd_file fd None k;
        case r of
          Inl e \<Rightarrow> Some (0, k)
        | Inr (i, f) \<Rightarrow>
            if has_write (vn_ops (k_vnodes k (of_vnode f))) then do {
              (n, k) \<leftarrow> vn_write (of_vnode f) buf (unat len) k;
              Some (if n < 0 then 0 else of_int n, k) }
            else Some (0, k) })"

definition sys_read :: "u64 \<Rightarrow> u64 \<Rightarrow> u64 \<Rightarrow> kernel \<Rightarrow> (u64 \<times> kernel) option" where
  "sys_read fd buf len k =
     (if fd \<ge> of_nat MAX_FDS \<or> buf = 0 \<or> len = 0 then Some (- 1, k)
      else do {
        r \<leftarrow> fd_file fd None k;
        case r of
          Inl e \<Rightarrow> Some (- 1, k)
        | Inr (i, f) \<Rightarrow>
            if has_read (vn_ops (k_vnodes k (of_vnode f))) then do {
              (n, off, k) \<leftarrow> vn_read (of_vnode f) buf (unat len) (of_offset f) k;
              Some (if n < 0 then - 1 else of_int n, k\<lparr>k_oft := oft_set_offset i off (k_oft k)\<rparr>) }
            else Some (- 1, k) })"

definition sys_dup :: "u64 \<Rightarrow> kernel \<Rightarrow> (u64 \<times> kernel) option" where
  "sys_dup old_fd k =
     (if old_fd \<ge> of_nat MAX_FDS then Some (neg_errno EBADF, k)
      else do {
        fds \<leftarrow> cur_fds k;
        let i = fds ! unat old_fd;
        if i < 0 then Some (neg_errno EBADF, k)
        else case free_fd fds of
          Some fd \<Rightarrow> Some (of_nat fd, (set_fd fd i k)\<lparr>k_oft := oft_incref (nat i) (k_oft k)\<rparr>)
        | None \<Rightarrow> Some (neg_errno EMFILE, k) })"

definition sys_dup2 :: "u64 \<Rightarrow> u64 \<Rightarrow> kernel \<Rightarrow> (u64 \<times> kernel) option" where
  "sys_dup2 old_fd new_fd k =
     (if old_fd \<ge> of_nat MAX_FDS \<or> new_fd \<ge> of_nat MAX_FDS then Some (neg_errno EBADF, k)
      else do {
        fds \<leftarrow> cur_fds k;
        let i = fds ! unat old_fd;
        if i < 0 then Some (neg_errno EBADF, k)
        else if oft_get (nat i) (k_oft k) = None then Some (neg_errno EBADF, k)
        else if old_fd = new_fd then Some (new_fd, k)
        else do {
          let j = fds ! unat new_fd;
          k \<leftarrow> (if j \<ge> 0 then oft_decref (nat j) (set_fd (unat new_fd) (- 1) k) else Some k);
          let k = set_fd (unat new_fd) i k;
          Some (new_fd, k\<lparr>k_oft := oft_incref (nat i) (k_oft k)\<rparr>) } })"

subsection \<open>sys_pipe\<close>

definition pipe_vnode :: "vnode_ops \<Rightarrow> u64 \<Rightarrow> vnode" where
  "pipe_vnode ops pb = \<lparr>vn_ops = ops, vn_mode = V_CHR OR 0x180, vn_ino = 0, vn_size = 0,
     vn_fs_type = DevFS, vn_data = Data_Pipe pb, vn_mount = None\<rparr>"

text \<open>Steps 6 and 7: two descriptors, or both files released.\<close>
definition pipe_install :: "u64 \<Rightarrow> nat \<Rightarrow> nat \<Rightarrow> kernel \<Rightarrow> (u64 \<times> kernel) option" where
  "pipe_install pipefd ri wi k = do {
     fds \<leftarrow> cur_fds k;
     case free_fd fds of
       None \<Rightarrow> do {
         k \<leftarrow> oft_decref ri k;
         k \<leftarrow> oft_decref wi k;
         Some (neg_errno EMFILE, k) }
     | Some rfd \<Rightarrow> do {
         let k = set_fd rfd (int ri) k;
         fds \<leftarrow> cur_fds k;
         case free_fd fds of
           None \<Rightarrow> do {
             k \<leftarrow> oft_decref ri (set_fd rfd (- 1) k);
             k \<leftarrow> oft_decref wi k;
             Some (neg_errno EMFILE, k) }
         | Some wfd \<Rightarrow> do {
             let k = set_fd wfd (int wi) k;
             k \<leftarrow> user_store pipefd (le_bytes 4 (of_nat rfd :: u32)) k;
             k \<leftarrow> user_store (pipefd + 4) (le_bytes 4 (of_nat wfd :: u32)) k;
             Some (0, k) } } }"

text \<open>Steps 4 and 5: the two open files.\<close>
definition pipe_files :: "u64 \<Rightarrow> u64 \<Rightarrow> u64 \<Rightarrow> u64 \<Rightarrow> kernel \<Rightarrow> (u64 \<times> kernel) option" where
  "pipe_files pipefd pb rvn wvn k =
     (case oft_alloc (Heap_Vnode rvn) O_RDONLY 0x180 (k_oft k) of
        (Inl e, _) \<Rightarrow> do {
          k \<leftarrow> k_free pb k;
          k \<leftarrow> k_free rvn k;
          k \<leftarrow> k_free wvn k;
          Some (neg_errno e, k) }
      | (Inr ri, t) \<Rightarrow>
          let k = k\<lparr>k_oft := t\<rparr> in
          (case oft_alloc (Heap_Vnode wvn) O_WRONLY 0x180 (k_oft k) of
             (Inl e, _) \<Rightarrow> do {
               k \<leftarrow> oft_decref ri k;
               k \<leftarrow> k_free pb k;
               k \<leftarrow> k_free wvn k;
               Some (neg_errno e, k) }
           | (Inr wi, t) \<Rightarrow> pipe_install pipefd ri wi (k\<lparr>k_oft := t\<rparr>)))"

definition sys_pipe :: "u64 \<Rightarrow> kernel \<Rightarrow> (u64 \<times> kernel) option" where
  "sys_pipe pipefd k =
     (if pipefd = 0 then Some (neg_errno EINVAL, k)
      else do {
        (pb, k) \<leftarrow> k_malloc PIPE_STRUCT_SIZE k;
        if pb = 0 then Some (neg_errno ENOMEM, k)
        else do {
          let k = set_pipe pb pipe_buf_new k;
          (rvn, k) \<leftarrow> k_malloc VNODE_SIZE k;
          if rvn = 0 then do { k \<leftarrow> k_free pb k; Some (neg_errno ENOMEM, k) }
          else do {
            let k = set_vnode (Heap_Vnode rvn) (pipe_vnode PIPE_READ_OPS pb) k;
            (wvn, k) \<leftarrow> k_malloc VNODE_SIZE k;
            if wvn = 0 then do {
              k \<leftarrow> k_free pb k;
              k \<leftarrow> k_free rvn k;
              Some (neg_errno ENOMEM, k) }
            else pipe_files pipefd pb rvn wvn
                   (set_vnode (Heap_Vnode wvn) (pipe_vnode PIPE_WRITE_OPS pb) k) } } })"

end
