(* ===== verification/Signal.thy ===== *)
theory Signal imports Tty begin

text \<open>Signals (\<open>signal.rs\<close>) with \<open>mark_zombie\<close> of \<open>process.rs\<close>: the check on the system
  call path, delivery on the scheduler paths with the signal frame on the user stack,
  the calls \<open>kill\<close>, \<open>sigaction\<close> and \<open>sigreturn\<close>, and the frame that the exit path of
  \<open>syscall_entry.asm\<close> builds from what \<open>sigreturn\<close> left.

  Kernel stacks are in identity-mapped memory, so a register frame is read and written at
  its address; the signal frame is on the user stack and goes through the page tables.\<close>

definition SIG_DFL :: u64 where "SIG_DFL = 0"
definition SIG_IGN :: u64 where "SIG_IGN = 1"
definition SIGKILL :: nat where "SIGKILL = 9"
definition SIGUSR1 :: nat where "SIGUSR1 = 10"
definition SIGUSR2 :: nat where "SIGUSR2 = 12"
definition NUM_SIGS :: nat where "NUM_SIGS = 32"
definition SIGFRAME_SIZE :: u64 where "SIGFRAME_SIZE = 160"

datatype signal_result = SigNone | Terminated | CustomPending

definition sig_bit :: "nat \<Rightarrow> u64" where
  "sig_bit sig = push_bit sig 1"

definition pending :: "nat \<Rightarrow> process \<Rightarrow> bool" where
  "pending sig p \<longleftrightarrow> p_sig_pending p AND sig_bit sig \<noteq> 0"

definition clear_sig :: "nat \<Rightarrow> process \<Rightarrow> process" where
  "clear_sig sig p = p\<lparr>p_sig_pending := p_sig_pending p AND NOT (sig_bit sig)\<rparr>"

text \<open>A 64-bit store to identity-mapped memory.\<close>
definition kstore :: "u64 \<Rightarrow> u64 \<Rightarrow> kernel \<Rightarrow> kernel" where
  "kstore a v k = k\<lparr>k_mem := store64 a v (k_mem k)\<rparr>"

definition kload :: "u64 \<Rightarrow> kernel \<Rightarrow> u64" where
  "kload a k = load64 (k_mem k) a"

definition mark_zombie :: "u64 \<Rightarrow> u64 \<Rightarrow> kernel \<Rightarrow> kernel option" where
  "mark_zombie pid exit_code k = do {
     proc \<leftarrow> process_mut pid k;
     let k = set_process pid (\<lambda>p. p\<lparr>p_state := Zombie, p_exit_code := exit_code\<rparr>) k;
     let parent_pid = p_parent_pid proc;
     if parent_pid = 0 then Some k
     else case process_mut_if parent_pid (k_slots k) of
       None \<Rightarrow> Some k
     | Some parent \<Rightarrow>
         if p_state parent = Blocked \<and> p_wait_for_pid parent = pid then
           Some (set_process parent_pid (\<lambda>p. p\<lparr>p_state := Ready, p_wait_for_pid := 0\<rparr>)
             (if p_kernel_rsp parent \<noteq> 0 then kstore (p_kernel_rsp parent) 0 k else k))
         else Some k }"

text \<open>The signals whose default action terminates.\<close>
definition fatal :: "nat \<Rightarrow> bool" where
  "fatal sig \<longleftrightarrow> sig \<in> {SIGKILL, SIGINT, SIGUSR1, SIGUSR2}"

definition handler_of :: "nat \<Rightarrow> process \<Rightarrow> u64" where
  "handler_of sig p = sa_handler (p_sigactions p ! sig)"

subsection \<open>The system call path\<close>

fun scan_syscall :: "nat list \<Rightarrow> u64 \<Rightarrow> signal_result \<Rightarrow> kernel \<Rightarrow> (signal_result \<times> kernel) option" where
  "scan_syscall [] pid result k = Some (result, k)"
| "scan_syscall (sig # sigs) pid result k = do {
     proc \<leftarrow> process_mut pid k;
     if \<not> pending sig proc then scan_syscall sigs pid result k
     else if handler_of sig proc = SIG_IGN
     then scan_syscall sigs pid result (set_process pid (clear_sig sig) k)
     else if handler_of sig proc = SIG_DFL
     then (if fatal sig then do {
             k \<leftarrow> mark_zombie pid (128 + of_nat sig) (set_process pid (clear_sig sig) k);
             Some (Terminated, k) }
           else scan_syscall sigs pid result (set_process pid (clear_sig sig) k))
     else scan_syscall sigs pid CustomPending k }"

definition check_signals_syscall :: "u64 \<Rightarrow> kernel \<Rightarrow> (signal_result \<times> kernel) option" where
  "check_signals_syscall pid k =
     (if pid = 0 \<or> pid = 2 then Some (SigNone, k)
      else do {
        proc \<leftarrow> process_mut pid k;
        if p_sig_pending proc = 0 then Some (SigNone, k)
        else if p_in_signal proc then
          (if pending SIGKILL proc then do {
             k \<leftarrow> mark_zombie pid (128 + of_nat SIGKILL) (set_process pid (clear_sig SIGKILL) k);
             Some (Terminated, k) }
           else Some (SigNone, k))
        else scan_syscall [1..<NUM_SIGS] pid SigNone k })"

subsection \<open>The scheduler path\<close>

text \<open>The fields of \<open>InterruptFrame\<close> by their offset: the registers RAX to R15, then
  \<open>int_no\<close>, \<open>err_code\<close>, RIP, CS, RFLAGS, user RSP and SS.\<close>
definition FR_RDI :: u64 where "FR_RDI = 48"
definition FR_RIP :: u64 where "FR_RIP = 136"
definition FR_CS :: u64 where "FR_CS = 144"
definition FR_RFLAGS :: u64 where "FR_RFLAGS = 152"
definition FR_RSP :: u64 where "FR_RSP = 160"
definition FR_SS :: u64 where "FR_SS = 168"

definition frame_gprs :: "u64 \<Rightarrow> kernel \<Rightarrow> u64 list" where
  "frame_gprs krsp k = map (\<lambda>i. kload (krsp + 8 * of_nat i) k) [0..<15]"

text \<open>The 20 quadwords of the signal frame.\<close>
definition sig_frame :: "u64 \<Rightarrow> nat \<Rightarrow> u64 \<Rightarrow> kernel \<Rightarrow> u64 list" where
  "sig_frame krsp sig saved k =
     frame_gprs krsp k @ [kload (krsp + FR_RFLAGS) k, kload (krsp + FR_RSP) k, kload (krsp + FR_RIP) k,
       of_nat sig, saved]"

definition qwords :: "u64 list \<Rightarrow> u8 list" where
  "qwords vs = concat (map (le_bytes 8) vs)"

fun of_qwords :: "nat \<Rightarrow> u8 list \<Rightarrow> u64 list" where
  "of_qwords 0 bs = []"
| "of_qwords (Suc n) bs = of_le (take 8 bs) # of_qwords n (drop 8 bs)"

text \<open>Delivery to a custom handler.  The result says whether the process was killed.\<close>
definition deliver_custom :: "u64 \<Rightarrow> u64 \<Rightarrow> nat \<Rightarrow> u64 \<Rightarrow> u64 \<Rightarrow> kernel \<Rightarrow> (bool \<times> kernel) option" where
  "deliver_custom pid krsp sig handler user_rsp k = do {
     let k = set_process pid (clear_sig sig) k;
     proc \<leftarrow> process_mut pid k;
     if user_rsp < p_stack_low proc + SIGFRAME_SIZE then do {
       k \<leftarrow> mark_zombie pid (128 + of_nat SIGKILL) k;
       Some (True, k) }
     else do {
       let frame_rsp = user_rsp - SIGFRAME_SIZE;
       k \<leftarrow> user_store frame_rsp (qwords (sig_frame krsp sig (p_sig_pending proc) k)) k;
       let k = set_process pid (\<lambda>p. p\<lparr>p_sigframe_rsp := frame_rsp, p_in_signal := True\<rparr>) k;
       Some (False, kstore (krsp + FR_RSP) frame_rsp
         (kstore (krsp + FR_RIP) handler (kstore (krsp + FR_RDI) (of_nat sig) k))) } }"

fun scan_deliver :: "nat list \<Rightarrow> u64 \<Rightarrow> u64 \<Rightarrow> u64 \<Rightarrow> kernel \<Rightarrow> (bool \<times> kernel) option" where
  "scan_deliver [] pid krsp user_rsp k = Some (False, k)"
| "scan_deliver (sig # sigs) pid krsp user_rsp k = do {
     proc \<leftarrow> process_mut pid k;
     if \<not> pending sig proc then scan_deliver sigs pid krsp user_rsp k
     else if handler_of sig proc = SIG_IGN
     then scan_deliver sigs pid krsp user_rsp (set_process pid (clear_sig sig) k)
     else if handler_of sig proc = SIG_DFL
     then (if fatal sig then do {
             k \<leftarrow> mark_zombie pid (128 + of_nat sig) (set_process pid (clear_sig sig) k);
             Some (True, k) }
           else scan_deliver sigs pid krsp user_rsp (set_process pid (clear_sig sig) k))
     else deliver_custom pid krsp sig (handler_of sig proc) user_rsp k }"

definition deliver_pending_signals :: "u64 \<Rightarrow> u64 \<Rightarrow> kernel \<Rightarrow> (bool \<times> kernel) option" where
  "deliver_pending_signals pid krsp k =
     (if pid = 0 \<or> pid = 2 then Some (False, k)
      else do {
        proc \<leftarrow> process_mut pid k;
        if p_sig_pending proc = 0 then Some (False, k)
        else if p_in_signal proc then
          (if pending SIGKILL proc then do {
             k \<leftarrow> mark_zombie pid (128 + of_nat SIGKILL) (set_process pid (clear_sig SIGKILL) k);
             Some (True, k) }
           else Some (False, k))
        else if kload (krsp + FR_CS) k AND 3 \<noteq> 3 then Some (False, k)
        else scan_deliver [1..<NUM_SIGS] pid krsp (kload (krsp + FR_RSP) k) k })"

subsection \<open>The calls\<close>

definition sys_kill :: "u64 \<Rightarrow> u64 \<Rightarrow> kernel \<Rightarrow> (u64 \<times> kernel) option" where
  "sys_kill pid sig k =
     (if pid = 0 \<or> sig = 0 \<or> sig \<ge> 32 then Some (of_int (- 22), k)
      else if pid = 2 then Some (0, k)
      else do {
        proc \<leftarrow> process_mut pid k;
        if p_state proc = Zombie then Some (of_int (- 3), k)
        else Some (0, set_process pid (\<lambda>p. p\<lparr>
               p_sig_pending := p_sig_pending p OR sig_bit (unat sig),
               p_state := (if p_state p = Blocked then Ready else p_state p)\<rparr>) k) })"

definition action_bytes :: "sig_action \<Rightarrow> u8 list" where
  "action_bytes a = qwords [sa_handler a, sa_mask a, sa_flags a]"

definition action_of_bytes :: "u8 list \<Rightarrow> sig_action" where
  "action_of_bytes bs = (case of_qwords 3 bs of
     [h, ms, fl] \<Rightarrow> \<lparr>sa_handler = h, sa_mask = ms, sa_flags = fl\<rparr> | _ \<Rightarrow> sig_action_default)"

definition sys_sigaction :: "u64 \<Rightarrow> u64 \<Rightarrow> u64 \<Rightarrow> kernel \<Rightarrow> (u64 \<times> kernel) option" where
  "sys_sigaction signum act oldact k =
     (if signum = 0 \<or> signum \<ge> 32 then Some (of_int (- 22), k)
      else if signum = of_nat SIGKILL then Some (of_int (- 22), k)
      else do {
        proc \<leftarrow> process_mut (k_cur k) k;
        k \<leftarrow> (if oldact \<noteq> 0 then user_store oldact (action_bytes (p_sigactions proc ! unat signum)) k
              else Some k);
        if act \<noteq> 0 then do {
          bs \<leftarrow> user_load act 24 k;
          Some (0, set_process (k_cur k)
            (\<lambda>p. p\<lparr>p_sigactions := (p_sigactions p)[unat signum := action_of_bytes bs]\<rparr>) k) }
        else Some (0, k) })"

definition sys_sigreturn :: "kernel \<Rightarrow> (u64 \<times> kernel) option" where
  "sys_sigreturn k = do {
     proc \<leftarrow> process_mut (k_cur k) k;
     let frame_addr = p_sigframe_rsp proc;
     if frame_addr = 0 then Some (0, k)
     else do {
       bs \<leftarrow> user_load frame_addr 160 k;
       let buf = of_qwords 20 bs;
       let k = k\<lparr>k_sigreturn_frame := take 15 buf @ [buf ! 17, buf ! 16, buf ! 15], k_sigreturn_pending := True\<rparr>;
       let k = set_process (k_cur k) (\<lambda>p. p\<lparr>p_sigframe_rsp := 0, p_in_signal := False, p_sig_pending := buf ! 19\<rparr>) k;
       Some (0, set_schedule k) } }"

text \<open>The assembly exit path \<open>.exit_or_block\<close>: 22 quadwords pushed below the kernel stack
  pointer \<open>rsp\<close> of the system call, which it returns moved down.\<close>
definition exit_frame :: "u64 \<Rightarrow> kernel \<Rightarrow> u64 list" where
  "exit_frame rax k =
     (if k_sigreturn_pending k
      then take 15 (k_sigreturn_frame k) @ [0, 0, k_sigreturn_frame k ! 15, 0x23, k_sigreturn_frame k ! 17,
             k_sigreturn_frame k ! 16, 0x1B]
      else [rax] @ replicate 14 0 @ [0, 0, k_sys_rip k, 0x23, 0x202, k_sys_rsp k, 0x1B])"

definition exit_or_block :: "u64 \<Rightarrow> u64 \<Rightarrow> kernel \<Rightarrow> u64 \<times> kernel" where
  "exit_or_block rax rsp k =
     (let krsp = rsp - 176 in
      (krsp, k\<lparr>k_mem := write_bytes krsp (qwords (exit_frame rax k)) (k_mem k),
               k_should_schedule := False, k_sigreturn_pending := False\<rparr>))"

end
