(* ===== verification/Paging.thy ===== *)
theory Paging imports Kernel_State begin

text \<open>Page table management (\<open>paging.rs\<close>): the mapping and unmapping operations on the
  active root, the fallible variants of the loaders, the kernel scratch page, the
  constructor of process roots with its roll back, and the destructor.

  Tables are 512-entry arrays at their physical address.  \<open>invlpg\<close> and the interrupt
  guards change no modelled state.\<close>

definition PAGE_ACCESSED :: u64 where "PAGE_ACCESSED = 0x20"
definition PAGE_DIRTY :: u64 where "PAGE_DIRTY = 0x40"
definition PAGE_GLOBAL :: u64 where "PAGE_GLOBAL = 0x100"
definition PAGE_NO_EXEC :: u64 where "PAGE_NO_EXEC = 0x8000000000000000"
definition PAGE_KERNEL :: u64 where "PAGE_KERNEL = PAGE_PRESENT OR PAGE_WRITABLE"
definition PAGE_KERNEL_HUGE :: u64 where "PAGE_KERNEL_HUGE = PAGE_PRESENT OR PAGE_WRITABLE OR PAGE_HUGE"
definition PAGE_USER_RW :: u64 where "PAGE_USER_RW = PAGE_PRESENT OR PAGE_WRITABLE OR PAGE_USER"
definition PAGE_USER_RO :: u64 where "PAGE_USER_RO = PAGE_PRESENT OR PAGE_USER"
definition KERNEL_SCRATCH_VA :: u64 where "KERNEL_SCRATCH_VA = 0x40000000"
definition USER_CODE_ADDR :: u64 where "USER_CODE_ADDR = 0x2000000"

definition overlaps_kernel_scratch :: "u64 \<Rightarrow> u64 \<Rightarrow> bool" where
  "overlaps_kernel_scratch s e \<longleftrightarrow> s < KERNEL_SCRATCH_VA + 0x1000 \<and> e > KERNEL_SCRATCH_VA"

definition sat_add :: "u64 \<Rightarrow> u64 \<Rightarrow> u64" where
  "sat_add a b = (if a + b < a then - 1 else a + b)"

subsection \<open>Tables and pages\<close>

definition read_cr3 :: "kernel \<Rightarrow> u64" where
  "read_cr3 k = k_cr3 k AND ADDR_MASK"

definition write_cr3 :: "u64 \<Rightarrow> kernel \<Rightarrow> kernel" where
  "write_cr3 r k = k\<lparr>k_cr3 := r\<rparr>"

definition entry :: "u64 \<Rightarrow> nat \<Rightarrow> kernel \<Rightarrow> u64" where
  "entry t i k = get_entry (k_mem k) t i"

definition put_entry :: "u64 \<Rightarrow> nat \<Rightarrow> u64 \<Rightarrow> kernel \<Rightarrow> kernel" where
  "put_entry t i v k = k\<lparr>k_mem := set_entry t i v (k_mem k)\<rparr>"

definition page_alloc :: "kernel \<Rightarrow> u64 \<times> kernel" where
  "page_alloc k = (let (p, pm) = alloc (k_pmm k) in (p, k\<lparr>k_pmm := pm\<rparr>))"

definition page_free :: "u64 \<Rightarrow> kernel \<Rightarrow> kernel" where
  "page_free a k = k\<lparr>k_pmm := free a (k_pmm k)\<rparr>"

definition fill_page :: "u64 \<Rightarrow> u8 \<Rightarrow> mem \<Rightarrow> mem" where
  "fill_page p b m = (\<lambda>a. if a - p < 0x1000 then b else m a)"

definition zero_table :: "u64 \<Rightarrow> kernel \<Rightarrow> kernel" where
  "zero_table p k = k\<lparr>k_mem := fill_page p 0 (k_mem k)\<rparr>"

definition table_empty :: "u64 \<Rightarrow> kernel \<Rightarrow> bool" where
  "table_empty t k = list_all (\<lambda>i. entry t i k = 0) [0..<512]"

text \<open>The \<open>|=\<close> on an entry.\<close>
definition or_entry :: "u64 \<Rightarrow> nat \<Rightarrow> u64 \<Rightarrow> kernel \<Rightarrow> kernel" where
  "or_entry t i fl k = put_entry t i (entry t i k OR fl) k"

subsection \<open>Mapping\<close>

definition try_get_or_create_table :: "u64 \<Rightarrow> nat \<Rightarrow> kernel \<Rightarrow> u64 option \<times> kernel" where
  "try_get_or_create_table t i k =
     (if present (entry t i k) then (Some (frame (entry t i k)), k)
      else let (page, k) = page_alloc k in
        if page = 0 then (None, k)
        else (Some page, put_entry t i (page OR PAGE_KERNEL OR PAGE_USER) (zero_table page k)))"

text \<open>The infallible variant halts when no page is left.\<close>
definition get_or_create_table :: "u64 \<Rightarrow> nat \<Rightarrow> kernel \<Rightarrow> (u64 \<times> kernel) option" where
  "get_or_create_table t i k =
     (if present (entry t i k) then Some (frame (entry t i k), k)
      else let (page, k) = page_alloc k in
        if page = 0 then None
        else Some (page, put_entry t i (page OR PAGE_KERNEL OR PAGE_USER) (zero_table page k)))"

definition map_4k :: "u64 \<Rightarrow> u64 \<Rightarrow> u64 \<Rightarrow> kernel \<Rightarrow> kernel option" where
  "map_4k vaddr paddr flags k =
     (if user flags \<and> overlaps_kernel_scratch vaddr (sat_add vaddr 0x1000) then Some k
      else let (l4i, l3i, l2i, l1i) = indices vaddr; l4 = read_cr3 k in do {
        (l3, k) \<leftarrow> get_or_create_table l4 l4i k;
        (l2, k) \<leftarrow> get_or_create_table l3 l3i k;
        (l1, k) \<leftarrow> get_or_create_table l2 l2i k;
        let k = put_entry l1 l1i (paddr OR flags) k;
        Some (if user flags
              then or_entry l2 l2i PAGE_USER (or_entry l3 l3i PAGE_USER (or_entry l4 l4i PAGE_USER k))
              else k) })"

definition try_map_4k :: "u64 \<Rightarrow> u64 \<Rightarrow> u64 \<Rightarrow> kernel \<Rightarrow> bool \<times> kernel" where
  "try_map_4k vaddr paddr flags k =
     (if user flags \<and> overlaps_kernel_scratch vaddr (sat_add vaddr 0x1000) then (False, k)
      else if translate_in_pml4 (k_mem k) vaddr (read_cr3 k) \<noteq> None then (False, k)
      else let (l4i, l3i, l2i, l1i) = indices vaddr; l4 = read_cr3 k in
        case try_get_or_create_table l4 l4i k of
          (None, k) \<Rightarrow> (False, k)
        | (Some l3, k) \<Rightarrow>
        (case try_get_or_create_table l3 l3i k of
          (None, k) \<Rightarrow> (False, k)
        | (Some l2, k) \<Rightarrow>
        (case try_get_or_create_table l2 l2i k of
          (None, k) \<Rightarrow> (False, k)
        | (Some l1, k) \<Rightarrow>
            let k = put_entry l1 l1i (paddr OR flags) k in
            (True, if user flags
                   then or_entry l2 l2i PAGE_USER (or_entry l3 l3i PAGE_USER (or_entry l4 l4i PAGE_USER k))
                   else k))))"

definition switch_cr3 :: "u64 \<Rightarrow> kernel \<Rightarrow> kernel" where
  "switch_cr3 target k = (if target \<noteq> read_cr3 k then write_cr3 target k else k)"

definition map_4k_target :: "u64 \<Rightarrow> u64 \<Rightarrow> u64 \<Rightarrow> u64 \<Rightarrow> kernel \<Rightarrow> kernel option" where
  "map_4k_target vaddr paddr flags target k = do {
     let saved = read_cr3 k;
     k \<leftarrow> map_4k vaddr paddr flags (switch_cr3 target k);
     Some (if target \<noteq> saved then write_cr3 saved k else k) }"

definition try_map_4k_target :: "u64 \<Rightarrow> u64 \<Rightarrow> u64 \<Rightarrow> u64 \<Rightarrow> kernel \<Rightarrow> bool \<times> kernel" where
  "try_map_4k_target vaddr paddr flags target k =
     (let saved = read_cr3 k; (ok, k) = try_map_4k vaddr paddr flags (switch_cr3 target k) in
      (ok, if target \<noteq> saved then write_cr3 saved k else k))"

definition map_2m :: "u64 \<Rightarrow> u64 \<Rightarrow> u64 \<Rightarrow> kernel \<Rightarrow> kernel option" where
  "map_2m vaddr paddr flags k = (let (l4i, l3i, l2i, _) = indices vaddr in do {
     (l3, k) \<leftarrow> get_or_create_table (read_cr3 k) l4i k;
     (l2, k) \<leftarrow> get_or_create_table l3 l3i k;
     Some (if \<not> present (entry l2 l2i k) then put_entry l2 l2i (paddr OR flags) k else k) })"

fun map_2m_from :: "nat \<Rightarrow> u64 \<Rightarrow> u64 \<Rightarrow> u64 \<Rightarrow> kernel \<Rightarrow> kernel option" where
  "map_2m_from 0 vaddr paddr flags k = Some k"
| "map_2m_from (Suc n) vaddr paddr flags k = do {
     k \<leftarrow> map_2m vaddr paddr flags k;
     map_2m_from n (vaddr + 0x200000) (paddr + 0x200000) flags k }"

definition map_range_2m :: "u64 \<Rightarrow> u64 \<Rightarrow> u64 \<Rightarrow> u64 \<Rightarrow> kernel \<Rightarrow> kernel option" where
  "map_range_2m vaddr_start paddr_start sz flags k =
     (let vstart = vaddr_start AND NOT 0x1FFFFF; pstart = paddr_start AND NOT 0x1FFFFF;
          vend = (vaddr_start + sz + 0x1FFFFF) AND NOT 0x1FFFFF;
          count = unat ((vend - vstart) div 0x200000)
      in map_2m_from count vstart pstart flags k)"

definition extend_kernel_identity :: "u64 \<Rightarrow> kernel \<Rightarrow> kernel option" where
  "extend_kernel_identity sz k = map_range_2m 0 0 sz PAGE_KERNEL_HUGE k"

subsection \<open>Unmapping\<close>

definition unmap :: "u64 \<Rightarrow> kernel \<Rightarrow> u64 option \<times> kernel" where
  "unmap vaddr k =
     (let (l4i, l3i, l2i, l1i) = indices vaddr; e4 = entry (read_cr3 k) l4i k in
      if \<not> present e4 then (None, k)
      else let e3 = entry (frame e4) l3i k in
      if \<not> present e3 then (None, k)
      else let e2 = entry (frame e3) l2i k in
      if \<not> present e2 then (None, k)
      else if huge e2 then (Some e2, put_entry (frame e3) l2i 0 k)
      else let e1 = entry (frame e2) l1i k in
      if \<not> present e1 then (None, k)
      else (Some e1, put_entry (frame e2) l1i 0 k))"

text \<open>The table pages that became empty are released bottom up.\<close>
definition free_empty_tables :: "u64 \<Rightarrow> u64 \<Rightarrow> u64 \<Rightarrow> u64 \<Rightarrow> nat \<times> nat \<times> nat \<Rightarrow> kernel \<Rightarrow> kernel" where
  "free_empty_tables l4 l3 l2 l1 ix k =
     (let (l4i, l3i, l2i) = ix in
      if table_empty l1 k then
        (let k = page_free l1 (put_entry l2 l2i 0 k) in
         if table_empty l2 k then
           (let k = page_free l2 (put_entry l3 l3i 0 k) in
            if table_empty l3 k then page_free l3 (put_entry l4 l4i 0 k) else k)
         else k)
      else k)"

definition unmap_and_free_empty :: "u64 \<Rightarrow> kernel \<Rightarrow> u64 option \<times> kernel" where
  "unmap_and_free_empty vaddr k =
     (let (l4i, l3i, l2i, l1i) = indices vaddr; l4 = read_cr3 k; e4 = entry l4 l4i k in
      if \<not> present e4 then (None, k)
      else let l3 = frame e4; e3 = entry l3 l3i k in
      if \<not> present e3 then (None, k)
      else let l2 = frame e3; e2 = entry l2 l2i k in
      if \<not> present e2 \<or> huge e2 then unmap vaddr k
      else let l1 = frame e2; e1 = entry l1 l1i k in
      if \<not> present e1 then (None, k)
      else (Some e1, free_empty_tables l4 l3 l2 l1 (l4i, l3i, l2i) (put_entry l1 l1i 0 k)))"

definition translate :: "u64 \<Rightarrow> kernel \<Rightarrow> u64 option" where
  "translate vaddr k = translate_in_pml4 (k_mem k) vaddr (read_cr3 k)"

subsection \<open>The kernel scratch page\<close>

record scratch_provision =
  new_pd :: u64
  new_pt :: u64

text \<open>Undo of a page directory that the transaction created.\<close>
definition drop_new :: "u64 \<Rightarrow> u64 \<Rightarrow> nat \<Rightarrow> kernel \<Rightarrow> kernel" where
  "drop_new page t i k = (if page \<noteq> 0 then page_free page (put_entry t i 0 k) else k)"

definition provision_pt :: "u64 \<Rightarrow> u64 \<Rightarrow> kernel \<Rightarrow> scratch_provision option \<times> kernel" where
  "provision_pt l3 pd_new k =
     (let (l4i, l3i, l2i, l1i) = indices KERNEL_SCRATCH_VA; l2 = frame (entry l3 l3i k);
          e2 = entry l2 l2i k;
          finish = (\<lambda>pt_new k.
            if present (entry (frame (entry l2 l2i k)) l1i k) \<or> entry (frame (entry l2 l2i k)) l1i k \<noteq> 0
            then (None, drop_new pd_new l3 l3i (drop_new pt_new l2 l2i k))
            else (Some \<lparr>new_pd = pd_new, new_pt = pt_new\<rparr>, k))
      in if \<not> present e2 then
           (let (page, k) = page_alloc k in
            if page = 0 then (None, drop_new pd_new l3 l3i k)
            else finish page (put_entry l2 l2i (page OR PAGE_KERNEL) (zero_table page k)))
         else if huge e2 then (None, drop_new pd_new l3 l3i k)
         else finish 0 k)"

definition provision_kernel_scratch :: "kernel \<Rightarrow> scratch_provision option \<times> kernel" where
  "provision_kernel_scratch k =
     (let (l4i, l3i, l2i, l1i) = indices KERNEL_SCRATCH_VA; e4 = entry (read_cr3 k) l4i k in
      if \<not> present e4 \<or> huge e4 then (None, k)
      else let l3 = frame e4; e3 = entry l3 l3i k in
      if \<not> present e3 then
        (let (page, k) = page_alloc k in
         if page = 0 then (None, k)
         else provision_pt l3 page (put_entry l3 l3i (page OR PAGE_KERNEL) (zero_table page k)))
      else if huge e3 then (None, k)
      else provision_pt l3 0 k)"

text \<open>A table entry is cleared and its page released when it still is the page \<open>new\<close> and
  the page has become empty.\<close>
definition reclaim :: "u64 \<Rightarrow> u64 \<Rightarrow> nat \<Rightarrow> kernel \<Rightarrow> kernel" where
  "reclaim new t i k =
     (if new \<noteq> 0 \<and> frame (entry t i k) = new \<and> \<not> huge (entry t i k) \<and> table_empty (frame (entry t i k)) k
      then page_free new (put_entry t i 0 k) else k)"

definition cleanup_kernel_scratch :: "scratch_provision \<Rightarrow> kernel \<Rightarrow> kernel" where
  "cleanup_kernel_scratch pv k =
     (if new_pd pv = 0 \<and> new_pt pv = 0 then k
      else let (l4i, l3i, l2i, _) = indices KERNEL_SCRATCH_VA; e4 = entry (read_cr3 k) l4i k in
      if \<not> present e4 \<or> huge e4 then k
      else let l3 = frame e4; e3 = entry l3 l3i k in
      if \<not> present e3 \<or> huge e3 then k
      else reclaim (new_pd pv) l3 l3i (reclaim (new_pt pv) (frame e3) l2i k))"

definition kernel_scratch_pte :: "kernel \<Rightarrow> (u64 \<times> nat) option" where
  "kernel_scratch_pte k =
     (let (l4i, l3i, l2i, l1i) = indices KERNEL_SCRATCH_VA; e4 = entry (read_cr3 k) l4i k in
      if \<not> present e4 \<or> huge e4 then None
      else let e3 = entry (frame e4) l3i k in
      if \<not> present e3 \<or> huge e3 then None
      else let e2 = entry (frame e3) l2i k in
      if \<not> present e2 \<or> huge e2 then None
      else Some (frame e2, l1i))"

definition copy_user_page_through_scratch :: "u64 \<Rightarrow> u64 \<Rightarrow> kernel \<Rightarrow> (bool \<times> kernel) option" where
  "copy_user_page_through_scratch src_vaddr child_page k =
     (case kernel_scratch_pte k of
        None \<Rightarrow> Some (False, k)
      | Some (t, i) \<Rightarrow>
          if present (entry t i k) then Some (False, k)
          else do {
            let k = put_entry t i (child_page OR PAGE_KERNEL) k;
            bs \<leftarrow> user_load src_vaddr 0x1000 k;
            k \<leftarrow> user_store KERNEL_SCRATCH_VA bs k;
            Some (True, put_entry t i 0 k) })"

subsection \<open>Destroying a root\<close>

record pml4_handle =
  h_phys :: u64
  owns_user_leaves :: bool

definition destroy_pt :: "bool \<Rightarrow> u64 \<Rightarrow> kernel \<Rightarrow> kernel" where
  "destroy_pt owns pt k =
     page_free pt (fold (\<lambda>i k. let pte = entry pt i k in
       if owns \<and> present pte \<and> user pte then page_free (frame pte) k else k) [0..<512] k)"

definition destroy_pd :: "bool \<Rightarrow> nat \<Rightarrow> u64 \<Rightarrow> kernel \<Rightarrow> kernel" where
  "destroy_pd owns pdpt_idx pd k =
     page_free pd (fold (\<lambda>i k.
       let vaddr = push_bit 30 (of_nat pdpt_idx) OR push_bit 21 (of_nat i); pde = entry pd i k in
       if \<not> present pde then k
       else if vaddr < USER_CODE_ADDR then k
       else if huge pde then (if owns \<and> user pde then page_free (frame pde) k else k)
       else destroy_pt owns (frame pde) k) [0..<512] k)"

definition destroy_uncommitted_pml4 :: "pml4_handle \<Rightarrow> kernel \<Rightarrow> kernel" where
  "destroy_uncommitted_pml4 h k =
     (let e = entry (h_phys h) 0 k in
      if \<not> present e then page_free (h_phys h) k
      else let pdpt = frame e;
               k = fold (\<lambda>i k. let pdpte = entry pdpt i k in
                     if \<not> present pdpte \<or> huge pdpte then k
                     else destroy_pd (owns_user_leaves h) i (frame pdpte) k) [0..<512] k
           in page_free (h_phys h) (page_free pdpt k))"

subsection \<open>Creating a root\<close>

text \<open>A loop with early failure.\<close>
fun try_each :: "('i \<Rightarrow> 's \<Rightarrow> (bool \<times> 's) option) \<Rightarrow> 'i list \<Rightarrow> 's \<Rightarrow> (bool \<times> 's) option" where
  "try_each f [] s = Some (True, s)"
| "try_each f (i # is) s = do { (ok, s) \<leftarrow> f i s; if ok then try_each f is s else Some (False, s) }"

definition TABLE_FLAGS :: u64 where
  "TABLE_FLAGS = PAGE_PRESENT OR PAGE_WRITABLE OR PAGE_USER OR PAGE_ACCESSED OR PAGE_DIRTY OR
     PAGE_HUGE OR PAGE_GLOBAL OR PAGE_NO_EXEC"

definition table_link :: "u64 \<Rightarrow> u64 \<Rightarrow> u64" where
  "table_link page e = page OR (e AND TABLE_FLAGS AND NOT (PAGE_ACCESSED OR PAGE_DIRTY OR PAGE_HUGE))"

text \<open>The clone of one user leaf; the state counts the leaves cloned so far.\<close>
definition clone_leaf :: "nat option \<Rightarrow> u64 \<Rightarrow> u64 \<Rightarrow> u64 \<Rightarrow> nat \<Rightarrow> nat \<times> kernel \<Rightarrow> (bool \<times> nat \<times> kernel) option" where
  "clone_leaf fail_after vaddr src_pt dst_pt i s =
     (let (cloned, k) = s; src_pte = entry src_pt i k in
      if \<not> present src_pte \<or> \<not> user src_pte then Some (True, cloned, put_entry dst_pt i src_pte k)
      else if fail_after = Some cloned then Some (False, cloned, k)
      else let (child_leaf, k) = page_alloc k in
        if child_leaf = 0 then Some (False, cloned, k)
        else do {
          (ok, k) \<leftarrow> copy_user_page_through_scratch (vaddr + of_nat i * 0x1000) child_leaf k;
          Some (if ok then (True, cloned + 1, put_entry dst_pt i (child_leaf OR (src_pte AND NOT ADDR_MASK)) k)
                else (False, cloned, page_free child_leaf k)) })"

definition copy_pde :: "bool \<Rightarrow> nat option \<Rightarrow> nat \<Rightarrow> u64 \<Rightarrow> u64 \<Rightarrow> nat \<Rightarrow> nat \<times> kernel \<Rightarrow> (bool \<times> nat \<times> kernel) option" where
  "copy_pde copy_user fail_after pdpt_idx src_pd new_pd_page i s =
     (let (cloned, k) = s; src_pde = entry src_pd i k;
          vaddr = push_bit 30 (of_nat pdpt_idx) OR push_bit 21 (of_nat i)
      in if \<not> present src_pde then Some (True, s)
         else if copy_user \<and> huge src_pde \<and> user src_pde \<and> sat_add vaddr 0x200000 > USER_CODE_ADDR
         then Some (False, s)
         else if vaddr \<ge> USER_CODE_ADDR \<and> \<not> copy_user then Some (True, s)
         else if copy_user \<and> vaddr \<ge> USER_CODE_ADDR \<and> \<not> huge src_pde then
           (let (new_pt_page, k) = page_alloc k in
            if new_pt_page = 0 then Some (False, cloned, k)
            else try_each (clone_leaf fail_after vaddr (frame src_pde) new_pt_page) [0..<512]
                   (cloned, put_entry new_pd_page i (new_pt_page OR (src_pde AND NOT ADDR_MASK))
                              (zero_table new_pt_page k)))
         else if copy_user \<and> vaddr \<ge> USER_CODE_ADDR \<and> huge src_pde \<and> user src_pde then Some (False, s)
         else Some (True, cloned, put_entry new_pd_page i src_pde k))"

definition copy_pdpte :: "bool \<Rightarrow> nat option \<Rightarrow> u64 \<Rightarrow> u64 \<Rightarrow> nat \<Rightarrow> nat \<times> kernel \<Rightarrow> (bool \<times> nat \<times> kernel) option" where
  "copy_pdpte copy_user fail_after src_pdpt new_pdpt i s =
     (let (cloned, k) = s; src_pdpte = entry src_pdpt i k; base_vaddr = push_bit 30 (of_nat i) in
      if \<not> present src_pdpte then Some (True, s)
      else if overlaps_kernel_scratch base_vaddr (base_vaddr + 0x40000000) then Some (True, s)
      else if huge src_pdpte then
        (if copy_user \<and> user src_pdpte \<and> sat_add base_vaddr 0x40000000 > USER_CODE_ADDR then Some (False, s)
         else if base_vaddr \<ge> USER_CODE_ADDR \<and> \<not> copy_user then Some (True, s)
         else Some (True, cloned, put_entry new_pdpt i (src_pdpte AND NOT (PAGE_ACCESSED OR PAGE_DIRTY)) k))
      else let (new_pd_page, k) = page_alloc k in
        if new_pd_page = 0 then Some (False, cloned, k)
        else try_each (copy_pde copy_user fail_after i (frame src_pdpte) new_pd_page) [0..<512]
               (cloned, put_entry new_pdpt i (table_link new_pd_page src_pdpte) (zero_table new_pd_page k)))"

definition fail_construction :: "scratch_provision option \<Rightarrow> kernel \<Rightarrow> kernel" where
  "fail_construction pv k = (case pv of Some p \<Rightarrow> cleanup_kernel_scratch p k | None \<Rightarrow> k)"

definition build_root :: "bool \<Rightarrow> nat option \<Rightarrow> scratch_provision option \<Rightarrow> kernel \<Rightarrow> (pml4_handle option \<times> kernel) option" where
  "build_root copy_user fail_after pv k =
     (let src_l4 = read_cr3 k; (new_l4, k) = page_alloc k in
      if new_l4 = 0 then Some (None, fail_construction pv k)
      else let root = \<lparr>h_phys = new_l4, owns_user_leaves = True\<rparr>;
               k = fold (\<lambda>i k. put_entry new_l4 i (entry src_l4 i k) k) [1..<512] (zero_table new_l4 k);
               e0 = entry src_l4 0 k
           in if \<not> present e0 then Some (Some root, fail_construction pv k)
              else let (new_pdpt, k) = page_alloc k in
                if new_pdpt = 0
                then Some (None, fail_construction pv (destroy_uncommitted_pml4 root k))
                else do {
                  (ok, _, k) \<leftarrow> try_each (copy_pdpte copy_user fail_after (frame e0) new_pdpt) [0..<512]
                     (0, put_entry new_l4 0 (table_link new_pdpt e0) (zero_table new_pdpt k));
                  Some (if ok then (Some root, fail_construction pv k)
                        else (None, fail_construction pv (destroy_uncommitted_pml4 root k))) })"

definition create_pml4_inner :: "bool \<Rightarrow> nat option \<Rightarrow> kernel \<Rightarrow> (pml4_handle option \<times> kernel) option" where
  "create_pml4_inner copy_user fail_after k =
     (if copy_user then
        (case provision_kernel_scratch k of
           (None, k) \<Rightarrow> Some (None, k)
         | (Some pv, k) \<Rightarrow> build_root copy_user fail_after (Some pv) k)
      else build_root copy_user fail_after None k)"

definition create_pml4 :: "bool \<Rightarrow> kernel \<Rightarrow> (pml4_handle option \<times> kernel) option" where
  "create_pml4 copy_user k = create_pml4_inner copy_user None k"

end
