(* ===== verification/Elf.thy ===== *)
theory Elf imports Paging begin

text \<open>The ELF64 loader (\<open>elf.rs\<close>): header parsing and validation, the provenance tracker of
  the pages a load has mapped, the mapping and copying of segments under a fresh root,
  and the roll back of a failed load.  The fault injection hooks are disabled outside
  debug builds; \<open>Debug_Build\<close> has the loader with them.\<close>

definition ELF_MAGIC :: "u8 list" where "ELF_MAGIC = [0x7F, 0x45, 0x4C, 0x46]"
definition ELFCLASS64 :: u8 where "ELFCLASS64 = 2"
definition ELFDATA2LSB :: u8 where "ELFDATA2LSB = 1"
definition ET_EXEC :: u16 where "ET_EXEC = 2"
definition PT_LOAD :: u32 where "PT_LOAD = 1"
definition PF_X :: u32 where "PF_X = 1"
definition EM_X86_64 :: u16 where "EM_X86_64 = 0x3E"
definition ELF_STACK_PAGES :: nat where "ELF_STACK_PAGES = 16"
definition ELF_STACK_TOP_PAGE :: u64 where "ELF_STACK_TOP_PAGE = 0x2200000"
definition ELF_STACK_LOW :: u64 where "ELF_STACK_LOW = ELF_STACK_TOP_PAGE - of_nat ELF_STACK_PAGES * 0x1000"
definition USER_ADDR_LIMIT :: u64 where "USER_ADDR_LIMIT = 0x800000000000"
definition EHDR_SIZE :: nat where "EHDR_SIZE = 64"
definition PHDR_SIZE :: nat where "PHDR_SIZE = 56"

record elf_ehdr =
  e_ident :: "u8 list"
  e_type :: u16
  e_machine :: u16
  e_entry :: u64
  e_phoff :: u64
  e_phentsize :: u16
  e_phnum :: u16

record elf_phdr =
  ph_type :: u32
  ph_flags :: u32
  ph_offset :: u64
  ph_vaddr :: u64
  ph_filesz :: u64
  ph_memsz :: u64

datatype elf_error = BadMagic | BadClass | BadEndian | BadMachine | BadType | InvalidAddress
  | FixedStackOverlap | ElfCollision | InvalidEntry | Truncated | ElfOom | MetadataOom

definition field :: "u8 list \<Rightarrow> nat \<Rightarrow> nat \<Rightarrow> u8 list" where
  "field data off n = take n (drop off data)"

definition ehdr_of :: "u8 list \<Rightarrow> elf_ehdr" where
  "ehdr_of data = \<lparr>e_ident = take 16 data, e_type = of_le (field data 16 2), e_machine = of_le (field data 18 2),
     e_entry = of_le (field data 24 8), e_phoff = of_le (field data 32 8),
     e_phentsize = of_le (field data 54 2), e_phnum = of_le (field data 56 2)\<rparr>"

definition phdr_at :: "u8 list \<Rightarrow> nat \<Rightarrow> elf_phdr" where
  "phdr_at data off = \<lparr>ph_type = of_le (field data off 4), ph_flags = of_le (field data (off + 4) 4),
     ph_offset = of_le (field data (off + 8) 8), ph_vaddr = of_le (field data (off + 16) 8),
     ph_filesz = of_le (field data (off + 32) 8), ph_memsz = of_le (field data (off + 40) 8)\<rparr>"

definition checked_add :: "u64 \<Rightarrow> u64 \<Rightarrow> u64 option" where
  "checked_add a b = (if a + b < a then None else Some (a + b))"

definition page_down :: "u64 \<Rightarrow> u64" where
  "page_down a = a AND NOT 0xFFF"

subsection \<open>Validation\<close>

definition validate_ehdr :: "u8 list \<Rightarrow> elf_error option" where
  "validate_ehdr data =
     (if length data < EHDR_SIZE then Some Truncated
      else let h = ehdr_of data in
        if take 4 (e_ident h) \<noteq> ELF_MAGIC then Some BadMagic
        else if e_ident h ! 4 \<noteq> ELFCLASS64 then Some BadClass
        else if e_ident h ! 5 \<noteq> ELFDATA2LSB then Some BadEndian
        else if e_machine h \<noteq> EM_X86_64 then Some BadMachine
        else if e_type h \<noteq> ET_EXEC then Some BadType
        else if unat (e_phentsize h) < PHDR_SIZE then Some Truncated
        else if unat (e_phoff h) + unat (e_phnum h) * unat (e_phentsize h) > length data then Some Truncated
        else None)"

definition phdr_offset :: "elf_ehdr \<Rightarrow> nat \<Rightarrow> nat" where
  "phdr_offset h i = unat (e_phoff h) + i * unat (e_phentsize h)"

text \<open>One program header: an error, or whether it makes the entry point executable.\<close>
definition validate_phdr :: "u8 list \<Rightarrow> u64 \<Rightarrow> elf_phdr \<Rightarrow> elf_error + bool" where
  "validate_phdr data e ph =
     (if ph_type ph \<noteq> PT_LOAD then Inr False
      else if ph_filesz ph > ph_memsz ph then Inl Truncated
      else case checked_add (ph_vaddr ph) (ph_memsz ph) of
        None \<Rightarrow> Inl InvalidAddress
      | Some seg_end \<Rightarrow>
          if ph_memsz ph = 0 then Inr False
          else if ph_vaddr ph < USER_CODE_ADDR \<or> seg_end > USER_ADDR_LIMIT then Inl InvalidAddress
          else case checked_add seg_end 0xFFF of
            None \<Rightarrow> Inl InvalidAddress
          | Some up \<Rightarrow>
              let page_start = page_down (ph_vaddr ph); page_end = page_down up in
              if page_start < USER_CODE_ADDR \<or> page_end > USER_ADDR_LIMIT then Inl InvalidAddress
              else if overlaps_kernel_scratch page_start page_end then Inl InvalidAddress
              else if page_start < ELF_STACK_TOP_PAGE + 0x1000 \<and> page_end > ELF_STACK_LOW
              then Inl FixedStackOverlap
              else case checked_add (ph_offset ph) (ph_filesz ph) of
                None \<Rightarrow> Inl Truncated
              | Some file_end \<Rightarrow>
                  if unat file_end > length data then Inl Truncated
                  else Inr (ph_flags ph AND PF_X \<noteq> 0 \<and> ph_vaddr ph \<le> e \<and> e < seg_end))"

fun validate_phdrs :: "u8 list \<Rightarrow> elf_ehdr \<Rightarrow> nat list \<Rightarrow> bool \<Rightarrow> elf_error + bool" where
  "validate_phdrs data h [] ok = Inr ok"
| "validate_phdrs data h (i # is) ok =
     (case validate_phdr data (e_entry h) (phdr_at data (phdr_offset h i)) of
        Inl e \<Rightarrow> Inl e
      | Inr x \<Rightarrow> validate_phdrs data h is (ok \<or> x))"

definition validate_elf :: "u8 list \<Rightarrow> elf_error option" where
  "validate_elf data =
     (case validate_ehdr data of
        Some e \<Rightarrow> Some e
      | None \<Rightarrow>
          let h = ehdr_of data in
          case validate_phdrs data h [0..<unat (e_phnum h)] False of
            Inl e \<Rightarrow> Some e
          | Inr ok \<Rightarrow> if ok then None else Some InvalidEntry)"

subsection \<open>Provenance of loaded pages\<close>

definition PROVENANCE_CHUNK_CAP :: nat where "PROVENANCE_CHUNK_CAP = 64"
definition PROVENANCE_CHUNK_COUNT :: nat where "PROVENANCE_CHUNK_COUNT = 64"

text \<open>The tracker is the list of its chunks in order: pool index and recorded pages
  (virtual and physical address).\<close>
type_synonym loaded_pages = "(nat \<times> (u64 \<times> u64) list) list"

text \<open>\<open>reserve\<close>: room for one page in the last chunk, taking a chunk of the pool when there is
  none.  The reserved slot is written or given back before it is read, so reserving only
  makes room.\<close>
definition lp_reserve :: "loaded_pages \<Rightarrow> kernel \<Rightarrow> (elf_error + loaded_pages) \<times> kernel" where
  "lp_reserve lp k =
     (if lp = [] \<or> length (snd (last lp)) = PROVENANCE_CHUNK_CAP then
        (case find (bit (k_prov_mask k)) [0..<PROVENANCE_CHUNK_COUNT] of
           None \<Rightarrow> (Inl MetadataOom, k)
         | Some i \<Rightarrow> (Inr (lp @ [(i, [])]), k\<lparr>k_prov_mask := k_prov_mask k AND NOT (push_bit i 1)\<rparr>))
      else (Inr lp, k))"

definition lp_record :: "u64 \<Rightarrow> u64 \<Rightarrow> loaded_pages \<Rightarrow> loaded_pages" where
  "lp_record va pa lp = butlast lp @ [(fst (last lp), snd (last lp) @ [(va, pa)])]"

definition lp_find :: "u64 \<Rightarrow> loaded_pages \<Rightarrow> u64 option" where
  "lp_find va lp = map_option snd (find (\<lambda>p. fst p = va) (concat (map snd lp)))"

definition lp_release :: "loaded_pages \<Rightarrow> kernel \<Rightarrow> kernel" where
  "lp_release lp k = fold (\<lambda>(i, _) k. k\<lparr>k_prov_mask := k_prov_mask k OR push_bit i 1\<rparr>) lp k"

definition restore_cr3 :: "u64 \<Rightarrow> u64 \<Rightarrow> kernel \<Rightarrow> kernel" where
  "restore_cr3 saved target k = (if saved \<noteq> target then write_cr3 saved k else k)"

definition lp_rollback :: "loaded_pages \<Rightarrow> u64 \<Rightarrow> kernel \<Rightarrow> kernel" where
  "lp_rollback lp pml4 k =
     restore_cr3 (read_cr3 k) pml4
       (fold (\<lambda>(va, _) k. case unmap_and_free_empty va k of
                (Some e, k) \<Rightarrow> page_free (e AND 0x000FFFFFFFFFF000) k
              | (None, k) \<Rightarrow> k)
          (concat (map snd lp)) (switch_cr3 pml4 k))"

text \<open>\<open>rollback_error\<close> and the release of the tracker that follows when it goes out of scope.\<close>
definition rollback_error :: "elf_error \<Rightarrow> loaded_pages \<Rightarrow> u64 \<Rightarrow> kernel \<Rightarrow> (elf_error + 'a) \<times> kernel" where
  "rollback_error e lp pml4 k = (Inl e, lp_release lp (lp_rollback lp pml4 k))"

subsection \<open>Loading\<close>

text \<open>A store through the target's page tables.\<close>
definition target_store :: "u64 \<Rightarrow> u64 \<Rightarrow> u8 list \<Rightarrow> kernel \<Rightarrow> kernel option" where
  "target_store pml4 a bs k = do {
     k' \<leftarrow> user_store a bs (switch_cr3 pml4 k);
     Some (restore_cr3 (read_cr3 k) pml4 k') }"

text \<open>One page of a segment.  The outer option is a fault, the sum the error with the
  state after roll back.\<close>
definition load_page :: "u64 \<Rightarrow> u64 \<Rightarrow> loaded_pages \<Rightarrow> kernel \<Rightarrow> ((elf_error + loaded_pages) \<times> kernel) option" where
  "load_page pml4 va lp k =
     (if lp_find va lp \<noteq> None then Some (Inr lp, k)
      else if translate_in_pml4 (k_mem k) va pml4 \<noteq> None then Some (rollback_error ElfCollision lp pml4 k)
      else case lp_reserve lp k of
        (Inl e, k) \<Rightarrow> Some (rollback_error e lp pml4 k)
      | (Inr lp, k) \<Rightarrow>
          let (pa, k) = page_alloc k in
          if pa = 0 then Some (rollback_error ElfOom lp pml4 k)
          else (case try_map_4k_target va pa PAGE_USER_RW pml4 k of
            (False, k) \<Rightarrow> Some (rollback_error ElfOom lp pml4 (page_free pa k))
          | (True, k) \<Rightarrow> do {
              k \<leftarrow> target_store pml4 va (replicate 4096 0) k;
              Some (Inr (lp_record va pa lp), k) }))"

function load_pages :: "u64 \<Rightarrow> u64 \<Rightarrow> u64 \<Rightarrow> loaded_pages \<Rightarrow> kernel \<Rightarrow> ((elf_error + loaded_pages) \<times> kernel) option" where
  "load_pages pml4 va page_end lp k =
     (if va < page_end then do {
        (r, k) \<leftarrow> load_page pml4 va lp k;
        case r of
          Inl e \<Rightarrow> Some (Inl e, k)
        | Inr lp \<Rightarrow>
            if va + 4096 < va then Some (rollback_error Truncated lp pml4 k)
            else load_pages pml4 (va + 4096) page_end lp k }
      else Some (Inr lp, k))"
  by pat_completeness auto
termination
proof (relation "measure (\<lambda>(_, va, e, _). unat e - unat va)", goal_cases)
  case 1
  show ?case by simp
next
  case (2 pml4 va e lp k x y z lp')
  then have "unat va < unat e" "unat va \<le> unat (va + 4096)" "va + 4096 \<noteq> va"
    by (simp_all add: word_less_nat_alt word_le_nat_alt)
  then show ?case by (simp add: word_unat_eq_iff)
qed

declare load_pages.simps [simp del]

definition load_segment :: "u8 list \<Rightarrow> u64 \<Rightarrow> elf_phdr \<Rightarrow> loaded_pages \<Rightarrow> kernel \<Rightarrow> ((elf_error + loaded_pages) \<times> kernel) option" where
  "load_segment data pml4 ph lp k =
     (if ph_type ph \<noteq> PT_LOAD then Some (Inr lp, k)
      else case checked_add (ph_vaddr ph) (ph_memsz ph) of
        None \<Rightarrow> Some (rollback_error Truncated lp pml4 k)
      | Some seg_end \<Rightarrow>
        (case checked_add seg_end 0xFFF of
          None \<Rightarrow> Some (rollback_error Truncated lp pml4 k)
        | Some up \<Rightarrow> do {
            (r, k) \<leftarrow> load_pages pml4 (page_down (ph_vaddr ph)) (page_down up) lp k;
            case r of
              Inl e \<Rightarrow> Some (Inl e, k)
            | Inr lp \<Rightarrow>
                if ph_filesz ph > 0 then
                  (case checked_add (ph_offset ph) (ph_filesz ph) of
                     None \<Rightarrow> Some (rollback_error Truncated lp pml4 k)
                   | Some src_end \<Rightarrow>
                       if unat src_end > length data then Some (rollback_error Truncated lp pml4 k)
                       else do {
                         let copy_len = min (unat (ph_filesz ph)) (unat (ph_memsz ph));
                         k \<leftarrow> target_store pml4 (ph_vaddr ph) (field data (unat (ph_offset ph)) copy_len) k;
                         Some (Inr lp, k) })
                else Some (Inr lp, k) }))"

fun load_segments :: "u8 list \<Rightarrow> elf_ehdr \<Rightarrow> u64 \<Rightarrow> nat list \<Rightarrow> loaded_pages \<Rightarrow> kernel \<Rightarrow> ((elf_error + loaded_pages) \<times> kernel) option" where
  "load_segments data h pml4 [] lp k = Some (Inr lp, k)"
| "load_segments data h pml4 (i # is) lp k =
     (if phdr_offset h i + PHDR_SIZE > length data then Some (rollback_error Truncated lp pml4 k)
      else do {
        (r, k) \<leftarrow> load_segment data pml4 (phdr_at data (phdr_offset h i)) lp k;
        case r of
          Inl e \<Rightarrow> Some (Inl e, k)
        | Inr lp \<Rightarrow> load_segments data h pml4 is lp k })"

definition elf_load :: "u8 list \<Rightarrow> u64 \<Rightarrow> kernel \<Rightarrow> ((elf_error + u64) \<times> kernel) option" where
  "elf_load data pml4 k =
     (case validate_elf data of
        Some e \<Rightarrow> Some (Inl e, k)
      | None \<Rightarrow> do {
          let h = ehdr_of data;
          (r, k) \<leftarrow> load_segments data h pml4 [0..<unat (e_phnum h)] [] k;
          case r of
            Inl e \<Rightarrow> Some (Inl e, k)
          | Inr lp \<Rightarrow> Some (Inr (e_entry h), lp_release lp k) })"

subsection \<open>The executable image\<close>

record image =
  im_root :: pml4_handle
  im_entry :: u64
  im_user_rsp :: u64
  im_stack_low :: u64

text \<open>The stack pages, from the top page downwards; \<open>None\<close> in the pair is success.\<close>
fun map_stack :: "nat \<Rightarrow> u64 \<Rightarrow> u64 \<Rightarrow> kernel \<Rightarrow> elf_error option \<times> kernel" where
  "map_stack 0 va pml4 k = (None, k)"
| "map_stack (Suc n) va pml4 k =
     (if translate_in_pml4 (k_mem k) va pml4 \<noteq> None then (Some ElfCollision, k)
      else let (pa, k) = page_alloc k in
        if pa = 0 then (Some ElfOom, k)
        else (case try_map_4k_target va pa PAGE_USER_RW pml4 k of
          (False, k) \<Rightarrow> (Some ElfOom, page_free pa k)
        | (True, k) \<Rightarrow> map_stack n (va - 0x1000) pml4 k))"

definition build_exec_image :: "u8 list \<Rightarrow> kernel \<Rightarrow> ((elf_error + image) \<times> kernel) option" where
  "build_exec_image data k = do {
     (root, k) \<leftarrow> create_pml4 False k;
     case root of
       None \<Rightarrow> Some (Inl ElfOom, k)
     | Some root \<Rightarrow> do {
         (r, k) \<leftarrow> elf_load data (h_phys root) k;
         case r of
           Inl e \<Rightarrow> Some (Inl e, destroy_uncommitted_pml4 root k)
         | Inr ent \<Rightarrow>
             (case map_stack ELF_STACK_PAGES ELF_STACK_TOP_PAGE (h_phys root) k of
                (Some e, k) \<Rightarrow> Some (Inl e, destroy_uncommitted_pml4 root k)
              | (None, k) \<Rightarrow> Some (Inr \<lparr>im_root = root, im_entry = ent,
                    im_user_rsp = ELF_STACK_TOP_PAGE + 0x1000, im_stack_low = ELF_STACK_LOW\<rparr>, k)) } }"

end
