(* ===== verification/Flat_Image.thy ===== *)
theory Flat_Image imports Paging begin

text \<open>The loader of flat binaries (\<open>build_flat_image_inner\<close> of \<open>process.rs\<close>): the image is
  built under a fresh root that is destroyed when any step fails.\<close>

definition BRK_START :: u64 where "BRK_START = 0x5000000"
definition BRK_MAX :: u64 where "BRK_MAX = 0x10000000"
definition FLAT_USER_LIMIT :: u64 where "FLAT_USER_LIMIT = BRK_START"

datatype flat_error = InvalidSize | AddressOverflow | Oversize | FlatOom | FlatCollision

record flat_image =
  fi_root :: pml4_handle
  fi_user_rsp :: u64
  fi_stack_low :: u64

text \<open>The layout of an image of \<open>sz\<close> bytes: pages, stack page, end of the stack; the
  checked operations of the code overflow exactly when the exact value does not fit.\<close>
definition flat_layout :: "nat \<Rightarrow> flat_error + nat \<times> u64 \<times> u64" where
  "flat_layout sz =
     (if sz + 0xFFF \<ge> 2 ^ 64 then Inl AddressOverflow
      else let pages = max ((sz + 0xFFF) div 0x1000) 2; stack_end = unat USER_CODE_ADDR + pages * 0x1000 + 0x1000 in
        if stack_end \<ge> 2 ^ 64 then Inl AddressOverflow
        else if of_nat stack_end > FLAT_USER_LIMIT then Inl Oversize
        else if overlaps_kernel_scratch USER_CODE_ADDR (of_nat stack_end) then Inl Oversize
        else Inr (pages, of_nat stack_end - 0x1000, of_nat stack_end))"

text \<open>The code pages: \<open>n\<close> pages left, the data not yet copied, the next address, and the
  allocations so far for the debug hook.\<close>
fun flat_pages :: "nat \<Rightarrow> u8 list \<Rightarrow> u64 \<Rightarrow> nat \<Rightarrow> nat option \<Rightarrow> pml4_handle \<Rightarrow> kernel \<Rightarrow> (flat_error + nat) \<times> kernel" where
  "flat_pages 0 data va allocs fail_after root k = (Inr allocs, k)"
| "flat_pages (Suc n) data va allocs fail_after root k =
     (if fail_after = Some allocs then (Inl FlatOom, destroy_uncommitted_pml4 root k)
      else let (page, k) = page_alloc k in
        if page = 0 then (Inl FlatOom, destroy_uncommitted_pml4 root k)
        else let k = k\<lparr>k_mem := write_bytes page (take 0x1000 data) (fill_page page 0 (k_mem k))\<rparr> in
          (case try_map_4k_target va page PAGE_USER_RW (h_phys root) k of
             (False, k) \<Rightarrow> (Inl FlatCollision, destroy_uncommitted_pml4 root (page_free page k))
           | (True, k) \<Rightarrow>
               if va + 0x1000 < va then (Inl AddressOverflow, destroy_uncommitted_pml4 root k)
               else flat_pages n (drop 0x1000 data) (va + 0x1000) (allocs + 1) fail_after root k))"

definition flat_stack :: "u64 \<Rightarrow> u64 \<Rightarrow> nat \<Rightarrow> nat option \<Rightarrow> pml4_handle \<Rightarrow> kernel \<Rightarrow> (flat_error + flat_image) \<times> kernel" where
  "flat_stack stack_addr stack_end allocs fail_after root k =
     (if fail_after = Some allocs then (Inl FlatOom, destroy_uncommitted_pml4 root k)
      else let (page, k) = page_alloc k in
        if page = 0 then (Inl FlatOom, destroy_uncommitted_pml4 root k)
        else (case try_map_4k_target stack_addr page PAGE_USER_RW (h_phys root) k of
                (False, k) \<Rightarrow> (Inl FlatCollision, destroy_uncommitted_pml4 root (page_free page k))
              | (True, k) \<Rightarrow> (Inr \<lparr>fi_root = root, fi_user_rsp = stack_end, fi_stack_low = stack_addr\<rparr>, k)))"

definition build_flat_image_inner :: "u8 list \<Rightarrow> nat option \<Rightarrow> kernel \<Rightarrow> ((flat_error + flat_image) \<times> kernel) option" where
  "build_flat_image_inner data fail_after k =
     (if data = [] then Some (Inl InvalidSize, k)
      else case flat_layout (length data) of
        Inl e \<Rightarrow> Some (Inl e, k)
      | Inr (pages, stack_addr, stack_end) \<Rightarrow> do {
          (root, k) \<leftarrow> create_pml4 False k;
          case root of
            None \<Rightarrow> Some (Inl FlatOom, k)
          | Some root \<Rightarrow>
              (case flat_pages pages data USER_CODE_ADDR 0 fail_after root k of
                 (Inl e, k) \<Rightarrow> Some (Inl e, k)
               | (Inr allocs, k) \<Rightarrow> Some (flat_stack stack_addr stack_end allocs fail_after root k)) })"

definition build_flat_image :: "u8 list \<Rightarrow> kernel \<Rightarrow> ((flat_error + flat_image) \<times> kernel) option" where
  "build_flat_image data k = build_flat_image_inner data None k"

end
