(* ===== verification/Process.thy ===== *)
theory Process imports Fd_Calls Signal Elf Flat_Image begin

text \<open>Processes (\<open>process.rs\<close>): initial register frames, the two scheduler entry points,
  \<open>fork\<close>, \<open>exec\<close> and \<open>waitpid\<close>, and the creation of the first two processes.\<close>

definition KERNEL_STACK_SIZE :: u64 where "KERNEL_STACK_SIZE = 12288"
definition WNOHANG :: u64 where "WNOHANG = 1"

subsection \<open>Register frames\<close>

definition write_frame :: "u64 \<Rightarrow> u64 list \<Rightarrow> kernel \<Rightarrow> u64 \<times> kernel" where
  "write_frame stack_top vs k =
     (let krsp = stack_top - 8 * of_nat (length vs)
      in (krsp, k\<lparr>k_mem := write_bytes krsp (qwords vs) (k_mem k)\<rparr>))"

text \<open>From RAX upwards; RDI is the seventh register.\<close>
definition init_frame :: "u64 \<Rightarrow> u64 \<Rightarrow> u64 \<Rightarrow> u64 list" where
  "init_frame user_entry user_rsp command_id =
     replicate 6 0 @ [command_id] @ replicate 8 0 @ [0, 0, user_entry, 0x23, 0x202, user_rsp, 0x1B]"

definition build_init_frame :: "u64 \<Rightarrow> u64 \<Rightarrow> u64 \<Rightarrow> u64 \<Rightarrow> kernel \<Rightarrow> u64 \<times> kernel" where
  "build_init_frame stack_top user_entry user_rsp command_id k =
     write_frame stack_top (init_frame user_entry user_rsp command_id) k"

definition build_fork_frame :: "u64 \<Rightarrow> kernel \<Rightarrow> u64 \<times> kernel" where
  "build_fork_frame stack_top k =
     write_frame stack_top (replicate 15 0 @ [0, 0, k_sys_rip k, 0x23, 0x202, k_sys_rsp k, 0x1B]) k"

subsection \<open>Scheduling\<close>

text \<open>The selection loop that \<open>scheduler_tick\<close> and \<open>scheduler_switch_exit\<close> share.  A selected
  process that is not Ready halts the machine; one that a signal kills is passed over.\<close>
partial_function (option) sched_loop :: "kernel \<Rightarrow> (u64 \<times> kernel) option" where
  "sched_loop k =
     (let next_pid = sched_next (k_cur k) (k_slots k); k = k\<lparr>k_cur := next_pid\<rparr> in do {
        next \<leftarrow> process_mut next_pid k;
        if p_state next \<noteq> Ready then None
        else do {
          (killed, k) \<leftarrow> deliver_pending_signals next_pid (p_kernel_rsp next)
            (k\<lparr>k_rsp0 := p_kernel_stack_top next, k_syscall_kstack := p_kernel_stack_top next,
               k_cr3 := p_pml4_phys next\<rparr>);
          if killed then sched_loop k
          else Some (p_kernel_rsp next, set_process next_pid (\<lambda>p. p\<lparr>p_state := Running\<rparr>) k) } })"

definition scheduler_tick :: "u64 \<Rightarrow> kernel \<Rightarrow> (u64 \<times> kernel) option" where
  "scheduler_tick current_rsp k =
     (let k = poll_input k; cur_pid = k_cur k in
      if cur_pid = 0 then Some (current_rsp, k)
      else do {
        _ \<leftarrow> process_mut cur_pid k;
        sched_loop (set_process cur_pid (\<lambda>p. p\<lparr>p_kernel_rsp := current_rsp, p_state := Ready\<rparr>) k) })"

definition scheduler_switch_exit :: "u64 \<Rightarrow> kernel \<Rightarrow> (u64 \<times> kernel) option" where
  "scheduler_switch_exit current_rsp k = do {
     _ \<leftarrow> process_mut (k_cur k) k;
     sched_loop (set_process (k_cur k) (\<lambda>p. p\<lparr>p_kernel_rsp := current_rsp,
       p_state := (if p_state p = Running then Ready else p_state p)\<rparr>) k) }"

definition start_scheduler :: "u64 \<Rightarrow> kernel \<Rightarrow> (u64 \<times> kernel) option" where
  "start_scheduler init_pid k =
     (let k = k\<lparr>k_cur := init_pid\<rparr> in do {
        proc \<leftarrow> process_mut init_pid k;
        Some (p_kernel_rsp proc, set_process init_pid (\<lambda>p. p\<lparr>p_state := Running\<rparr>)
          (k\<lparr>k_syscall_kstack := p_kernel_stack_top proc, k_rsp0 := p_kernel_stack_top proc,
             k_cr3 := p_pml4_phys proc\<rparr>)) })"

subsection \<open>fork\<close>

definition name_bytes :: "string \<Rightarrow> u8 list" where
  "name_bytes s = bytes s @ replicate (32 - length s) 0"

definition pages_alloc :: "nat \<Rightarrow> kernel \<Rightarrow> u64 \<times> kernel" where
  "pages_alloc n k = (let (p, pm) = alloc_pages n (k_pmm k) in (p, k\<lparr>k_pmm := pm\<rparr>))"

definition fork_process :: "process \<Rightarrow> u64 \<Rightarrow> u64 \<Rightarrow> u64 \<Rightarrow> u64 \<Rightarrow> u64 \<Rightarrow> u64 \<Rightarrow> process" where
  "fork_process parent child_pid child_pml4 user_rsp child_ktop child_krsp child_base =
     \<lparr>p_pid = child_pid, p_pml4_phys = child_pml4, p_state = Ready, p_entry = p_entry parent,
      p_user_rsp = user_rsp, p_kernel_stack_top = child_ktop, p_kernel_rsp = child_krsp,
      p_kernel_stack_base = child_base, p_parent_pid = p_pid parent, p_exit_code = 0, p_wait_for_pid = 0,
      p_brk = p_brk parent, p_errno = 0, p_sig_pending = 0, p_sigactions = p_sigactions parent,
      p_in_signal = False, p_sigframe_rsp = 0, p_stack_low = p_stack_low parent,
      p_name = name_bytes ''forked'', p_fds = p_fds parent, p_cwd = p_cwd parent\<rparr>"

definition incref_fds :: "int list \<Rightarrow> oft \<Rightarrow> oft" where
  "incref_fds fds t = fold (\<lambda>i t. if i \<ge> 0 then oft_incref (nat i) t else t) fds t"

text \<open>The free slot, or the failure that gives back the root and the first stack page.\<close>
definition fork_install :: "process \<Rightarrow> pml4_handle \<Rightarrow> u64 \<Rightarrow> kernel \<Rightarrow> u64 \<times> kernel" where
  "fork_install parent root child_base k =
     (let child_ktop = child_base + KERNEL_STACK_SIZE;
          (child_krsp, k) = build_fork_frame child_ktop k;
          child_pid = next_pid (k_procs k);
          k = k\<lparr>k_procs := (k_procs k)\<lparr>next_pid := child_pid + 1\<rparr>\<rparr>
      in case find (\<lambda>i. k_slots k ! i = None) [0..<length (k_slots k)] of
           Some i \<Rightarrow>
             (child_pid, k\<lparr>
                k_procs := (k_procs k)\<lparr>
                  slots := (k_slots k)[i := Some (fork_process parent child_pid (h_phys root)
                             (k_sys_rsp k) child_ktop child_krsp child_base)],
                  proc_count := proc_count (k_procs k) + 1\<rparr>,
                k_oft := incref_fds (p_fds parent) (k_oft k)\<rparr>)
         | None \<Rightarrow> (of_int (- 1), page_free child_base (destroy_uncommitted_pml4 root k)))"

definition sys_fork :: "kernel \<Rightarrow> (u64 \<times> kernel) option" where
  "sys_fork k = do {
     parent \<leftarrow> process_mut (k_cur k) k;
     let (child_base, k) = pages_alloc 3 k;
     if child_base = 0 then Some (of_int (- 1), k)
     else do {
       (root, k) \<leftarrow> create_pml4 True k;
       Some (case root of
         None \<Rightarrow> (of_int (- 12), page_free child_base k)
       | Some root \<Rightarrow> fork_install parent root child_base k) } }"

subsection \<open>exec\<close>

text \<open>The file contents behind a vnode, or \<^term>\<open>None\<close> when it has no data pointer or size 0:
  the bytes of the file and the four bytes of the magic check.\<close>
definition exec_data :: "vnode \<Rightarrow> kernel \<Rightarrow> (u8 list \<times> u8 list) option" where
  "exec_data vn k =
     (if data_is_null (vn_data vn) \<or> vn_size vn = 0 then None
      else let d = drop (archive_offset (vn_data vn)) (k_archive k)
           in Some (take (unat (vn_size vn)) d, take 4 d))"

definition elf_errno :: "elf_error \<Rightarrow> u64" where
  "elf_errno e = (if e \<in> {ElfOom, MetadataOom} then of_int (- 12) else of_int (- 22))"

definition flat_errno :: "flat_error \<Rightarrow> u64" where
  "flat_errno e = (if e = FlatOom then of_int (- 12) else of_int (- 22))"

text \<open>The image of either kind: entry, stack pointer, stack bound and root.\<close>
definition build_image :: "u8 list \<Rightarrow> u8 list \<Rightarrow> kernel \<Rightarrow> ((u64 + u64 \<times> u64 \<times> u64 \<times> u64) \<times> kernel) option" where
  "build_image data magic k =
     (if magic = ELF_MAGIC then do {
        (r, k) \<leftarrow> build_exec_image data k;
        Some (case r of
          Inl e \<Rightarrow> Inl (elf_errno e)
        | Inr im \<Rightarrow> Inr (im_entry im, im_user_rsp im, im_stack_low im, h_phys (im_root im)), k) }
      else do {
        (r, k) \<leftarrow> build_flat_image data k;
        Some (case r of
          Inl e \<Rightarrow> Inl (flat_errno e)
        | Inr im \<Rightarrow> Inr (USER_CODE_ADDR, fi_user_rsp im, fi_stack_low im, h_phys (fi_root im)), k) })"

text \<open>The loop that closes the descriptors \<open>fds\<close> of the current process.\<close>
fun close_fds :: "nat list \<Rightarrow> kernel \<Rightarrow> kernel option" where
  "close_fds [] k = Some k"
| "close_fds (fd # fds) k = do {
     cur \<leftarrow> cur_fds k;
     let i = cur ! fd;
     if i \<ge> 0 then do {
       k \<leftarrow> oft_decref (nat i) (set_fd fd (- 1) k);
       close_fds fds k }
     else close_fds fds k }"

definition exec_commit :: "u64 \<Rightarrow> u64 \<Rightarrow> u64 \<Rightarrow> u64 \<Rightarrow> kernel \<Rightarrow> kernel" where
  "exec_commit ent user_rsp stack_low root k =
     (set_process (k_cur k) (\<lambda>p. p\<lparr>p_pml4_phys := root, p_entry := ent, p_user_rsp := user_rsp,
        p_brk := BRK_START, p_errno := 0, p_sig_pending := 0, p_in_signal := False, p_sigframe_rsp := 0,
        p_stack_low := stack_low, p_sigactions := replicate 32 sig_action_default\<rparr>) k)
     \<lparr>k_cr3 := root, k_sys_rip := ent, k_sys_rsp := user_rsp, k_sys_rflags := 0x202\<rparr>"

definition sys_exec :: "u64 \<Rightarrow> kernel \<Rightarrow> (u64 \<times> kernel) option" where
  "sys_exec path k = do {
     _ \<leftarrow> process_mut (k_cur k) k;
     p \<leftarrow> cstr_from_user path PATH_MAX k;
     case p of
       Inl e \<Rightarrow> Some (neg_errno e, k)
     | Inr bs \<Rightarrow> do {
         (r, k) \<leftarrow> vfs_resolve bs k;
         case r of
           Inl e \<Rightarrow> Some (neg_errno e, k)
         | Inr v \<Rightarrow>
             (case exec_data (k_vnodes k v) k of
                None \<Rightarrow> Some (of_int (- 2), k)
              | Some (data, magic) \<Rightarrow> do {
                  (im, k) \<leftarrow> build_image data magic k;
                  case im of
                    Inl e \<Rightarrow> Some (e, k)
                  | Inr (ent, user_rsp, stack_low, root) \<Rightarrow> do {
                      k \<leftarrow> close_fds [3..<MAX_FDS] (exec_commit ent user_rsp stack_low root k);
                      Some (0, k) } }) } }"

subsection \<open>waitpid\<close>

definition child_matches :: "u64 \<Rightarrow> u64 \<Rightarrow> process option \<Rightarrow> bool" where
  "child_matches cur requested s =
     (case s of Some c \<Rightarrow> p_parent_pid c = cur \<and> (requested = - 1 \<or> p_pid c = requested) | None \<Rightarrow> False)"

definition find_child :: "u64 \<Rightarrow> u64 \<Rightarrow> slots \<Rightarrow> process option" where
  "find_child cur requested ss =
     (case find (child_matches cur requested) ss of Some s \<Rightarrow> s | None \<Rightarrow> None)"

text \<open>\<open>cleanup_fds\<close> of a process that has left the table.\<close>
fun cleanup_fds :: "int list \<Rightarrow> kernel \<Rightarrow> kernel option" where
  "cleanup_fds [] k = Some k"
| "cleanup_fds (i # fds) k = do {
     k \<leftarrow> (if i \<ge> 0 then oft_decref (nat i) k else Some k);
     cleanup_fds fds k }"

definition reap :: "u64 \<Rightarrow> u64 \<Rightarrow> kernel \<Rightarrow> (u64 \<times> kernel) option" where
  "reap pid wstatus k = do {
     child \<leftarrow> process_mut pid k;
     k \<leftarrow> (if wstatus \<noteq> 0 then user_store wstatus (le_bytes 8 (p_exit_code child)) k else Some k);
     let k = k\<lparr>k_procs := (k_procs k)\<lparr>slots := take_process pid (k_slots k),
                 proc_count := proc_count (k_procs k) - 1\<rparr>\<rparr>;
     k \<leftarrow> cleanup_fds (p_fds child) k;
     let k = destroy_uncommitted_pml4 \<lparr>h_phys = p_pml4_phys child, owns_user_leaves = True\<rparr> k;
     Some (pid, fold (\<lambda>i. page_free (p_kernel_stack_base child + of_nat i * PMM_PAGE_SIZE)) [0..<3] k) }"

definition sys_waitpid :: "u64 \<Rightarrow> u64 \<Rightarrow> u64 \<Rightarrow> kernel \<Rightarrow> (u64 \<times> kernel) option" where
  "sys_waitpid requested wstatus flags k =
     (case find_child (k_cur k) requested (k_slots k) of
        None \<Rightarrow> Some (of_int (- 1), k)
      | Some child \<Rightarrow>
          if p_state child = Zombie then reap (p_pid child) wstatus k
          else if flags AND WNOHANG \<noteq> 0 then Some (0, k)
          else do {
            _ \<leftarrow> process_mut (k_cur k) k;
            Some (0, set_schedule (set_process (k_cur k)
              (\<lambda>p. p\<lparr>p_wait_for_pid := p_pid child, p_state := Blocked\<rparr>) k)) })"

subsection \<open>The first processes\<close>

definition first_process :: "u64 \<Rightarrow> u64 \<Rightarrow> u64 \<Rightarrow> u64 \<Rightarrow> u64 \<Rightarrow> u64 \<Rightarrow> u64 \<Rightarrow> u64 \<Rightarrow> u64 \<Rightarrow> string \<Rightarrow> process" where
  "first_process pid pml4 ent user_rsp ktop krsp kbase brk stack_low name =
     \<lparr>p_pid = pid, p_pml4_phys = pml4, p_state = Ready, p_entry = ent, p_user_rsp = user_rsp,
      p_kernel_stack_top = ktop, p_kernel_rsp = krsp, p_kernel_stack_base = kbase, p_parent_pid = 0,
      p_exit_code = 0, p_wait_for_pid = 0, p_brk = brk, p_errno = 0, p_sig_pending = 0,
      p_sigactions = replicate 32 sig_action_default, p_in_signal = False, p_sigframe_rsp = 0,
      p_stack_low = stack_low, p_name = name_bytes name, p_fds = fd_table_new,
      p_cwd = 0x2F # replicate 255 0\<rparr>"

text \<open>Descriptors 0, 1 and 2 of init share one open file of the terminal.\<close>
definition init_stdio :: "kernel \<Rightarrow> kernel" where
  "init_stdio k =
     (case oft_alloc (devfs_get_vnode DevTtyS0) 2 0x1B6 (k_oft k) of
        (Inl e, _) \<Rightarrow> k
      | (Inr i, t) \<Rightarrow>
          k\<lparr>k_oft := t[i := map_option (\<lambda>f. f\<lparr>of_refcount := 3\<rparr>) (t ! i)],
            k_procs := (k_procs k)\<lparr>slots := (k_slots k)[0 := map_option
              (\<lambda>p. p\<lparr>p_fds := (p_fds p)[0 := int i, 1 := int i, 2 := int i]\<rparr>) (k_slots k ! 0)]\<rparr>\<rparr>)"

definition set_slot :: "nat \<Rightarrow> process \<Rightarrow> kernel \<Rightarrow> kernel" where
  "set_slot i p k = k\<lparr>k_procs := \<lparr>slots = (k_slots k)[i := Some p], next_pid = of_nat i + 2, proc_count = i + 1\<rparr>\<rparr>"

definition spawn_idle :: "u64 \<Rightarrow> kernel \<Rightarrow> (u64 \<times> kernel) option" where
  "spawn_idle idle_entry k =
     (let (kbase, k) = pages_alloc 3 k in
      if kbase = 0 then None
      else let ktop = kbase + KERNEL_STACK_SIZE;
               (krsp, k) = build_init_frame ktop idle_entry ktop 0 k;
               k = kstore (krsp + FR_SS) 0x10 (kstore (krsp + FR_CS) 0x08 k)
           in do {
             (root, k) \<leftarrow> create_pml4 False k;
             case root of
               None \<Rightarrow> None
             | Some root \<Rightarrow> Some (1, set_slot 1
                 (first_process 2 (h_phys root) idle_entry 0 ktop krsp kbase 0 0 ''idle'') k) })"

definition spawn_init :: "u64 \<Rightarrow> kernel \<Rightarrow> (u64 \<times> kernel) option" where
  "spawn_init idle_entry k = do {
     (r, k) \<leftarrow> vfs_resolve (bytes ''/sbin/init'') k;
     v \<leftarrow> (case r of Inr v \<Rightarrow> Some v | Inl e \<Rightarrow> None);
     (data, _) \<leftarrow> exec_data (k_vnodes k v) k;
     (im, k) \<leftarrow> build_flat_image data k;
     image \<leftarrow> (case im of Inr i \<Rightarrow> Some i | Inl e \<Rightarrow> None);
     let (kbase, k) = pages_alloc 3 k;
     if kbase = 0 then None
     else do {
       let ktop = kbase + KERNEL_STACK_SIZE;
       let (krsp, k) = build_init_frame ktop USER_CODE_ADDR (fi_user_rsp image) 1 k;
       let k = set_slot 0 (first_process 1 (h_phys (fi_root image)) USER_CODE_ADDR (fi_user_rsp image) ktop
                 krsp kbase BRK_START (fi_user_rsp image - 0x1000) ''init'') k;
       spawn_idle idle_entry (init_stdio k) } }"

end
