(* ===== verification/Interrupts.thy ===== *)
theory Interrupts imports Serial_Port Format Process begin

text \<open>Interrupts: the descriptor table and the 8259 controllers (\<open>interrupts.rs\<close>), the interval timer
  (\<open>pit.rs\<close>), the dispatch of a device interrupt and the common part of the interrupt stubs
  (\<open>irq_common\<close> of \<open>src/kernel/interrupts.asm\<close>).  The addresses of the stubs are parameters.\<close>

subsection \<open>The descriptor table\<close>

record idt_entry =
  offset_low :: u16
  selector :: u16
  ist :: u8
  gate_flags :: u8
  offset_mid :: u16
  offset_high :: u32
  gate_reserved :: u32

definition idt_missing :: idt_entry where
  "idt_missing = \<lparr>offset_low = 0, selector = 0, ist = 0, gate_flags = 0, offset_mid = 0, offset_high = 0, gate_reserved = 0\<rparr>"

definition set_handler :: "u64 \<Rightarrow> u16 \<Rightarrow> u8 \<Rightarrow> idt_entry" where
  "set_handler handler sel dpl =
     \<lparr>offset_low = ucast handler, selector = sel, ist = 0, gate_flags = 0x8E OR push_bit 5 (dpl AND 3),
      offset_mid = ucast (drop_bit 16 handler), offset_high = ucast (drop_bit 32 handler), gate_reserved = 0\<rparr>"

type_synonym idt = "idt_entry list"

definition idt_new :: idt where
  "idt_new = replicate 256 idt_missing"

definition idt_set :: "nat \<Rightarrow> u64 \<Rightarrow> u16 \<Rightarrow> u8 \<Rightarrow> idt \<Rightarrow> idt" where
  "idt_set index handler sel dpl t = (if index < 256 then t[index := set_handler handler sel dpl] else t)"

text \<open>The packed layout of an entry and of the table.\<close>
definition entry_bytes :: "idt_entry \<Rightarrow> u8 list" where
  "entry_bytes e = le_bytes 2 (offset_low e) @ le_bytes 2 (selector e) @ [ist e, gate_flags e] @
     le_bytes 2 (offset_mid e) @ le_bytes 4 (offset_high e) @ le_bytes 4 (gate_reserved e)"

definition idt_bytes :: "idt \<Rightarrow> u8 list" where
  "idt_bytes t = concat (map entry_bytes t)"

text \<open>The operand of \<open>lidt\<close>.\<close>
definition idt_limit :: "idt \<Rightarrow> u16" where
  "idt_limit t = of_nat (length (idt_bytes t) - 1)"

subsection \<open>The interrupt controllers and the timer\<close>

definition PIC1_COMMAND :: u16 where "PIC1_COMMAND = 0x20"
definition PIC1_DATA :: u16 where "PIC1_DATA = 0x21"
definition PIC2_COMMAND :: u16 where "PIC2_COMMAND = 0xA0"
definition PIC2_DATA :: u16 where "PIC2_DATA = 0xA1"
definition PIC_ICW1 :: u8 where "PIC_ICW1 = 0x11"
definition PIC_ICW4_8086 :: u8 where "PIC_ICW4_8086 = 0x01"

definition remap_pic :: "'d bus \<Rightarrow> u8 \<Rightarrow> u8 \<Rightarrow> 'd \<Rightarrow> 'd" where
  "remap_pic b master_offset slave_offset d =
     (let (mask1, d) = in_b b PIC1_DATA d; (mask2, d) = in_b b PIC2_DATA d in
      fold (\<lambda>(p, v). out_b b p v)
        [(PIC1_COMMAND, PIC_ICW1), (PIC2_COMMAND, PIC_ICW1), (PIC1_DATA, master_offset), (PIC2_DATA, slave_offset),
         (PIC1_DATA, 0x04), (PIC2_DATA, 0x02), (PIC1_DATA, PIC_ICW4_8086), (PIC2_DATA, PIC_ICW4_8086),
         (PIC1_DATA, mask1), (PIC2_DATA, mask2)] d)"

definition mask_irq :: "'d bus \<Rightarrow> u8 \<Rightarrow> 'd \<Rightarrow> 'd" where
  "mask_irq b irq d =
     (if irq < 8 then let (m, d) = in_b b PIC1_DATA d in out_b b PIC1_DATA (m OR push_bit (unat irq) 1) d
      else if irq < 16 then let (m, d) = in_b b PIC2_DATA d in out_b b PIC2_DATA (m OR push_bit (unat (irq - 8)) 1) d
      else d)"

definition unmask_irq :: "'d bus \<Rightarrow> u8 \<Rightarrow> 'd \<Rightarrow> 'd" where
  "unmask_irq b irq d =
     (if irq < 8 then let (m, d) = in_b b PIC1_DATA d in out_b b PIC1_DATA (m AND NOT (push_bit (unat irq) 1)) d
      else if irq < 16 then let (m, d) = in_b b PIC2_DATA d in out_b b PIC2_DATA (m AND NOT (push_bit (unat (irq - 8)) 1)) d
      else d)"

definition init_interrupts :: "(nat \<Rightarrow> u64) \<Rightarrow> (nat \<Rightarrow> u64) \<Rightarrow> 'd bus \<Rightarrow> idt \<times> 'd \<Rightarrow> idt \<times> 'd" where
  "init_interrupts isr_stub irq_stub b s = (case s of (t, d) \<Rightarrow>
     let t = fold (\<lambda>i. idt_set i (isr_stub i) 0x08 0) [0..<32] t;
         t = fold (\<lambda>i. idt_set (32 + i) (irq_stub i) 0x08 0) [0..<16] t
     in (t, remap_pic b 0x20 0x28 d))"

definition PIT_CH0 :: u16 where "PIT_CH0 = 0x40"
definition PIT_CMD :: u16 where "PIT_CMD = 0x43"
definition PIT_BASE_FREQ :: u64 where "PIT_BASE_FREQ = 1193182"
definition TARGET_FREQ :: u64 where "TARGET_FREQ = 100"
definition PIT_DIVISOR :: u16 where "PIT_DIVISOR = ucast (PIT_BASE_FREQ div TARGET_FREQ)"
definition PIT_CMD_VALUE :: u8 where "PIT_CMD_VALUE = 0x36"

definition pit_init :: "'d bus \<Rightarrow> 'd \<Rightarrow> 'd" where
  "pit_init b d = out_b b PIT_CH0 (ucast (drop_bit 8 PIT_DIVISOR))
     (out_b b PIT_CH0 (ucast (PIT_DIVISOR AND 0xFF)) (out_b b PIT_CMD PIT_CMD_VALUE d))"

definition pit_tick :: "u64 \<Rightarrow> u64" where
  "pit_tick ticks = ticks + 1"

subsection \<open>Exceptions\<close>

record saved_registers =
  r_rax :: u64
  r_rcx :: u64
  r_rdx :: u64
  r_rbx :: u64
  r_rbp :: u64
  r_rsi :: u64
  r_rdi :: u64
  r_r8 :: u64
  r_r9 :: u64
  r_r10 :: u64
  r_r11 :: u64
  r_r12 :: u64
  r_r13 :: u64
  r_r14 :: u64
  r_r15 :: u64

record interrupt_frame =
  regs :: saved_registers
  int_no :: u64
  err_code :: u64
  f_rip :: u64
  f_cs :: u64
  f_rflags :: u64
  f_user_rsp :: u64
  f_ss :: u64

text \<open>The frame in memory: fifteen registers, then the vector, the error code and what the processor pushed.\<close>
definition frame_at :: "u64 \<Rightarrow> kernel \<Rightarrow> interrupt_frame" where
  "frame_at a k = (let w = \<lambda>i. kload (a + 8 * i) k in
     \<lparr>regs = \<lparr>r_rax = w 0, r_rcx = w 1, r_rdx = w 2, r_rbx = w 3, r_rbp = w 4, r_rsi = w 5, r_rdi = w 6, r_r8 = w 7, r_r9 = w 8,
        r_r10 = w 9, r_r11 = w 10, r_r12 = w 11, r_r13 = w 12, r_r14 = w 13, r_r15 = w 14\<rparr>,
      int_no = w 15, err_code = w 16, f_rip = w 17, f_cs = w 18, f_rflags = w 19, f_user_rsp = w 20, f_ss = w 21\<rparr>)"

definition EXCEPTION_NAMES :: "string list" where
  "EXCEPTION_NAMES = [''Divide-by-zero'', ''Debug'', ''Non-maskable Interrupt'', ''Breakpoint'', ''Overflow'',
     ''Bound Range Exceeded'', ''Invalid Opcode'', ''Device Not Available'', ''Double Fault'',
     ''Coprocessor Segment Overrun'', ''Invalid TSS'', ''Segment Not Present'', ''Stack-Segment Fault'',
     ''General Protection Fault'', ''Page Fault'', ''Reserved'', ''x87 FPU Error'', ''Alignment Check'',
     ''Machine Check'', ''SIMD FP Exception'', ''Virtualization Exception'', ''Control Protection'',
     ''Reserved'', ''Reserved'', ''Reserved'', ''Reserved'', ''Reserved'', ''Reserved'', ''Reserved'',
     ''Reserved'', ''Security Exception'', ''Reserved'']"

definition exception_name :: "u64 \<Rightarrow> u8 list" where
  "exception_name n = bytes (if unat n < length EXCEPTION_NAMES then EXCEPTION_NAMES ! unat n else ''Unknown'')"

definition RULE_LINE :: "u8 list" where
  "RULE_LINE = bytes ''========================================'' @ [0x0A]"

definition dump_line :: "string \<Rightarrow> u64 \<Rightarrow> u8 list" where
  "dump_line label v = bytes label @ hex_str v @ [0x0A]"

definition exception_header :: "u64 \<Rightarrow> interrupt_frame \<Rightarrow> u8 list" where
  "exception_header cr2 f =
     [0x0A] @ RULE_LINE @ bytes ''VIBIX: EXCEPTION: '' @ exception_name (int_no f) @ bytes '' (#'' @ fmt_dec (unat (int_no f)) @
       bytes '')'' @ [0x0A] @
     dump_line ''VIBIX:   RIP: '' (f_rip f) @ dump_line ''VIBIX:    CS: '' (f_cs f) @
     dump_line ''VIBIX: RFLAGS: '' (f_rflags f) @ dump_line ''VIBIX:   ERR: '' (err_code f) @
     dump_line ''VIBIX:   CR2: '' (if int_no f = 14 then cr2 else 0)"

definition register_dump :: "saved_registers \<Rightarrow> u8 list" where
  "register_dump r =
     bytes ''VIBIX: Registers:'' @ [0x0A] @
     dump_line ''VIBIX:   RAX: '' (r_rax r) @ dump_line ''VIBIX:   RBX: '' (r_rbx r) @ dump_line ''VIBIX:   RCX: '' (r_rcx r) @
     dump_line ''VIBIX:   RDX: '' (r_rdx r) @ dump_line ''VIBIX:   RSI: '' (r_rsi r) @ dump_line ''VIBIX:   RDI: '' (r_rdi r) @
     dump_line ''VIBIX:   RBP: '' (r_rbp r) @ dump_line ''VIBIX:    R8: '' (r_r8 r) @ dump_line ''VIBIX:    R9: '' (r_r9 r) @
     dump_line ''VIBIX:   R10: '' (r_r10 r) @ dump_line ''VIBIX:   R11: '' (r_r11 r) @ dump_line ''VIBIX:   R12: '' (r_r12 r) @
     dump_line ''VIBIX:   R13: '' (r_r13 r) @ dump_line ''VIBIX:   R14: '' (r_r14 r) @ dump_line ''VIBIX:   R15: '' (r_r15 r) @
     RULE_LINE"

text \<open>The handler prints its report and halts for good; its value is the state in which it halts.\<close>
definition interrupt_handler :: "u64 \<Rightarrow> interrupt_frame \<Rightarrow> kernel \<Rightarrow> kernel" where
  "interrupt_handler cr2 f k = serial_write (exception_header cr2 f @ register_dump (regs f)) k"

subsection \<open>Device interrupts\<close>

text \<open>The interrupt state of the machine: the timer's counter, the kernel and the devices.\<close>
definition irq_handler :: "'d bus \<Rightarrow> interrupt_frame \<Rightarrow> u64 \<times> kernel \<times> 'd \<Rightarrow> u64 \<times> kernel \<times> 'd" where
  "irq_handler b f s = (case s of (ticks, k, d) \<Rightarrow>
     let irq = int_no f - 32 in
     if irq = 0 then (pit_tick ticks, k, d)
     else if irq = 1
     then let (st, d) = in_b b 0x64 d in
          if st AND 0x01 = 0 then (ticks, k, d)
          else let (sc, d) = in_b b 0x60 d in (ticks, k\<lparr>k_kbd := handle_keyboard st sc (k_kbd k)\<rparr>, d)
     else (ticks, k, d))"

text \<open>The frame is the one the stub pushed at \<open>rsp\<close>; the result is the stack pointer that \<open>iretq\<close> pops from.\<close>
definition irq_common :: "'d bus \<Rightarrow> u64 \<Rightarrow> u64 \<times> kernel \<times> 'd \<Rightarrow> (u64 \<times> u64 \<times> kernel \<times> 'd) option" where
  "irq_common b rsp s = (case irq_handler b (frame_at rsp (fst (snd s))) s of (ticks, k, d) \<Rightarrow>
     let d = out_b b PIC1_COMMAND 0x20 d;
         d = (if kload (rsp + 120) k < 40 then d else out_b b PIC2_COMMAND 0x20 d)
     in do { (krsp, k) \<leftarrow> scheduler_tick rsp k; Some (krsp, ticks, k, d) })"

end
