(* ===== verification/Fd_Refs.thy ===== *)
theory Fd_Refs imports Fd_Calls begin

text \<open>The reference-count discipline of the open file table: the count of every entry is
  the number of descriptors, over all processes, that hold it.  Every file call keeps
  it, and the calls that fail leave no reference behind.\<close>

type_synonym fdview = "(u64 \<times> int list) option list"

definition fd_view :: "slots \<Rightarrow> fdview" where
  "fd_view ss = map (map_option (\<lambda>p. (p_pid p, p_fds p))) ss"

definition slot_refs :: "nat \<Rightarrow> (u64 \<times> int list) option \<Rightarrow> nat" where
  "slot_refs i s = (case s of None \<Rightarrow> 0 | Some (q, fds) \<Rightarrow> count_list fds (int i))"

definition refs :: "fdview \<Rightarrow> nat \<Rightarrow> nat" where
  "refs v i = sum_list (map (slot_refs i) v)"

definition fds_ok :: "int list \<Rightarrow> bool" where
  "fds_ok fds \<longleftrightarrow> length fds = MAX_FDS \<and> (\<forall>e \<in> set fds. - 1 \<le> e \<and> e < int OFT_SIZE)"

definition view_ok :: "fdview \<Rightarrow> bool" where
  "view_ok v \<longleftrightarrow> length v = MAX_PROCS \<and> (\<forall>q fds. Some (q, fds) \<in> set v \<longrightarrow> fds_ok fds)"

text \<open>Besides the descriptors, the code of a call may hold references for a while: \<open>xs\<close> are
  the table indices it holds.\<close>

definition fd_inv_plus :: "nat list \<Rightarrow> kernel \<Rightarrow> bool" where
  "fd_inv_plus xs k \<longleftrightarrow> slots_inv (k_slots k) \<and> oft_inv (k_oft k) \<and> view_ok (fd_view (k_slots k)) \<and>
     (\<forall>q \<in> pids (k_slots k). unat q < unat (next_pid (k_procs k))) \<and>
     (\<forall>i. oft_count (k_oft k) i = refs (fd_view (k_slots k)) i + count_list xs i)"

definition fd_inv :: "kernel \<Rightarrow> bool" where
  "fd_inv k \<longleftrightarrow> fd_inv_plus [] k"

subsection \<open>Counting\<close>

lemma count_list_update:
  "j < length xs \<Longrightarrow> count_list (xs[j := v]) x + (if xs ! j = x then 1 else 0) =
     count_list xs x + (if v = x then 1 else 0)"
proof (induction xs arbitrary: j)
  case (Cons a xs)
  show ?case
  proof (cases j)
    case (Suc i)
    then have "i < length xs" using Cons.prems by simp
    then show ?thesis using Cons.IH [of i] Suc by (auto split: if_splits)
  qed simp
qed simp

lemma sum_list_upd:
  "j < length xs \<Longrightarrow> sum_list (xs[j := v]) + xs ! j = sum_list xs + (v :: nat)"
proof (induction xs arbitrary: j)
  case (Cons a xs)
  then show ?case using Cons.IH [of "j - 1"] by (cases j) auto
qed simp

lemma refs_update:
  "j < length v \<Longrightarrow> refs (v[j := s]) i + slot_refs i (v ! j) = refs v i + slot_refs i s"
  using sum_list_upd [of j "map (slot_refs i) v" "slot_refs i s"] by (simp add: refs_def map_update)

lemma refs_bound: "view_ok v \<Longrightarrow> refs v i \<le> 1024"
proof -
  assume v: "view_ok v"
  have "slot_refs i s \<le> 16" if "s \<in> set v" for s
    using that v by (auto simp: view_ok_def slot_refs_def fds_ok_def MAX_FDS_def split: option.split)
      (metis count_le_length)
  then have "sum_list (map (slot_refs i) v) \<le> sum_list (map (\<lambda>_. 16) v)" by (rule sum_list_mono)
  also have "\<dots> = 1024" using v by (simp add: view_ok_def MAX_PROCS_def sum_list_triv)
  finally show ?thesis by (simp add: refs_def)
qed

lemma refs_outside: "view_ok v \<Longrightarrow> OFT_SIZE \<le> i \<Longrightarrow> refs v i = 0"
proof -
  assume v: "view_ok v" "OFT_SIZE \<le> i"
  have "slot_refs i s = 0" if "s \<in> set v" for s
    using that v by (force simp: view_ok_def slot_refs_def fds_ok_def count_list_0_iff split: option.split)
  then show ?thesis by (simp add: refs_def)
qed

subsection \<open>Views under updates\<close>

lemma fd_view_upd_same:
  assumes "\<And>p. p_pid (f p) = p_pid p" "\<And>p. p_fds (f p) = p_fds p"
  shows "fd_view (upd_process q f ss) = fd_view ss"
proof (cases "slot_of q ss")
  case (Some i)
  then obtain p where "ss ! i = Some p" "i < length ss" using slot_of_Some by blast
  moreover from this have "fd_view ss ! i = Some (p_pid p, p_fds p)" by (simp add: fd_view_def)
  moreover have "fd_view (upd_process q f ss) = (fd_view ss)[i := Some (p_pid p, p_fds p)]"
    using Some calculation(1) assms by (simp add: upd_process_def fd_view_def map_update)
  ultimately show ?thesis by (metis list_update_id)
qed (simp add: upd_process_def)

lemma fd_view_nth:
  "i < length ss \<Longrightarrow> fd_view ss ! i = Some (q, f) \<longleftrightarrow> (\<exists>p. ss ! i = Some p \<and> p_pid p = q \<and> p_fds p = f)"
  by (auto simp: fd_view_def)

lemma length_fd_view [simp]: "length (fd_view ss) = length ss"
  by (simp add: fd_view_def)

lemma fd_view_set:
  "Some (q, f) \<in> set (fd_view ss) \<longleftrightarrow> (\<exists>p. Some p \<in> set ss \<and> p_pid p = q \<and> p_fds p = f)"
  unfolding in_set_conv_nth length_fd_view using fd_view_nth by blast

lemma slots_inv_view:
  "slots_inv ss \<longleftrightarrow> length ss = MAX_PROCS \<and> (\<forall>fds. Some (0, fds) \<notin> set (fd_view ss)) \<and>
     (\<forall>i < length ss. \<forall>j < length ss. \<forall>q f g. fd_view ss ! i = Some (q, f) \<and> fd_view ss ! j = Some (q, g)
        \<longrightarrow> i = j)"
proof -
  have "(\<forall>fds. Some (0, fds) \<notin> set (fd_view ss)) \<longleftrightarrow> 0 \<notin> pids ss"
    unfolding fd_view_set pids_def by blast
  moreover have "(\<forall>q f g. fd_view ss ! i = Some (q, f) \<and> fd_view ss ! j = Some (q, g) \<longrightarrow> i = j) \<longleftrightarrow>
      (\<forall>p q. ss ! i = Some p \<and> ss ! j = Some q \<and> p_pid p = p_pid q \<longrightarrow> i = j)"
    if "i < length ss" "j < length ss" for i j
    unfolding fd_view_nth [OF that(1)] fd_view_nth [OF that(2)] by (cases "ss ! i"; cases "ss ! j") auto
  ultimately show ?thesis unfolding slots_inv_def by simp
qed

lemma pids_view: "pids ss = {q. \<exists>fds. Some (q, fds) \<in> set (fd_view ss)}"
  by (auto simp: pids_def fd_view_set)

lemma fd_inv_cong:
  assumes a: "fd_view (k_slots k') = fd_view (k_slots k)"
    and "oft_count (k_oft k') = oft_count (k_oft k)" "oft_inv (k_oft k') = oft_inv (k_oft k)"
    and "next_pid (k_procs k') = next_pid (k_procs k)"
  shows "fd_inv_plus xs k' = fd_inv_plus xs k"
proof -
  have "pids (k_slots k') = pids (k_slots k)" unfolding pids_view a by simp
  moreover have "length (k_slots k') = length (k_slots k)" using arg_cong [OF a, of length] by simp
  then have "slots_inv (k_slots k') = slots_inv (k_slots k)" unfolding slots_inv_view a by simp
  ultimately show ?thesis using assms by (simp add: fd_inv_plus_def)
qed

text \<open>A store to one descriptor of a process.\<close>

lemma fd_view_set_fd:
  assumes p: "process_mut_if q ss = Some p"
  obtains j where "j < length ss" "ss ! j = Some p" "fd_view ss ! j = Some (q, p_fds p)"
    "\<And>f. (\<And>p. p_pid (f p) = p_pid p) \<Longrightarrow> fd_view (upd_process q f ss) = (fd_view ss)[j := Some (q, p_fds (f p))]"
proof -
  obtain j where j: "slot_of q ss = Some j" "ss ! j = Some p"
    using p by (auto simp: process_mut_if_def split: option.splits)
  then have l: "j < length ss" "p_pid p = q" using slot_of_Some by force+
  show thesis
    by (rule that [OF l(1) j(2)]) (use l j in \<open>auto simp: fd_view_def upd_process_def map_update\<close>)
qed

lemma fds_ok_update: "fds_ok fds \<Longrightarrow> - 1 \<le> v \<Longrightarrow> v < int OFT_SIZE \<Longrightarrow> fds_ok (fds[j := v])"
  using set_update_subset_insert [of fds j v] by (auto simp: fds_ok_def)

lemma view_ok_update: "view_ok v \<Longrightarrow> fds_ok fds \<Longrightarrow> view_ok (v[j := Some (q, fds)])"
  using set_update_subset_insert [of v j "Some (q, fds)"] by (auto simp: view_ok_def)

lemma set_fd_refs:
  assumes inv: "slots_inv (k_slots k)" "view_ok (fd_view (k_slots k))"
    and p: "process_mut (k_cur k) k = Some p" and fd: "fd < MAX_FDS" and v: "- 1 \<le> v" "v < int OFT_SIZE"
  shows "slots_inv (k_slots (set_fd fd v k))" "view_ok (fd_view (k_slots (set_fd fd v k)))"
    "refs (fd_view (k_slots (set_fd fd v k))) i + (if p_fds p ! fd = int i then 1 else 0) =
     refs (fd_view (k_slots k)) i + (if v = int i then 1 else 0)"
proof -
  let ?f = "\<lambda>p. p\<lparr>p_fds := (p_fds p)[fd := v]\<rparr>"
  obtain j where j: "j < length (k_slots k)" "fd_view (k_slots k) ! j = Some (k_cur k, p_fds p)"
    "fd_view (upd_process (k_cur k) ?f (k_slots k)) = (fd_view (k_slots k))[j := Some (k_cur k, p_fds (?f p))]"
    by (rule fd_view_set_fd [OF p [unfolded process_mut_def]]) auto
  have jl: "j < length (fd_view (k_slots k))" using j by (simp add: fd_view_def)
  have ok: "fds_ok (p_fds p)" using inv(2) j(2) jl unfolding view_ok_def by (metis nth_mem)
  show "slots_inv (k_slots (set_fd fd v k))" by (simp add: set_fd_def slots_inv_upd inv(1))
  show "view_ok (fd_view (k_slots (set_fd fd v k)))"
    using view_ok_update [OF inv(2) fds_ok_update [OF ok v]] j(3) by (simp add: set_fd_def)
  have "count_list ((p_fds p)[fd := v]) (int i) + (if p_fds p ! fd = int i then 1 else 0) =
     count_list (p_fds p) (int i) + (if v = int i then 1 else 0)"
    by (rule count_list_update) (use ok fd in \<open>simp add: fds_ok_def\<close>)
  then show "refs (fd_view (k_slots (set_fd fd v k))) i + (if p_fds p ! fd = int i then 1 else 0) =
     refs (fd_view (k_slots k)) i + (if v = int i then 1 else 0)"
    using refs_update [OF jl, of "Some (k_cur k, p_fds (?f p))" i] j(2,3)
    by (simp add: set_fd_def slot_refs_def)
qed

lemma fd_inv_plusD:
  assumes "fd_inv_plus xs k"
  shows "slots_inv (k_slots k)" "oft_inv (k_oft k)" "view_ok (fd_view (k_slots k))"
    "oft_count (k_oft k) i = refs (fd_view (k_slots k)) i + count_list xs i"
    "\<forall>q \<in> pids (k_slots k). unat q < unat (next_pid (k_procs k))"
  using assms by (simp_all add: fd_inv_plus_def)

lemma fd_inv_plus_perm: "fd_inv_plus xs k \<Longrightarrow> (\<And>i. count_list ys i = count_list xs i) \<Longrightarrow> fd_inv_plus ys k"
  by (simp add: fd_inv_plus_def)

lemma cur_fds_ok:
  assumes "fd_inv_plus xs k" "process_mut (k_cur k) k = Some p"
  shows "fds_ok (p_fds p)"
proof -
  have "Some p \<in> set (k_slots k)" "p_pid p = k_cur k"
    using assms process_mut_if_Some [OF fd_inv_plusD(1) [OF assms(1)]] by (auto simp: process_mut_def)
  then have "Some (k_cur k, p_fds p) \<in> set (fd_view (k_slots k))" by (auto simp: fd_view_set)
  then show ?thesis using fd_inv_plusD(3) [OF assms(1)] by (auto simp: view_ok_def)
qed

subsection \<open>Moving references\<close>

text \<open>A descriptor takes over a reference the code holds.\<close>

lemma fd_install:
  assumes inv: "fd_inv_plus (i # xs) k" and p: "process_mut (k_cur k) k = Some p"
    and fd: "fd < MAX_FDS" "p_fds p ! fd < 0"
  shows "fd_inv_plus xs (set_fd fd (int i) k)"
proof -
  note D = fd_inv_plusD [OF inv]
  have "0 < oft_count (k_oft k) i" using D(4) [of i] by simp
  then have "i < OFT_SIZE" using oft_count_pos by blast
  then have v: "- 1 \<le> int i" "int i < int OFT_SIZE" by simp_all
  note S = set_fd_refs [OF D(1,3) p fd(1) v]
  have "oft_count (k_oft k) j = refs (fd_view (k_slots (set_fd fd (int i) k))) j + count_list xs j" for j
    using D(4) [of j] S(3) [of j] fd(2) by (auto split: if_splits)
  then show ?thesis using S(1,2) D(2,5) by (simp add: fd_inv_plus_def set_fd_def pids_upd)
qed

text \<open>A descriptor is cleared, and the code holds its reference.\<close>

lemma fd_clear:
  assumes inv: "fd_inv_plus xs k" and p: "process_mut (k_cur k) k = Some p"
    and fd: "fd < MAX_FDS" "0 \<le> p_fds p ! fd"
  shows "fd_inv_plus (nat (p_fds p ! fd) # xs) (set_fd fd (- 1) k)"
proof -
  note D = fd_inv_plusD [OF inv]
  have S: "slots_inv (k_slots (set_fd fd (- 1) k))" "view_ok (fd_view (k_slots (set_fd fd (- 1) k)))"
    "\<And>i. refs (fd_view (k_slots (set_fd fd (- 1) k))) i + (if p_fds p ! fd = int i then 1 else 0) =
     refs (fd_view (k_slots k)) i + (if - 1 = int i then 1 else 0)"
    by (rule set_fd_refs [OF D(1,3) p fd(1)]; simp)+
  have "oft_count (k_oft k) j =
      refs (fd_view (k_slots (set_fd fd (- 1) k))) j + count_list (nat (p_fds p ! fd) # xs) j" for j
    using D(4) [of j] S(3) [of j] fd(2) by (auto split: if_splits)
  then show ?thesis using S(1,2) D(2,5) by (simp add: fd_inv_plus_def set_fd_def pids_upd)
qed

lemma vn_close_frame:
  assumes "vn_close v k = Some k'"
  shows "k_procs k' = k_procs k \<and> k_cur k' = k_cur k \<and> k_oft k' = k_oft k \<and> k_mem k' = k_mem k \<and>
    k_cr3 k' = k_cr3 k \<and> k_vnodes k' = k_vnodes k"
  using assms
  by (auto simp: vn_close_def pipe_close_def k_free_def set_pipe_def Let_def bind_eq_Some_conv split: if_splits)

lemma oft_decref_frame:
  assumes "oft_decref i k = Some k'"
  shows "k_procs k' = k_procs k \<and> k_cur k' = k_cur k \<and> k_oft k' = snd (oft_drop i (k_oft k)) \<and> k_mem k' = k_mem k \<and>
    k_cr3 k' = k_cr3 k \<and> k_vnodes k' = k_vnodes k"
  using assms vn_close_frame [of _ "k\<lparr>k_oft := snd (oft_drop i (k_oft k))\<rparr>" k']
  by (auto simp: oft_decref_def Let_def split: prod.splits option.splits)

text \<open>The code gives up a reference it holds.\<close>

lemma fd_release:
  assumes inv: "fd_inv_plus (i # xs) k" and d: "oft_decref i k = Some k'"
  shows "fd_inv_plus xs k'"
proof -
  note D = fd_inv_plusD [OF inv] and F = oft_decref_frame [OF d]
  have "0 < oft_count (k_oft k) i" using D(4) [of i] by simp
  note C = oft_drop_cnt [OF D(2) this]
  have "oft_count (k_oft k') j = refs (fd_view (k_slots k')) j + count_list xs j" for j
    using C D(4) [of j] F by auto
  then show ?thesis using C D(1,3,5) F by (simp add: fd_inv_plus_def)
qed

text \<open>The code takes one more reference to an entry that has one.\<close>

lemma fd_share:
  assumes inv: "fd_inv_plus xs k" and pos: "0 < oft_count (k_oft k) i" and len: "length xs \<le> 1024"
  shows "fd_inv_plus (i # xs) (k\<lparr>k_oft := oft_incref i (k_oft k)\<rparr>)"
proof -
  note D = fd_inv_plusD [OF inv]
  have "oft_count (k_oft k) i < 2 ^ 32 - 1"
    using D(4) [of i] refs_bound [OF D(3), of i] count_le_length [of xs i] len by simp
  note C = oft_incref_cnt [OF D(2) pos this]
  have "oft_count (oft_incref i (k_oft k)) j = refs (fd_view (k_slots k)) j + count_list (i # xs) j" for j
    using C D(4) [of j] by auto
  then show ?thesis using C D(1,3,5) by (simp add: fd_inv_plus_def)
qed

text \<open>A new entry, held by the code.\<close>

lemma fd_acquire:
  assumes inv: "fd_inv_plus xs k" and a: "oft_alloc v fl md (k_oft k) = (Inr i, t)"
  shows "fd_inv_plus (i # xs) (k\<lparr>k_oft := t\<rparr>)"
proof -
  note D = fd_inv_plusD [OF inv] and C = oft_alloc_cnt [OF fd_inv_plusD(2) [OF inv] a]
  then have "oft_count (k_oft k) i = 0" by (simp add: oft_count_def)
  then have "oft_count t j = refs (fd_view (k_slots k)) j + count_list (i # xs) j" for j
    using C D(4) [of j] by auto
  then show ?thesis using C D(1,3,5) by (simp add: fd_inv_plus_def)
qed

lemma free_fd_Some: "free_fd fds = Some fd \<Longrightarrow> fd < MAX_FDS \<and> fds ! fd < 0"
  unfolding free_fd_def find_upt_Some_iff by simp

subsection \<open>Operations that leave the descriptors alone\<close>

definition keeps_fds :: "kernel \<Rightarrow> kernel \<Rightarrow> bool" where
  "keeps_fds k k' \<longleftrightarrow> fd_view (k_slots k') = fd_view (k_slots k) \<and> k_oft k' = k_oft k \<and>
     next_pid (k_procs k') = next_pid (k_procs k)"

lemma keeps_refl [simp]: "keeps_fds k k"
  by (simp add: keeps_fds_def)

lemma keeps_trans [trans]: "keeps_fds k k1 \<Longrightarrow> keeps_fds k1 k2 \<Longrightarrow> keeps_fds k k2"
  by (simp add: keeps_fds_def)

lemma keeps_inv: "keeps_fds k k' \<Longrightarrow> fd_inv_plus xs k \<Longrightarrow> fd_inv_plus xs k'"
  using fd_inv_cong [of k' k xs] by (simp add: keeps_fds_def)

lemma keeps_fold: "(\<And>x k. keeps_fds k (f x k)) \<Longrightarrow> keeps_fds k (fold f xs k)"
  by (induction xs arbitrary: k) (auto intro: keeps_trans)

lemma keeps_same_procs: "k_procs k' = k_procs k \<Longrightarrow> k_oft k' = k_oft k \<Longrightarrow> keeps_fds k k'"
  by (simp add: keeps_fds_def)

lemma keeps_set_process:
  "(\<And>p. p_pid (f p) = p_pid p) \<Longrightarrow> (\<And>p. p_fds (f p) = p_fds p) \<Longrightarrow> keeps_fds k (set_process q f k)"
  by (simp add: keeps_fds_def fd_view_upd_same)

lemma keeps_simple [simp]:
  "keeps_fds k (set_schedule k)" "keeps_fds k (set_tty g k)" "keeps_fds k (serial_write bs k)"
  "keeps_fds k (set_vnode v vn k)" "keeps_fds k (set_pipe q pb k)" "keeps_fds k (echo bs k)"
  by (simp_all add: keeps_same_procs set_schedule_def set_tty_def set_vnode_def set_pipe_def echo_def)

lemma keeps_user_store: "user_store a bs k = Some k' \<Longrightarrow> keeps_fds k k'"
  by (auto simp: user_store_def keeps_fds_def)

lemma keeps_heap: "k_malloc n k = Some (q, k') \<Longrightarrow> keeps_fds k k'" "k_free a k = Some k' \<Longrightarrow> keeps_fds k k'"
  by (auto simp: k_malloc_def k_free_def keeps_fds_def)

lemma keeps_wake_reader [simp]: "keeps_fds k (wake_reader q k)"
  unfolding wake_reader_def
  by (auto split: option.split intro: keeps_trans [OF keeps_set_process keeps_simple(1)])

lemma keeps_push_byte [simp]: "keeps_fds k (push_byte b k)"
  unfolding push_byte_def Let_def
  by (auto intro: keeps_trans [OF keeps_simple(2)] keeps_trans [OF keeps_simple(2) keeps_trans [OF keeps_simple(2) keeps_wake_reader]])

lemma keeps_process_byte [simp]: "keeps_fds k (process_byte c k)"
proof -
  have sig: "keeps_fds k (set_process q (\<lambda>p. p\<lparr>p_sig_pending := p_sig_pending p OR s\<rparr>) k)" for q s k
    by (rule keeps_set_process) simp_all
  have e: "keeps_fds k (echo bs (set_tty g k))" for bs g k
    by (rule keeps_trans [OF keeps_simple(2) keeps_simple(6)])
  have "keeps_fds k (handle_ctrlc k)" for k
    unfolding handle_ctrlc_def Let_def
    by (rule keeps_trans [OF _ keeps_push_byte])
      (auto intro: e keeps_trans [OF e] keeps_trans [OF e keeps_simple(2)] sig split: option.split)
  moreover have "keeps_fds k (handle_enter k)" for k
    unfolding handle_enter_def Let_def
    by (rule keeps_trans [OF keeps_simple(6) keeps_trans [OF keeps_fold
          keeps_trans [OF keeps_push_byte keeps_simple(2)]]]) simp
  ultimately show ?thesis
    by (auto simp: process_byte_def handle_backspace_def handle_tab_def handle_char_def Let_def
      intro: e keeps_trans [OF keeps_simple(6) keeps_simple(2)])
qed

lemma keeps_process_input [simp]: "keeps_fds k (process_input k)"
proof -
  have f: "keeps_fds k (fold process_byte bs k)" for bs k by (rule keeps_fold) simp
  have "keeps_fds k (k\<lparr>k_kbd := kb\<rparr>)" "keeps_fds k (k\<lparr>k_serial_in := si\<rparr>)" for k kb si
    by (simp_all add: keeps_fds_def)
  then show ?thesis
    by (auto simp: process_input_def Let_def serial_read_def split: prod.split intro!: keeps_trans [OF _ f])
      (meson f keeps_trans)
qed

lemma keeps_tty_read_bytes:
  assumes "tty_read_bytes n k = Some (bs, k')"
  shows "keeps_fds k k'"
proof -
  have b: "keeps_fds k (set_schedule (set_tty g (set_process q (\<lambda>p. p\<lparr>p_state := Blocked\<rparr>) k)))" for g q k
    by (rule keeps_trans [OF keeps_trans [OF keeps_set_process keeps_simple(2)] keeps_simple(1)]) simp_all
  have "keeps_fds k (k\<lparr>k_tty := t\<rparr>)" for k t by (simp add: keeps_fds_def)
  then have "keeps_fds (process_input k) k'"
    using assms b by (auto simp: tty_read_bytes_def Let_def split: if_splits prod.splits option.splits)
  then show ?thesis by (rule keeps_trans [OF keeps_process_input])
qed

lemma keeps_vn_read:
  assumes "vn_read v buf n off k = Some (r, off', k')"
  shows "keeps_fds k k'"
  using assms
  by (auto simp: vn_read_def devfs_read_def tty_read_def initramfs_read_def pipe_read_def Let_def
      bind_eq_Some_conv split: vnode_ops.splits dev_id.splits prod.splits
      intro: keeps_user_store keeps_trans [OF keeps_tty_read_bytes keeps_user_store]
        keeps_trans [OF keeps_simple(5) keeps_user_store])

lemma keeps_vn_write:
  assumes "vn_write v buf n k = Some (r, k')"
  shows "keeps_fds k k'"
  using assms
  by (auto simp: vn_write_def devfs_write_def tty_write_def pipe_write_def Let_def
      bind_eq_Some_conv case_prod_beta split: vnode_ops.splits if_splits)

lemma keeps_build_vnode: "initramfs_build_vnode cp k = Some (v, k') \<Longrightarrow> keeps_fds k k'"
  by (auto simp: initramfs_build_vnode_def alloc_vnode_def bind_eq_Some_conv
      split: option.splits prod.splits if_splits intro: keeps_heap(1) keeps_trans [OF keeps_heap(1) keeps_simple(4)])

lemma keeps_vfs_lookup: "vfs_lookup d n k = Some (r, k') \<Longrightarrow> keeps_fds k k'"
  by (auto simp: vfs_lookup_def rootfs_lookup_def Let_def bind_eq_Some_conv
      split: if_splits fs_type.splits option.splits prod.splits intro: keeps_build_vnode)

lemma keeps_resolve_from: "resolve_from path st cs cur k = Some (r, k') \<Longrightarrow> keeps_fds k k'"
proof (induction path st cs cur k rule: resolve_from.induct)
  case (2 path st c cs cur k)
  from 2(2) obtain r1 k1 where l: "vfs_lookup cur (slice path c) k = Some (r1, k1)"
    by (auto simp: bind_eq_Some_conv)
  then have k1: "keeps_fds k k1" by (rule keeps_vfs_lookup)
  have "keeps_fds k1 k'"
  proof (cases r1)
    case (Inr nxt)
    then show ?thesis using 2(2) 2(1) [OF l refl Inr] l by simp
  qed (use 2(2) l in \<open>auto simp: bind_eq_Some_conv split: if_splits intro: keeps_build_vnode\<close>)
  with k1 show ?case by (rule keeps_trans)
qed simp

lemma keeps_vfs_resolve: "vfs_resolve path k = Some (r, k') \<Longrightarrow> keeps_fds k k'"
  by (auto simp: vfs_resolve_def Let_def split: option.splits if_splits sum.splits intro: keeps_resolve_from)

lemma oft_set_offset_inv:
  assumes "fd_inv_plus xs k"
  shows "fd_inv_plus xs (k\<lparr>k_oft := oft_set_offset i off (k_oft k)\<rparr>)"
proof -
  note D = fd_inv_plusD [OF assms]
  have "oft_inv (oft_set_offset i off (k_oft k))" "oft_count (oft_set_offset i off (k_oft k)) = oft_count (k_oft k)"
  proof (atomize (full), cases "i < OFT_SIZE")
    case True
    then have "k_oft k ! i \<in> set (k_oft k)" using D(2) by (simp add: oft_inv_def)
    then have "oft_inv (oft_set_offset i off (k_oft k))"
      using D(2) unfolding oft_set_offset_def by (intro oft_inv_update) (auto simp: oft_inv_def)
    then show "oft_inv (oft_set_offset i off (k_oft k)) \<and> oft_count (oft_set_offset i off (k_oft k)) = oft_count (k_oft k)"
      using oft_count_update [OF D(2) True] True
      by (auto simp: oft_set_offset_def oft_count_def fun_eq_iff split: option.split)
  qed (use D(2) in \<open>simp add: oft_set_offset_def oft_inv_def list_update_beyond\<close>)
  then show ?thesis using assms by (simp add: fd_inv_plus_def)
qed

subsection \<open>The calls\<close>

lemma fd_held:
  assumes inv: "fd_inv_plus xs k" and p: "process_mut (k_cur k) k = Some p"
    and fd: "fd < MAX_FDS" "0 \<le> p_fds p ! fd"
  shows "0 < oft_count (k_oft k) (nat (p_fds p ! fd))"
  using fd_inv_plusD(4) [OF fd_clear [OF assms], of "nat (p_fds p ! fd)"] by (simp add: set_fd_def)

lemma set_fd_process:
  assumes "slots_inv (k_slots k)" "process_mut (k_cur k) k = Some p"
  shows "process_mut (k_cur k) (set_fd fd v k) = Some (p\<lparr>p_fds := (p_fds p)[fd := v]\<rparr>)"
  using assms by (simp add: set_fd_def process_mut_def process_mut_if_upd)

lemma set_fd_cur [simp]: "k_cur (set_fd fd v k) = k_cur k" "k_oft (set_fd fd v k) = k_oft k"
  by (simp_all add: set_fd_def)

lemma fds_at: "\<not> fd \<ge> of_nat MAX_FDS \<Longrightarrow> unat (fd :: u64) < MAX_FDS"
  by (simp add: MAX_FDS_def word_le_nat_alt not_le)

lemma sys_open_inv:
  assumes inv: "fd_inv k" and c: "sys_open path fl md k = Some (r, k')"
  shows "fd_inv k'"
proof -
  obtain q where q: "user_path path k = Some q" using c by (auto simp: sys_open_def bind_eq_Some_conv)
  show ?thesis
  proof (cases q)
    case (Inr bs)
    obtain w k1 where w: "vfs_resolve bs k = Some (w, k1)"
      using c q Inr by (auto simp: sys_open_def bind_eq_Some_conv)
    have i1: "fd_inv_plus [] k1" using keeps_inv [OF keeps_vfs_resolve [OF w]] inv by (simp add: fd_inv_def)
    show ?thesis
    proof (cases "\<exists>v i t. w = Inr v \<and> oft_alloc v (ucast fl) (ucast md) (k_oft k1) = (Inr i, t)")
      case True
      then obtain v i t where a: "w = Inr v" "oft_alloc v (ucast fl) (ucast md) (k_oft k1) = (Inr i, t)" by blast
      define k2 where "k2 = k1\<lparr>k_oft := t\<rparr>"
      have i2: "fd_inv_plus [i] k2" unfolding k2_def by (rule fd_acquire [OF i1 a(2)])
      obtain p where p: "process_mut (k_cur k2) k2 = Some p"
        using c q Inr w a by (auto simp: sys_open_def cur_fds_def k2_def Let_def bind_eq_Some_conv)
      have c2: "(case free_fd (p_fds p) of Some fd \<Rightarrow> Some (of_nat fd, set_fd fd (int i) k2)
          | None \<Rightarrow> do { k \<leftarrow> oft_decref i k2; Some (neg_errno EMFILE, k) }) = Some (r, k')"
        using c q Inr w a p unfolding k2_def by (simp add: sys_open_def cur_fds_def Let_def)
      show ?thesis
        using c2 fd_release [OF i2] fd_install [OF i2 p] free_fd_Some [of "p_fds p"]
        by (auto simp: fd_inv_def bind_eq_Some_conv split: option.splits)
    next
      case False
      then have "k' = k1" using c q Inr w by (auto simp: sys_open_def split: sum.splits prod.splits)
      then show ?thesis using i1 by (simp add: fd_inv_def)
    qed
  qed (use c q inv in \<open>auto simp: sys_open_def\<close>)
qed

lemma sys_close_inv:
  assumes inv: "fd_inv k" and c: "sys_close fd k = Some (r, k')"
  shows "fd_inv k'"
proof (cases "fd \<ge> of_nat MAX_FDS")
  case False
  then obtain p where p: "process_mut (k_cur k) k = Some p"
    using c by (auto simp: sys_close_def cur_fds_def bind_eq_Some_conv)
  show ?thesis
  proof (cases "p_fds p ! unat fd < 0")
    case neg: False
    then have "oft_decref (nat (p_fds p ! unat fd)) (set_fd (unat fd) (- 1) k) = Some k'"
      using c False p by (auto simp: sys_close_def cur_fds_def bind_eq_Some_conv)
    then show ?thesis
      using fd_release [OF fd_clear [OF inv [unfolded fd_inv_def] p fds_at [OF False]]] neg
      by (simp add: fd_inv_def)
  qed (use c p False inv in \<open>auto simp: sys_close_def cur_fds_def\<close>)
qed (use c inv in \<open>auto simp: sys_close_def\<close>)

text \<open>Sharing an entry through one descriptor into a free one, in the order of \<open>dup2\<close>.\<close>

lemma dup_into:
  assumes inv: "fd_inv_plus [] k" and p: "process_mut (k_cur k) k = Some p"
    and fd: "fd < MAX_FDS" "p_fds p ! fd = i" "0 \<le> i" and n: "n < MAX_FDS" "p_fds p ! n < 0"
  shows "fd_inv ((set_fd n i k)\<lparr>k_oft := oft_incref (nat i) (k_oft (set_fd n i k))\<rparr>)"
proof -
  let ?k = "k\<lparr>k_oft := oft_incref (nat i) (k_oft k)\<rparr>"
  have "fd_inv_plus [nat i] ?k"
    using fd_share [OF inv fd_held [OF inv p fd(1)]] fd by simp
  then have "fd_inv_plus [] (set_fd n (int (nat i)) ?k)"
    by (rule fd_install) (use p n in \<open>auto simp: process_mut_def\<close>)
  moreover have "set_fd n (int (nat i)) ?k = (set_fd n i k)\<lparr>k_oft := oft_incref (nat i) (k_oft k)\<rparr>"
    using fd(3) by (simp add: set_fd_def set_process_def upd_slots_def)
  ultimately show ?thesis by (simp add: fd_inv_def)
qed

lemma sys_dup_inv:
  assumes inv: "fd_inv k" and c: "sys_dup fd k = Some (r, k')"
  shows "fd_inv k'"
proof (cases "k' = k")
  case False
  then obtain p nfd where p: "process_mut (k_cur k) k = Some p" and fd: "\<not> fd \<ge> of_nat MAX_FDS"
    and i: "0 \<le> p_fds p ! unat fd" and n: "free_fd (p_fds p) = Some nfd"
    and k': "k' = (set_fd nfd (p_fds p ! unat fd) k)\<lparr>k_oft := oft_incref (nat (p_fds p ! unat fd)) (k_oft k)\<rparr>"
    using c by (auto simp: sys_dup_def cur_fds_def bind_eq_Some_conv Let_def split: if_splits option.splits)
  show ?thesis
    using dup_into [OF inv [unfolded fd_inv_def] p fds_at [OF fd] refl i] free_fd_Some [OF n] by (simp add: k')
qed (use inv in simp)

lemma sys_dup2_inv:
  assumes inv: "fd_inv k" and c: "sys_dup2 fd n k = Some (r, k')"
  shows "fd_inv k'"
proof (cases "k' = k")
  case False
  then obtain p k1 where p: "process_mut (k_cur k) k = Some p" and fd: "\<not> fd \<ge> of_nat MAX_FDS" "\<not> n \<ge> of_nat MAX_FDS"
    and i: "0 \<le> p_fds p ! unat fd" and ne: "fd \<noteq> n"
    and k1: "(if p_fds p ! unat n \<ge> 0 then oft_decref (nat (p_fds p ! unat n)) (set_fd (unat n) (- 1) k) else Some k) = Some k1"
    and k': "k' = (set_fd (unat n) (p_fds p ! unat fd) k1)\<lparr>k_oft :=
        oft_incref (nat (p_fds p ! unat fd)) (k_oft (set_fd (unat n) (p_fds p ! unat fd) k1))\<rparr>"
    using c by (auto simp: sys_dup2_def cur_fds_def bind_eq_Some_conv Let_def split: if_splits)
  have lt: "unat fd < MAX_FDS" "unat n < MAX_FDS" "unat fd \<noteq> unat n" using fd ne fds_at by (simp_all add: word_unat_eq_iff)
  have l: "length (p_fds p) = MAX_FDS" using cur_fds_ok [OF inv [unfolded fd_inv_def] p] by (simp add: fds_ok_def)
  obtain p1 where "fd_inv_plus [] k1" "process_mut (k_cur k1) k1 = Some p1"
    "p_fds p1 ! unat fd = p_fds p ! unat fd" "p_fds p1 ! unat n < 0"
  proof (cases "p_fds p ! unat n \<ge> 0")
    case True
    then have d: "oft_decref (nat (p_fds p ! unat n)) (set_fd (unat n) (- 1) k) = Some k1" using k1 by simp
    have "process_mut (k_cur k1) k1 = Some (p\<lparr>p_fds := (p_fds p)[unat n := - 1]\<rparr>)"
      using oft_decref_frame [OF d] set_fd_process [OF fd_inv_plusD(1) [OF inv [unfolded fd_inv_def]] p]
      by (simp add: process_mut_def)
    with fd_release [OF fd_clear [OF inv [unfolded fd_inv_def] p lt(2) True] d] show thesis
      by (rule that) (use lt l in auto)
  qed (use k1 p inv that in \<open>auto simp: fd_inv_def\<close>)
  then show ?thesis unfolding k' using dup_into lt i by blast
qed (use inv in simp)

lemma pipe_install_inv:
  assumes inv: "fd_inv_plus [ri, wi] k" and c: "pipe_install a ri wi k = Some (r, k')"
  shows "fd_inv k'"
proof -
  obtain p where p: "process_mut (k_cur k) k = Some p"
    using c by (auto simp: pipe_install_def cur_fds_def bind_eq_Some_conv)
  show ?thesis
  proof (cases "free_fd (p_fds p)")
    case None
    then obtain k1 where "oft_decref ri k = Some k1" "oft_decref wi k1 = Some k'"
      using c p by (auto simp: pipe_install_def cur_fds_def bind_eq_Some_conv)
    then show ?thesis using fd_release [OF fd_release [OF inv]] by (simp add: fd_inv_def)
  next
    case (Some rfd)
    note f1 = free_fd_Some [OF Some]
    define k1 where "k1 = set_fd rfd (int ri) k"
    define p1 where "p1 = p\<lparr>p_fds := (p_fds p)[rfd := int ri]\<rparr>"
    have i1: "fd_inv_plus [wi] k1" unfolding k1_def by (rule fd_install [OF inv p]) (use f1 in auto)
    have p1: "process_mut (k_cur k1) k1 = Some p1"
      using set_fd_process [OF fd_inv_plusD(1) [OF inv] p] by (simp add: k1_def p1_def)
    have at: "p_fds p1 ! rfd = int ri"
      using f1 cur_fds_ok [OF inv p] by (simp add: p1_def fds_ok_def)
    show ?thesis
    proof (cases "free_fd (p_fds p1)")
      case None
      then obtain k2 where k2: "oft_decref ri (set_fd rfd (- 1) k1) = Some k2" "oft_decref wi k2 = Some k'"
        using c p Some p1 by (auto simp: pipe_install_def cur_fds_def Let_def k1_def bind_eq_Some_conv)
      have "fd_inv_plus [ri, wi] (set_fd rfd (- 1) k1)"
        using fd_clear [OF i1 p1, of rfd] f1 at by simp
      then show ?thesis using k2 fd_release [OF fd_release] by (simp add: fd_inv_def)
    next
      case (Some wfd)
      then obtain k3 where k3: "user_store a (le_bytes 4 (of_nat rfd :: u32)) (set_fd wfd (int wi) k1) = Some k3"
        "user_store (a + 4) (le_bytes 4 (of_nat wfd :: u32)) k3 = Some k'"
        using c p \<open>free_fd (p_fds p) = Some rfd\<close> p1
        by (auto simp: pipe_install_def cur_fds_def Let_def k1_def bind_eq_Some_conv)
      have "fd_inv_plus [] (set_fd wfd (int wi) k1)"
        by (rule fd_install [OF i1 p1]) (use free_fd_Some [OF Some] in auto)
      then show ?thesis
        unfolding fd_inv_def by (rule keeps_inv [OF keeps_trans [OF keeps_user_store [OF k3(1)] keeps_user_store [OF k3(2)]]])
    qed
  qed
qed

lemma pipe_files_inv:
  assumes inv: "fd_inv k" and c: "pipe_files a pb rvn wvn k = Some (r, k')"
  shows "fd_inv k'"
proof (cases "oft_alloc (Heap_Vnode rvn) O_RDONLY 0x180 (k_oft k)")
  case (Pair ei t)
  show ?thesis
  proof (cases ei)
    case (Inl e)
    then obtain k1 k2 where "k_free pb k = Some k1" "k_free rvn k1 = Some k2" "k_free wvn k2 = Some k'"
      using c Pair by (auto simp: pipe_files_def bind_eq_Some_conv)
    then have "keeps_fds k k'" using keeps_heap(2) keeps_trans by meson
    then show ?thesis using inv keeps_inv by (simp add: fd_inv_def)
  next
    case (Inr ri)
    define k1 where "k1 = k\<lparr>k_oft := t\<rparr>"
    have i1: "fd_inv_plus [ri] k1"
      unfolding k1_def by (rule fd_acquire) (use inv Pair Inr in \<open>simp_all add: fd_inv_def\<close>)
    show ?thesis
    proof (cases "oft_alloc (Heap_Vnode wvn) O_WRONLY 0x180 (k_oft k1)")
      case (Pair ew u)
      note c2 = c \<open>oft_alloc (Heap_Vnode rvn) O_RDONLY 0x180 (k_oft k) = (ei, t)\<close> Inr Pair
      show ?thesis
      proof (cases ew)
        case (Inl e)
        then obtain k2 k3 where d: "oft_decref ri k1 = Some k2" and f: "k_free pb k2 = Some k3" "k_free wvn k3 = Some k'"
          using c2 by (auto simp: pipe_files_def bind_eq_Some_conv k1_def Let_def)
        have "keeps_fds k2 k'" using f keeps_heap(2) keeps_trans by meson
        then show ?thesis using keeps_inv fd_release [OF i1 d] by (simp add: fd_inv_def)
      next
        case w: (Inr wi)
        have "fd_inv_plus [wi, ri] (k1\<lparr>k_oft := u\<rparr>)" by (rule fd_acquire [OF i1]) (use Pair w in simp)
        then have "fd_inv_plus [ri, wi] (k1\<lparr>k_oft := u\<rparr>)" by (rule fd_inv_plus_perm) simp
        then show ?thesis
          by (rule pipe_install_inv) (use c2 w in \<open>simp add: pipe_files_def k1_def Let_def\<close>)
      qed
    qed
  qed
qed

lemma sys_pipe_inv:
  assumes inv: "fd_inv k" and c: "sys_pipe a k = Some (r, k')"
  shows "fd_inv k'"
proof (cases "keeps_fds k k'")
  case False
  then have "a \<noteq> 0" using c by (auto simp: sys_pipe_def)
  then obtain pb k1 where k1: "k_malloc PIPE_STRUCT_SIZE k = Some (pb, k1)"
    using c by (auto simp: sys_pipe_def bind_eq_Some_conv)
  note s1 = keeps_heap(1) [OF k1]
  have pb: "pb \<noteq> 0" using False s1 c k1 \<open>a \<noteq> 0\<close> by (auto simp: sys_pipe_def)
  define k2 where "k2 = set_pipe pb pipe_buf_new k1"
  have s2: "keeps_fds k k2" unfolding k2_def by (rule keeps_trans [OF s1 keeps_simple(5)])
  obtain rvn k3 where k3: "k_malloc VNODE_SIZE k2 = Some (rvn, k3)"
    using c \<open>a \<noteq> 0\<close> k1 pb by (auto simp: sys_pipe_def bind_eq_Some_conv k2_def Let_def)
  note s3 = keeps_trans [OF s2 keeps_heap(1) [OF k3]]
  have rvn: "rvn \<noteq> 0"
  proof
    assume "rvn = 0"
    then have "k_free pb k3 = Some k'"
      using c \<open>a \<noteq> 0\<close> k1 pb k3 by (auto simp: sys_pipe_def bind_eq_Some_conv k2_def Let_def)
    then show False using False keeps_trans [OF s3 keeps_heap(2)] by blast
  qed
  define k4 where "k4 = set_vnode (Heap_Vnode rvn) (pipe_vnode PIPE_READ_OPS pb) k3"
  have s4: "keeps_fds k k4" unfolding k4_def by (rule keeps_trans [OF s3 keeps_simple(4)])
  obtain wvn k5 where k5: "k_malloc VNODE_SIZE k4 = Some (wvn, k5)"
    using c \<open>a \<noteq> 0\<close> k1 pb k3 rvn by (auto simp: sys_pipe_def bind_eq_Some_conv k2_def k4_def Let_def)
  note s5 = keeps_trans [OF s4 keeps_heap(1) [OF k5]]
  note c5 = c \<open>a \<noteq> 0\<close> k1 pb k3 rvn k5
  have wvn: "wvn \<noteq> 0"
  proof
    assume "wvn = 0"
    then obtain k6 where "k_free pb k5 = Some k6" "k_free rvn k6 = Some k'"
      using c5 by (auto simp: sys_pipe_def bind_eq_Some_conv k2_def k4_def Let_def)
    then show False using False keeps_trans [OF keeps_trans [OF s5 keeps_heap(2)] keeps_heap(2)] by blast
  qed
  let ?k = "set_vnode (Heap_Vnode wvn) (pipe_vnode PIPE_WRITE_OPS pb) k5"
  have "fd_inv ?k"
    using keeps_inv [OF keeps_trans [OF s5 keeps_simple(4)]] inv by (simp add: fd_inv_def)
  moreover have "pipe_files a pb rvn wvn ?k = Some (r, k')"
    using c5 wvn by (simp add: sys_pipe_def k2_def k4_def Let_def)
  ultimately show ?thesis by (rule pipe_files_inv)
qed (use inv keeps_inv in \<open>simp add: fd_inv_def\<close>)

lemma bind_sum_Some:
  "(do { r \<leftarrow> m; case r of Inl e \<Rightarrow> f e | Inr y \<Rightarrow> g y }) = Some x \<longleftrightarrow>
     (\<exists>e. m = Some (Inl e) \<and> f e = Some x) \<or> (\<exists>y. m = Some (Inr y) \<and> g y = Some x)"
  by (cases m) (auto split: sum.splits)

lemma read_calls_inv:
  assumes inv: "fd_inv k" and "sys_read fd buf n k = Some (r, k') \<or> sys_read_vfs fd buf n k = Some (r, k')"
  shows "fd_inv k'"
proof -
  have "k' = k \<or> (\<exists>v m l off n off' i k1. vn_read v m l off k = Some (n, off', k1) \<and>
      k' = k1\<lparr>k_oft := oft_set_offset i off' (k_oft k1)\<rparr>)"
    using assms(2) unfolding sys_read_def sys_read_vfs_def bind_sum_Some
    by (auto simp: bind_eq_Some_conv split: if_splits sum.splits) blast+
  then show ?thesis
    using inv keeps_inv [OF keeps_vn_read] oft_set_offset_inv unfolding fd_inv_def by blast
qed

lemma write_calls_inv:
  assumes inv: "fd_inv k" and "sys_write fd buf n k = Some (r, k') \<or> sys_write_vfs fd buf n k = Some (r, k')"
  shows "fd_inv k'"
proof -
  have "k' = k \<or> (\<exists>v m l n. vn_write v m l k = Some (n, k'))"
    using assms(2) unfolding sys_write_def sys_write_vfs_def bind_sum_Some
    by (auto simp: bind_eq_Some_conv split: if_splits sum.splits)
  then show ?thesis using inv keeps_inv [OF keeps_vn_write] unfolding fd_inv_def by blast
qed

lemma sys_lseek_inv: "fd_inv k \<Longrightarrow> sys_lseek fd off w k = Some (r, k') \<Longrightarrow> fd_inv k'"
  unfolding sys_lseek_def bind_sum_Some
  by (auto simp: Let_def fd_inv_def split: if_splits intro: oft_set_offset_inv)

end
