(* ===== verification/Syscall.thy ===== *)
theory Syscall imports Process begin

text \<open>System calls (\<open>syscall.rs\<close>): the handlers that are not in another component, the
  dispatch table and \<open>syscall_handler\<close>, and the whole path of a call through
  \<open>syscall_entry.asm\<close>.\<close>

definition MAX_SYSCALLS :: nat where "MAX_SYSCALLS = 64"
definition MAP_FIXED :: u64 where "MAP_FIXED = 0x10"
definition MAP_ANONYMOUS :: u64 where "MAP_ANONYMOUS = 0x20"
definition MAP_FAILED :: u64 where "MAP_FAILED = - 1"

definition digit :: "u64 \<Rightarrow> u8" where
  "digit n = 0x30 + ucast n"

text \<open>The number format of the exit message: at most two digits.\<close>
definition exit_message :: "u64 \<Rightarrow> u64 \<Rightarrow> u8 list" where
  "exit_message p c =
     bytes ''VIBIX: PID '' @ (if p \<ge> 10 then [digit (p div 10)] else []) @ [digit (p mod 10)] @
     bytes '' exited with code '' @ (if c \<ge> 10 then [digit ((c div 10) mod 10)] else []) @ [digit (c mod 10)] @
     [0x0A]"

definition sys_exit :: "u64 \<Rightarrow> kernel \<Rightarrow> (u64 \<times> kernel) option" where
  "sys_exit code k = do {
     k \<leftarrow> mark_zombie (k_cur k) code (serial_write (exit_message (k_cur k) code) k);
     Some (0, set_schedule k) }"

definition sys_getpid :: "kernel \<Rightarrow> (u64 \<times> kernel) option" where
  "sys_getpid k = Some (k_cur k, k)"

text \<open>The waiting loop: \<open>ticks n\<close> is the tick counter at its \<open>n\<close>-th read.\<close>
partial_function (option) sleep_loop :: "(nat \<Rightarrow> u64) \<Rightarrow> u64 \<Rightarrow> u64 \<Rightarrow> nat \<Rightarrow> u64 option" where
  "sleep_loop ticks start total_ticks n =
     (if ticks n - start \<ge> total_ticks then Some 0 else sleep_loop ticks start total_ticks (n + 1))"

definition sys_nanosleep :: "(nat \<Rightarrow> u64) \<Rightarrow> u64 \<Rightarrow> u64 \<Rightarrow> kernel \<Rightarrow> (u64 \<times> kernel) option" where
  "sys_nanosleep ticks sec nsec k =
     (if nsec \<ge> 1000000000 then Some (- 1, k)
      else map_option (\<lambda>r. (r, k)) (sleep_loop ticks (ticks 0) (sec * 100 + nsec div 10000000) 1))"

definition uname_fields :: "(u64 \<times> u8 list) list" where
  "uname_fields = [(0, bytes ''VIBIX'' @ [0]), (65, bytes ''vibix'' @ [0]), (130, bytes ''0.1.0'' @ [0]),
     (195, bytes ''#1 PREEMPT Tue Jun 23 2026'' @ [0]), (260, bytes ''x86_64'' @ [0]),
     (325, bytes ''VIBIX'' @ [0])]"

fun store_fields :: "u64 \<Rightarrow> (u64 \<times> u8 list) list \<Rightarrow> kernel \<Rightarrow> kernel option" where
  "store_fields buf [] k = Some k"
| "store_fields buf ((off, bs) # fs) k = do { k \<leftarrow> user_store (buf + off) bs k; store_fields buf fs k }"

definition sys_uname :: "u64 \<Rightarrow> kernel \<Rightarrow> (u64 \<times> kernel) option" where
  "sys_uname buf k = do { k \<leftarrow> store_fields buf uname_fields k; Some (0, k) }"

text \<open>The write to the power management port has no effect on the modelled state.\<close>
definition sys_reboot :: "u64 \<Rightarrow> u64 \<Rightarrow> u64 \<Rightarrow> kernel \<Rightarrow> (u64 \<times> kernel) option" where
  "sys_reboot magic magic2 cmd k =
     (if magic \<noteq> 0xfee1dead \<or> magic2 \<noteq> 0x28121969 then Some (- 1, k)
      else if cmd = 0xcdef0123 \<or> cmd = 0x4321fedc then Some (0, k) else Some (- 1, k))"

subsection \<open>brk and mmap\<close>

definition set_errno :: "int \<Rightarrow> kernel \<Rightarrow> kernel" where
  "set_errno e k = set_process (k_cur k) (\<lambda>p. p\<lparr>p_errno := e\<rparr>) k"

text \<open>The loop that \<open>brk\<close> and \<open>mmap\<close> share: zeroed pages from \<open>vaddr\<close> up to \<open>e\<close>; the result says
  whether every page could be allocated.\<close>
partial_function (option) map_zeroed :: "u64 \<Rightarrow> u64 \<Rightarrow> kernel \<Rightarrow> (bool \<times> kernel) option" where
  "map_zeroed vaddr e k =
     (if vaddr < e then
        (let (phys, k) = page_alloc k in
         if phys = 0 then Some (False, k)
         else do {
           k \<leftarrow> map_4k vaddr phys PAGE_USER_RW (zero_table phys k);
           map_zeroed (vaddr + 4096) e k })
      else Some (True, k))"

definition page_up :: "u64 \<Rightarrow> u64" where
  "page_up a = (a + 0xFFF) AND NOT 0xFFF"

definition sys_brk :: "u64 \<Rightarrow> kernel \<Rightarrow> (u64 \<times> kernel) option" where
  "sys_brk addr k = do {
     proc \<leftarrow> process_mut (k_cur k) k;
     if addr = 0 then Some (p_brk proc, k)
     else if addr < BRK_START \<or> addr > BRK_MAX then Some (- 1, set_errno 38 k)
     else do {
       (ok, k) \<leftarrow> map_zeroed (page_up (p_brk proc)) (page_up addr) k;
       Some (if ok then (addr, set_process (k_cur k) (\<lambda>p. p\<lparr>p_brk := addr\<rparr>) k)
             else (- 1, set_errno 38 k)) } }"

definition sys_mmap :: "u64 \<Rightarrow> u64 \<Rightarrow> u64 \<Rightarrow> kernel \<Rightarrow> (u64 \<times> kernel) option" where
  "sys_mmap addr len flags k = do {
     proc \<leftarrow> process_mut (k_cur k) k;
     if len = 0 then Some (MAP_FAILED, set_errno 22 k)
     else if flags AND MAP_ANONYMOUS = 0 then Some (MAP_FAILED, set_errno 38 k)
     else if flags AND MAP_FIXED \<noteq> 0 \<and> addr AND 0xFFF \<noteq> 0 then Some (MAP_FAILED, set_errno 22 k)
     else do {
       let n = page_up len;
       let (base, k) = (if flags AND MAP_FIXED \<noteq> 0 then (addr, k)
         else (p_brk proc, set_process (k_cur k) (\<lambda>p. p\<lparr>p_brk := p_brk p + n\<rparr>) k));
       (ok, k) \<leftarrow> map_zeroed base (base + n) k;
       Some (if ok then (base, k) else (MAP_FAILED, set_errno 12 k)) } }"

subsection \<open>Dispatch\<close>

text \<open>The function pointers of the dispatch table.\<close>
datatype handler = H_exit | H_write | H_read | H_getpid | H_brk | H_nanosleep | H_uname | H_reboot
  | H_fork | H_exec | H_waitpid | H_mmap | H_dup | H_dup2 | H_pipe | H_kill | H_sigaction | H_sigreturn
  | H_open | H_close | H_read_vfs | H_write_vfs | H_lseek | H_getdents | H_stat | H_fstat | H_chdir
  | H_isatty | H_tcgetattr | H_tcsetattr | H_getcwd

type_synonym syscall_table = "handler option list"

definition register :: "nat \<Rightarrow> handler \<Rightarrow> syscall_table \<Rightarrow> bool \<times> syscall_table" where
  "register num h t = (if num \<ge> MAX_SYSCALLS then (False, t) else (True, t[num := Some h]))"

definition register_all :: "(nat \<times> handler) list \<Rightarrow> syscall_table \<Rightarrow> syscall_table" where
  "register_all hs t = fold (\<lambda>(n, h) t. snd (register n h t)) hs t"

definition syscall_init :: "syscall_table \<Rightarrow> syscall_table" where
  "syscall_init = register_all
     [(0, H_exit), (1, H_write), (2, H_read), (3, H_getpid), (4, H_brk), (5, H_nanosleep), (6, H_uname),
      (7, H_reboot), (8, H_fork), (9, H_exec), (10, H_waitpid), (11, H_mmap), (18, H_dup), (19, H_dup2),
      (20, H_pipe), (28, H_kill), (29, H_sigaction), (30, H_sigreturn)]"

definition vfs_register :: "syscall_table \<Rightarrow> syscall_table" where
  "vfs_register = register_all
     [(12, H_open), (13, H_close), (14, H_read_vfs), (15, H_write_vfs), (16, H_lseek), (17, H_getdents),
      (21, H_stat), (22, H_fstat), (23, H_chdir), (24, H_isatty), (25, H_tcgetattr), (26, H_tcsetattr),
      (27, H_getcwd)]"

fun run_handler :: "(nat \<Rightarrow> u64) \<Rightarrow> handler \<Rightarrow> u64 \<Rightarrow> u64 \<Rightarrow> u64 \<Rightarrow> u64 \<Rightarrow> kernel \<Rightarrow> (u64 \<times> kernel) option" where
  "run_handler ticks H_exit a b c d k = sys_exit a k"
| "run_handler ticks H_write a b c d k = sys_write a b c k"
| "run_handler ticks H_read a b c d k = sys_read a b c k"
| "run_handler ticks H_getpid a b c d k = sys_getpid k"
| "run_handler ticks H_brk a b c d k = sys_brk a k"
| "run_handler ticks H_nanosleep a b c d k = sys_nanosleep ticks a b k"
| "run_handler ticks H_uname a b c d k = sys_uname a k"
| "run_handler ticks H_reboot a b c d k = sys_reboot a b c k"
| "run_handler ticks H_fork a b c d k = sys_fork k"
| "run_handler ticks H_exec a b c d k = sys_exec a k"
| "run_handler ticks H_waitpid a b c d k = sys_waitpid a b c k"
| "run_handler ticks H_mmap a b c d k = sys_mmap a b d k"
| "run_handler ticks H_dup a b c d k = sys_dup a k"
| "run_handler ticks H_dup2 a b c d k = sys_dup2 a b k"
| "run_handler ticks H_pipe a b c d k = sys_pipe a k"
| "run_handler ticks H_kill a b c d k = sys_kill a b k"
| "run_handler ticks H_sigaction a b c d k = sys_sigaction a b c k"
| "run_handler ticks H_sigreturn a b c d k = sys_sigreturn k"
| "run_handler ticks H_open a b c d k = sys_open a b c k"
| "run_handler ticks H_close a b c d k = sys_close a k"
| "run_handler ticks H_read_vfs a b c d k = sys_read_vfs a b c k"
| "run_handler ticks H_write_vfs a b c d k = sys_write_vfs a b c k"
| "run_handler ticks H_lseek a b c d k = sys_lseek a b c k"
| "run_handler ticks H_getdents a b c d k = sys_getdents a b c k"
| "run_handler ticks H_stat a b c d k = sys_stat a b k"
| "run_handler ticks H_fstat a b c d k = sys_fstat a b k"
| "run_handler ticks H_chdir a b c d k = sys_chdir a k"
| "run_handler ticks H_isatty a b c d k = sys_isatty a k"
| "run_handler ticks H_tcgetattr a b c d k = sys_tcgetattr a b k"
| "run_handler ticks H_tcsetattr a b c d k = sys_tcsetattr a b k"
| "run_handler ticks H_getcwd a b c d k = sys_getcwd a b k"

definition syscall_handler :: "(nat \<Rightarrow> u64) \<Rightarrow> syscall_table \<Rightarrow> u64 \<Rightarrow> u64 \<Rightarrow> u64 \<Rightarrow> u64 \<Rightarrow> u64 \<Rightarrow> kernel \<Rightarrow> (u64 \<times> kernel) option" where
  "syscall_handler ticks table num a b c d k = do {
     (r, k) \<leftarrow> check_signals_syscall (k_cur k) k;
     if r \<noteq> SigNone then Some (0, set_schedule k)
     else if unat num < MAX_SYSCALLS then
       (case table ! unat num of
          Some h \<Rightarrow> run_handler ticks h a b c d k
        | None \<Rightarrow> Some (- 1, k))
     else Some (- 1, k) }"

text \<open>How a call leaves the kernel: by \<open>sysretq\<close> with RAX, RIP, RSP and RFLAGS, or by
  \<open>iretq\<close> through the register frame at an address.\<close>
datatype exit_path = Sysret u64 u64 u64 u64 | Iret u64

definition syscall_entry :: "(nat \<Rightarrow> u64) \<Rightarrow> syscall_table \<Rightarrow> u64 \<Rightarrow> u64 \<Rightarrow> u64 \<Rightarrow> u64 \<times> u64 \<times> u64 \<times> u64 \<times> u64 \<Rightarrow> kernel
    \<Rightarrow> (exit_path \<times> kernel) option" where
  "syscall_entry ticks table rsp rip rflags args k =
     (let (num, a, b, c, d) = args; kstack = k_syscall_kstack k in do {
        (rax, k) \<leftarrow> syscall_handler ticks table num a b c d
                     (k\<lparr>k_sys_rsp := rsp, k_sys_rip := rip, k_sys_rflags := rflags\<rparr>);
        if k_should_schedule k then do {
          let (krsp, k) = exit_or_block rax kstack k;
          (krsp, k) \<leftarrow> scheduler_switch_exit krsp k;
          Some (Iret krsp, k) }
        else Some (Sysret rax (k_sys_rip k) (k_sys_rsp k) (k_sys_rflags k), k) })"

end
