(* ===== verification/User_Memory.thy ===== *)
theory User_Memory imports Kernel_State begin

text \<open>Memory accesses through the page tables: when a run of addresses is mapped injectively
  to bytes that no table of the walk lies in, a stored run reads back.  The flat address
  space of the examples is an instance.\<close>

definition maps_run :: "mem \<Rightarrow> u64 \<Rightarrow> u64 \<Rightarrow> nat \<Rightarrow> (nat \<Rightarrow> u64) \<Rightarrow> bool" where
  "maps_run m cr3 a n f \<longleftrightarrow> inj_on f {..<n} \<and>
     (\<forall>m' i. i < n \<longrightarrow> (\<forall>x. x \<notin> f ` {..<n} \<longrightarrow> m' x = m x) \<longrightarrow>
        translate_in_pml4 m' (a + of_nat i) cr3 = Some (f i))"

lemma maps_runD:
  "maps_run m cr3 a n f \<Longrightarrow> i < n \<Longrightarrow> (\<And>x. x \<notin> f ` {..<n} \<Longrightarrow> m' x = m x) \<Longrightarrow>
   translate_in_pml4 m' (a + of_nat i) cr3 = Some (f i)"
  unfolding maps_run_def by blast

lemma load_virt_run:
  "(\<And>i. i < n \<Longrightarrow> translate_in_pml4 m (a + of_nat i) cr3 = Some (f i)) \<Longrightarrow>
   load_virt m cr3 a n = Some (map (\<lambda>i. m (f i)) [0..<n])"
proof (induction n arbitrary: a f)
  case (Suc n)
  have "load_virt m cr3 (a + 1) n = Some (map (\<lambda>i. m (f (Suc i))) [0..<n])"
    by (rule Suc.IH) (use Suc.prems [of "Suc _"] in \<open>simp add: add.assoc\<close>)
  then show ?case using Suc.prems [of 0] by (simp add: upt_conv_Cons map_Suc_upt [symmetric] del: upt_Suc)
qed simp

lemma store_virt_run:
  assumes "\<And>m' i. i < length bs \<Longrightarrow> (\<And>x. x \<notin> f ` {..<length bs} \<Longrightarrow> m' x = m x) \<Longrightarrow>
      translate_in_pml4 m' (a + of_nat i) cr3 = Some (f i)"
    and "inj_on f {..<length bs}"
  shows "\<exists>m'. store_virt cr3 a bs m = Some m' \<and> (\<forall>i < length bs. m' (f i) = bs ! i) \<and>
     (\<forall>x. x \<notin> f ` {..<length bs} \<longrightarrow> m' x = m x)"
  using assms
proof (induction bs arbitrary: a f m)
  case (Cons b bs)
  let ?n = "length bs" and ?g = "\<lambda>i. f (Suc i)" and ?m = "m(f 0 := b)"
  have t0: "translate_in_pml4 m a cr3 = Some (f 0)" using Cons.prems(1) [of 0 m] by simp
  have img: "f ` {..<Suc ?n} = insert (f 0) (?g ` {..<?n})"
    by (auto simp: image_iff less_Suc_eq_0_disj)
  have inj: "inj_on ?g {..<?n}" using Cons.prems(2) by (auto simp: inj_on_def)
  have tr: "translate_in_pml4 m' (a + 1 + of_nat i) cr3 = Some (?g i)"
    if i: "i < ?n" and m': "\<And>x. x \<notin> ?g ` {..<?n} \<Longrightarrow> m' x = ?m x" for m' i
  proof -
    have "m' x = m x" if "x \<notin> f ` {..<Suc ?n}" for x
      using that m' [of x] unfolding img by auto
    then show ?thesis using Cons.prems(1) [of "Suc i" m'] i by (simp add: add.assoc)
  qed
  obtain m' where m': "store_virt cr3 (a + 1) bs ?m = Some m'" "\<forall>i < ?n. m' (?g i) = bs ! i"
    "\<forall>x. x \<notin> ?g ` {..<?n} \<longrightarrow> m' x = ?m x"
    using Cons.IH [of ?g ?m "a + 1", OF tr inj] by blast
  have "f 0 \<notin> ?g ` {..<?n}" using Cons.prems(2) by (auto simp: inj_on_def)
  then have "m' (f 0) = b" using m'(3) by simp
  then have "\<forall>i < length (b # bs). m' (f i) = (b # bs) ! i"
    using m'(2) by (simp add: less_Suc_eq_0_disj all_conj_distrib) (metis nth_Cons_Suc)
  moreover have "\<forall>x. x \<notin> f ` {..<length (b # bs)} \<longrightarrow> m' x = m x"
    using m'(3) img by auto
  ultimately show ?case using m'(1) t0 by auto
qed simp

lemma user_store_load:
  assumes "maps_run (k_mem k) (k_cr3 k) a (length bs) f"
  shows "\<exists>m. user_store a bs k = Some (k\<lparr>k_mem := m\<rparr>) \<and> load_virt m (k_cr3 k) a (length bs) = Some bs \<and>
     (\<forall>x. x \<notin> f ` {..<length bs} \<longrightarrow> m x = k_mem k x)"
proof -
  have inj: "inj_on f {..<length bs}" using assms by (simp add: maps_run_def)
  obtain m' where m': "store_virt (k_cr3 k) a bs (k_mem k) = Some m'" "\<forall>i < length bs. m' (f i) = bs ! i"
    "\<forall>x. x \<notin> f ` {..<length bs} \<longrightarrow> m' x = k_mem k x"
    using store_virt_run [of bs f "k_mem k" a "k_cr3 k", OF maps_runD [OF assms] inj] by blast
  have "load_virt m' (k_cr3 k) a (length bs) = Some (map (\<lambda>i. m' (f i)) [0..<length bs])"
    by (rule load_virt_run) (use maps_runD [OF assms] m'(3) in blast)
  moreover have "map (\<lambda>i. m' (f i)) [0..<length bs] = bs"
    using m'(2) by (intro nth_equalityI) simp_all
  ultimately show ?thesis
    using m' by (intro exI [of _ m']) (simp add: user_store_def)
qed

subsection \<open>The flat address space\<close>

definition is_flat :: "mem \<Rightarrow> bool" where
  "is_flat m \<longleftrightarrow> (\<forall>a. 0x1000 \<le> a \<and> a < 0x2000 \<longrightarrow> m a = flat_mem a)"

lemma flat_byte:
  assumes "is_flat m" "i < 512" "j < 8"
  shows "m (0x1000 + 8 * of_nat i + of_nat j) = (if j = 0 then 0x83 else if j = 1 then 0x10 else 0)"
proof -
  define n where "n = 0x1000 + 8 * i + j"
  have n: "(0x1000 + 8 * of_nat i + of_nat j :: u64) = of_nat n" by (simp add: n_def)
  have lt: "n < 0x2000" "0x1000 \<le> n" using assms(2,3) by (simp_all add: n_def)
  then have u: "unat (of_nat n :: u64) = n" by simp
  have "(of_nat n :: u64) AND 7 = of_nat (n mod 8)"
    unfolding mask_3_64 take_bit_eq_mask [symmetric] by (subst take_bit_of_nat) (simp add: take_bit_nat_def)
  also have "n mod 8 = j"
  proof -
    have "n = 8 * (0x200 + i) + j" by (simp add: n_def)
    then show ?thesis using assms(3) by (metis mod_less mod_mult_self4)
  qed
  finally have "(of_nat n :: u64) AND 7 = of_nat j" .
  moreover have "(of_nat j :: u64) = 0 \<longleftrightarrow> j = 0" "(of_nat j :: u64) = 1 \<longleftrightarrow> j = 1"
    using assms(3) of_nat_word_inj64 [of j 0] of_nat_word_inj64 [of j 1] by simp_all
  moreover have "0x1000 \<le> (of_nat n :: u64)" "(of_nat n :: u64) < 0x2000"
    using lt u by (simp_all add: word_le_nat_alt word_less_nat_alt)
  ultimately show ?thesis
    using assms(1) unfolding n is_flat_def by (simp add: flat_mem_def)
qed

lemma flat_entry:
  assumes "is_flat m" "i < 512"
  shows "get_entry m 0x1000 i = 0x1083"
proof -
  have "read_bytes m (0x1000 + 8 * of_nat i) 8 = map (\<lambda>j. if j = 0 then 0x83 else if j = 1 then 0x10 else 0) [0..<8]"
    using flat_byte [OF assms] by (intro nth_equalityI) (simp_all add: read_bytes_nth)
  also have "\<dots> = [0x83, 0x10, 0, 0, 0, 0, 0, 0]" by (simp add: upt_conv_Cons)
  finally have "read_bytes m (0x1000 + 8 * of_nat i) 8 = [0x83, 0x10, 0, 0, 0, 0, 0, 0]" .
  then have "get_entry m 0x1000 i = of_le [0x83, 0x10, 0, 0, 0, 0, 0, 0]"
    unfolding get_entry_def slot_addr_def load64_def by (rule arg_cong)
  also have "\<dots> = 0x1083" by simp
  finally show ?thesis .
qed

lemma flat_translate:
  assumes "is_flat m"
  shows "translate_in_pml4 m a 0x1000 = Some (0x1000 OR (a AND 0x1FFFFF))"
proof -
  have b: "unat (x AND 0x1FF) < 512" for x :: u64
  proof -
    have "x AND 0x1FF \<le> 0x1FF" by (rule word_and_le1)
    then show ?thesis by (simp add: word_le_nat_alt)
  qed
  show ?thesis
    by (simp add: translate_in_pml4_def indices_def flat_entry [OF assms b] present_def huge_def frame_def
      PAGE_PRESENT_def PAGE_HUGE_def ADDR_MASK_def)
qed

text \<open>The page at \<open>0x101000\<close> is mapped to itself.\<close>

lemma flat_identity:
  assumes "j < 0x1000"
  shows "0x1000 OR ((0x101000 + of_nat j) AND 0x1FFFFF) = (0x101000 + of_nat j :: u64)"
proof -
  define x :: u64 where "x = 0x101000 + of_nat j"
  have u: "unat x = 0x101000 + j"
    using assms unat_of_nat64 [of "0x101000 + j"] by (simp add: x_def)
  have "x AND 0x1FFFFF = take_bit 21 x" by (simp add: take_bit_eq_mask mask_eq_exp_minus_1)
  also have "\<dots> = x"
    using u assms by (simp add: word_unat_eq_iff unsigned_take_bit_eq take_bit_nat_eq_self)
  finally have 1: "x AND 0x1FFFFF = x" .
  have "(0x101000 + j) div 0x1000 = 0x101" by (rule div_nat_eqI) (use assms in simp_all)
  then have "bit x 12"
    using u by (simp add: bit_iff_odd_drop_bit word_arith_nat_defs drop_bit_eq_div unat_div odd_iff_mod_2_eq_one)
  moreover have "n = 12" if "bit (0x1000 :: u64) n" for n
  proof -
    have "(0x1000 :: u64) = 2 ^ 12" by simp
    then show ?thesis using that by (simp only: bit_exp_iff)
  qed
  ultimately have "0x1000 OR x = x" by (intro bit_eqI) (auto simp: bit_or_iff)
  then show ?thesis using 1 unfolding x_def by simp
qed

lemma flat_run:
  assumes "is_flat m" "unat a = 0x101000 + j" "j + n \<le> 0x1000"
  shows "maps_run m 0x1000 a n (\<lambda>i. a + of_nat i)"
proof -
  have a: "a = 0x101000 + of_nat j" 
  proof -
    have "a = of_nat (unat a)" by simp
    then show ?thesis unfolding assms(2) by simp
  qed
  have ai: "a + of_nat i = 0x101000 + of_nat (j + i)" for i by (simp add: a add.assoc)
  have un: "unat (a + of_nat i) = 0x101000 + (j + i)" if "i < n" for i
    unfolding ai using that assms(3) unat_of_nat64 [of "0x101000 + (j + i)"] by simp
  have "inj_on (\<lambda>i. a + of_nat i) {..<n}"
    using un by (intro inj_onI) (metis add_left_cancel lessThan_iff)
  moreover have "translate_in_pml4 m' (a + of_nat i) 0x1000 = Some (a + of_nat i)"
    if i: "i < n" and m': "\<And>x. x \<notin> (\<lambda>i. a + of_nat i) ` {..<n} \<Longrightarrow> m' x = m x" for m' i
  proof -
    have "m' x = flat_mem x" if "0x1000 \<le> x" "x < 0x2000" for x
    proof -
      have "x \<noteq> a + of_nat l" if "l < n" for l
        using \<open>x < 0x2000\<close> un [OF that] by (auto simp: word_less_nat_alt)
      then show ?thesis using m' [of x] assms(1) that by (auto simp: is_flat_def)
    qed
    then have "is_flat m'" by (simp add: is_flat_def)
    then show ?thesis
      using flat_translate [of m' "a + of_nat i"] flat_identity [of "j + i"] i assms(3) by (simp add: ai)
  qed
  ultimately show ?thesis unfolding maps_run_def by blast
qed

lemma is_flat_flat_mem [simp]: "is_flat flat_mem"
  by (simp add: is_flat_def)

lemma store64_below:
  assumes "x < a" "unat a + 8 \<le> 2 ^ 64"
  shows "store64 a v m x = m x"
  unfolding store64_def
proof (rule write_bytes_other, intro allI impI)
  fix i assume "i < length (le_bytes 8 v)"
  then have "unat (a + of_nat i) = unat a + i" using assms(2) by (subst unat_add64) simp_all
  then show "x \<noteq> a + of_nat i" using assms(1) by (auto simp: word_less_nat_alt)
qed

lemma is_flat_store64: "is_flat m \<Longrightarrow> 0x2000 \<le> a \<Longrightarrow> unat a + 8 \<le> 2 ^ 64 \<Longrightarrow> is_flat (store64 a v m)"
  by (auto simp: is_flat_def store64_below)

text \<open>Two flat memories that agree on the example page load the same.\<close>

lemma load_virt_flat:
  assumes "is_flat m" "unat a = 0x101000 + j" "j + n \<le> 0x1000"
  shows "load_virt m 0x1000 a n = Some (map (\<lambda>i. m (a + of_nat i)) [0..<n])"
  by (rule load_virt_run) (use maps_runD [OF flat_run [OF assms]] in blast)

subsection \<open>Example states\<close>

lemma kernel0_simps [simp]:
  "k_slots (kernel0 ps) = slots_of ps" "k_mem (kernel0 ps) = flat_mem" "k_cr3 (kernel0 ps) = 0x1000"
  "k_cur (kernel0 ps) = 1" "k_oft (kernel0 ps) = oft_new"
  by (simp_all add: kernel0_def)

lemma kernel0_inv:
  assumes "length ps \<le> MAX_PROCS" "distinct (map p_pid ps)" "0 \<notin> p_pid ` set ps"
  shows "slots_inv (k_slots (kernel0 ps))"
  using slots_inv_slots_of [OF assms] by simp

lemma kernel0_process:
  assumes "length ps \<le> MAX_PROCS" "distinct (map p_pid ps)" "0 \<notin> p_pid ` set ps" "p \<in> set ps"
  shows "process_mut (p_pid p) (kernel0 ps) = Some p"
  using process_mut_if_Some [OF kernel0_inv [OF assms(1-3)], of "p_pid p" p] assms(4)
  by (simp add: process_mut_def slots_of_def)

lemma blank_process_simps [simp]:
  "p_pid (blank_process q st) = q" "p_state (blank_process q st) = st" "p_sig_pending (blank_process q st) = 0"
  "p_sigactions (blank_process q st) = replicate 32 sig_action_default" "p_in_signal (blank_process q st) = False"
  "p_fds (blank_process q st) = replicate 16 (- 1)" "p_parent_pid (blank_process q st) = 0"
  "p_stack_low (blank_process q st) = 0" "p_brk (blank_process q st) = 0" "p_wait_for_pid (blank_process q st) = 0"
  "p_kernel_rsp (blank_process q st) = 0" "p_exit_code (blank_process q st) = 0" "p_sigframe_rsp (blank_process q st) = 0"
  by (simp_all add: blank_process_def)

end
