(* ===== verification/Signal_Props.thy ===== *)
theory Signal_Props imports Signal User_Memory begin

text \<open>Properties of signals: the effect of a process's end on the table, the outcome of the
  check on the system call path, the round trip of delivery and \<open>sigreturn\<close>, and that
  SIGKILL cannot be escaped.\<close>

subsection \<open>Processes under updates\<close>

lemma process_mut_set [proc_simps]:
  assumes "slots_inv (k_slots k)" "\<And>p. p_pid (f p) = p_pid p"
  shows "process_mut r (set_process q f k) = (if r = q then map_option f (process_mut q k) else process_mut r k)"
  using assms by (simp add: process_mut_def process_mut_if_upd)

lemma slots_inv_set [wf_intros]:
  "slots_inv (k_slots k) \<Longrightarrow> (\<And>p. p_pid (f p) = p_pid p) \<Longrightarrow> slots_inv (k_slots (set_process q f k))"
  by (simp add: slots_inv_upd)

lemma kstore_simps [simp]:
  "k_procs (kstore a v k) = k_procs k" "k_cur (kstore a v k) = k_cur k" "k_cr3 (kstore a v k) = k_cr3 k"
  "k_oft (kstore a v k) = k_oft k" "k_mem (kstore a v k) = store64 a v (k_mem k)"
  "process_mut q (kstore a v k) = process_mut q k"
  by (simp_all add: kstore_def process_mut_def)

lemma kload_kstore [simp]:
  "kload a (kstore a v k) = v"
  "aligned8 a \<Longrightarrow> aligned8 b \<Longrightarrow> a \<noteq> b \<Longrightarrow> kload b (kstore a v k) = kload b k"
  by (simp_all add: kload_def)

lemma kload_set_process [simp]: "kload a (set_process q f k) = kload a k"
  by (simp add: kload_def)

subsection \<open>The end of a process\<close>

text \<open>What \<open>mark_zombie\<close> does to each process: the process itself becomes a zombie, a parent
  that waits for it is woken, nothing else changes.\<close>
definition zombified :: "u64 \<Rightarrow> u64 \<Rightarrow> u64 \<Rightarrow> process \<Rightarrow> process" where
  "zombified pid code parent p =
     (if p_pid p = pid then p\<lparr>p_state := Zombie, p_exit_code := code\<rparr>
      else if p_pid p = parent \<and> p_state p = Blocked \<and> p_wait_for_pid p = pid
      then p\<lparr>p_state := Ready, p_wait_for_pid := 0\<rparr> else p)"

text \<open>The table after the first store of \<open>mark_zombie\<close>.\<close>
lemma mark_zombie_ended:
  assumes inv: "slots_inv (k_slots k)" and p: "process_mut pid k = Some p"
    and k1: "k1 = set_process pid (\<lambda>p. p\<lparr>p_state := Zombie, p_exit_code := code\<rparr>) k"
  shows "slots_inv (k_slots k1)" "k_cur k1 = k_cur k"
    "process_mut q k1 = (if q = pid then Some (p\<lparr>p_state := Zombie, p_exit_code := code\<rparr>) else process_mut q k)"
proof -
  show "slots_inv (k_slots k1)" "k_cur k1 = k_cur k" unfolding k1 by (rule slots_inv_set [OF inv]) simp_all
  show "process_mut q k1 = (if q = pid then Some (p\<lparr>p_state := Zombie, p_exit_code := code\<rparr>) else process_mut q k)"
    unfolding k1 by (subst process_mut_set [OF inv]) (simp_all add: p)
qed

lemma process_mut_pid: "process_mut r k = Some q \<Longrightarrow> p_pid q = r"
  using process_mut_if_pid by (simp add: process_mut_def)

text \<open>The two ends of \<open>mark_zombie\<close>: with a parent that waits, and without.\<close>
lemma mark_zombie_wakes:
  assumes inv: "slots_inv (k_slots k)" and p: "process_mut pid k = Some p"
    and q: "p_parent_pid p \<noteq> 0" "p_parent_pid p \<noteq> pid" "process_mut (p_parent_pid p) k = Some q"
      "p_state q = Blocked" "p_wait_for_pid q = pid"
  shows "\<exists>k'. mark_zombie pid code k = Some k' \<and> slots_inv (k_slots k') \<and> k_cur k' = k_cur k \<and>
     (\<forall>q. process_mut q k' = map_option (zombified pid code (p_parent_pid p)) (process_mut q k))"
proof -
  define k1 where "k1 = set_process pid (\<lambda>p. p\<lparr>p_state := Zombie, p_exit_code := code\<rparr>) k"
  define k2 where "k2 = (if p_kernel_rsp q \<noteq> 0 then kstore (p_kernel_rsp q) 0 k1 else k1)"
  define k3 where "k3 = set_process (p_parent_pid p) (\<lambda>p. p\<lparr>p_state := Ready, p_wait_for_pid := 0\<rparr>) k2"
  note e = mark_zombie_ended [OF inv p k1_def]
  have q1: "process_mut (p_parent_pid p) k1 = Some q" using e(3) q by simp
  have same: "k_procs k2 = k_procs k1" "k_cur k2 = k_cur k" using e(2) by (auto simp: k2_def)
  have "mark_zombie pid code k = Some k3"
    using p q q1 by (simp add: mark_zombie_def k3_def k2_def k1_def [symmetric] process_mut_def)
  moreover have "process_mut r k3 = map_option (zombified pid code (p_parent_pid p)) (process_mut r k)" for r
  proof -
    have r: "process_mut r k3 = (if r = p_parent_pid p then Some (q\<lparr>p_state := Ready, p_wait_for_pid := 0\<rparr>) else process_mut r k1)"
      unfolding k3_def using e(1) q1 same by (subst process_mut_set) (simp_all add: process_mut_def)
    show ?thesis
    proof (cases "process_mut r k")
      case (Some x)
      then show ?thesis using r e(3) [of r] q p process_mut_pid [OF Some]
        by (cases "r = pid"; cases "r = p_parent_pid p") (simp_all add: zombified_def)
    qed (use r e(3) [of r] q p in auto)
  qed
  moreover have "slots_inv (k_slots k3)" "k_cur k3 = k_cur k"
    unfolding k3_def using e(1) same by (simp_all add: slots_inv_upd)
  ultimately show ?thesis by blast
qed

lemma mark_zombie_alone:
  assumes inv: "slots_inv (k_slots k)" and p: "process_mut pid k = Some p"
    and none: "\<not> (\<exists>q. p_parent_pid p \<noteq> 0 \<and> p_parent_pid p \<noteq> pid \<and> process_mut (p_parent_pid p) k = Some q \<and>
      p_state q = Blocked \<and> p_wait_for_pid q = pid)"
  shows "\<exists>k'. mark_zombie pid code k = Some k' \<and> slots_inv (k_slots k') \<and> k_cur k' = k_cur k \<and>
     (\<forall>q. process_mut q k' = map_option (zombified pid code (p_parent_pid p)) (process_mut q k))"
proof -
  define k1 where "k1 = set_process pid (\<lambda>p. p\<lparr>p_state := Zombie, p_exit_code := code\<rparr>) k"
  note e = mark_zombie_ended [OF inv p k1_def]
  have n1: "\<not> (p_parent_pid p \<noteq> 0 \<and> process_mut (p_parent_pid p) k1 = Some q \<and> p_state q = Blocked \<and> p_wait_for_pid q = pid)" for q
    using none e(3) [of "p_parent_pid p"] by (auto split: if_splits)
  then have "mark_zombie pid code k = Some k1"
    using p unfolding mark_zombie_def k1_def [symmetric] process_mut_def
    by (cases "p_parent_pid p = 0"; cases "process_mut_if (p_parent_pid p) (k_slots k1)") (auto simp: k1_def [symmetric])
  moreover have "process_mut r k1 = map_option (zombified pid code (p_parent_pid p)) (process_mut r k)" for r
  proof (cases "process_mut r k")
    case (Some q)
    have "p_parent_pid p \<noteq> 0 \<or> r \<noteq> p_parent_pid p"
      using Some inv by (auto simp: process_mut_def slots_inv_def process_mut_if_None [symmetric])
    moreover have "p_parent_pid p = 0 \<or> r \<noteq> p_parent_pid p \<or> r = pid \<or> \<not> (p_state q = Blocked \<and> p_wait_for_pid q = pid)"
      using none Some by metis
    ultimately show ?thesis using Some e(3) [of r] process_mut_pid [OF Some] p
      by (cases "r = pid") (simp_all add: zombified_def, blast)
  qed (use e(3) [of r] p in auto)
  ultimately show ?thesis using e(1,2) by auto
qed

lemma mark_zombie_processes:
  assumes "slots_inv (k_slots k)" "process_mut pid k = Some p"
  shows "\<exists>k'. mark_zombie pid code k = Some k' \<and> slots_inv (k_slots k') \<and> k_cur k' = k_cur k \<and>
     (\<forall>q. process_mut q k' = map_option (zombified pid code (p_parent_pid p)) (process_mut q k))"
  using mark_zombie_wakes [OF assms] mark_zombie_alone [OF assms] by blast

lemma mark_zombie_self:
  assumes "slots_inv (k_slots k)" "process_mut pid k = Some p" "mark_zombie pid code k = Some k'"
  shows "slots_inv (k_slots k')" "process_mut pid k' = Some (p\<lparr>p_state := Zombie, p_exit_code := code\<rparr>)"
  using mark_zombie_processes [OF assms(1,2), of code] assms process_mut_if_pid [of pid "k_slots k" p]
  by (auto simp: zombified_def process_mut_def)

subsection \<open>Pending signals\<close>

lemma and_sig_bit: "sig < 64 \<Longrightarrow> (x :: u64) AND sig_bit sig \<noteq> 0 \<longleftrightarrow> bit x sig"
  by (simp add: sig_bit_def bit_iff_and_push_bit_not_eq_0)

lemma pending_bit: "sig < 64 \<Longrightarrow> pending sig p \<longleftrightarrow> bit (p_sig_pending p) sig"
  unfolding pending_def by (rule and_sig_bit)

lemma clear_sig_simps [simp]:
  "p_pid (clear_sig s p) = p_pid p" "p_sigactions (clear_sig s p) = p_sigactions p"
  "p_state (clear_sig s p) = p_state p" "p_in_signal (clear_sig s p) = p_in_signal p"
  "p_stack_low (clear_sig s p) = p_stack_low p" "handler_of t (clear_sig s p) = handler_of t p"
  "p_parent_pid (clear_sig s p) = p_parent_pid p" "p_sigframe_rsp (clear_sig s p) = p_sigframe_rsp p"
  by (simp_all add: clear_sig_def handler_of_def)

lemma bit_clear_sig:
  "t < 64 \<Longrightarrow> bit (p_sig_pending (clear_sig s p)) t \<longleftrightarrow> bit (p_sig_pending p) t \<and> t \<noteq> s"
  by (auto simp: clear_sig_def sig_bit_def bit_simps)

lemma pending_clear: "t < 64 \<Longrightarrow> pending t (clear_sig s p) \<longleftrightarrow> pending t p \<and> t \<noteq> s"
  by (simp add: pending_bit bit_clear_sig)

definition kills :: "process \<Rightarrow> nat \<Rightarrow> bool" where
  "kills p s \<longleftrightarrow> pending s p \<and> handler_of s p = SIG_DFL \<and> fatal s"

definition custom :: "process \<Rightarrow> nat \<Rightarrow> bool" where
  "custom p s \<longleftrightarrow> handler_of s p \<noteq> SIG_DFL \<and> handler_of s p \<noteq> SIG_IGN"

text \<open>The pending set after the scan of the signals \<open>sigs\<close>, when none of them kills.\<close>
definition after_scan :: "nat list \<Rightarrow> process \<Rightarrow> process \<Rightarrow> bool" where
  "after_scan sigs p p' \<longleftrightarrow> p' = p\<lparr>p_sig_pending := p_sig_pending p'\<rparr> \<and>
     (\<forall>t < 64. bit (p_sig_pending p') t \<longleftrightarrow> bit (p_sig_pending p) t \<and> (t \<in> set sigs \<longrightarrow> custom p t))"

lemma after_scan_step:
  assumes "s \<notin> set sigs" "s < 64" "after_scan sigs (clear_sig s p) p'" "\<not> custom p s"
  shows "after_scan (s # sigs) p p'"
proof -
  have e: "p' = p\<lparr>p_sig_pending := p_sig_pending p'\<rparr>"
    using assms(3) by (simp add: after_scan_def clear_sig_def)
  show ?thesis
    using assms by (subst after_scan_def, intro conjI e)
      (auto simp: after_scan_def bit_clear_sig custom_def)
qed

lemma after_scan_skip:
  assumes "after_scan sigs p p'" "s < 64" "\<not> pending s p \<or> custom p s"
  shows "after_scan (s # sigs) p p'"
  using assms by (auto simp: after_scan_def pending_bit)

text \<open>The outcome of the scan of \<open>sigs\<close> that started with the result \<open>r\<close>.\<close>
definition scan_post :: "nat list \<Rightarrow> process \<Rightarrow> signal_result \<Rightarrow> signal_result \<Rightarrow> process \<Rightarrow> bool" where
  "scan_post sigs p r r' p' \<longleftrightarrow>
     (case find (kills p) sigs of
        Some s \<Rightarrow> r' = Terminated \<and> p_state p' = Zombie \<and> p_exit_code p' = 128 + of_nat s
      | None \<Rightarrow> r' = (if \<exists>s \<in> set sigs. pending s p \<and> custom p s then CustomPending else r) \<and> after_scan sigs p p')"

lemma scan_post_skip:
  assumes "scan_post sigs p r r' p'" "\<not> pending s p" "s < 64"
  shows "scan_post (s # sigs) p r r' p'"
  using assms after_scan_skip [of sigs p p' s] by (cases "find (kills p) sigs") (simp_all add: scan_post_def kills_def)

lemma scan_post_custom:
  assumes "scan_post sigs p CustomPending r' p'" "pending s p" "custom p s" "s < 64"
  shows "scan_post (s # sigs) p r r' p'"
  using assms after_scan_skip [of sigs p p' s]
  by (cases "find (kills p) sigs") (simp_all add: scan_post_def kills_def custom_def)

lemma scan_post_drop:
  assumes "scan_post sigs (clear_sig s p) r r' p'" "\<not> custom p s" "\<not> kills p s" "s < 64" "s \<notin> set sigs"
    "\<forall>t \<in> set sigs. t < 64"
  shows "scan_post (s # sigs) p r r' p'"
proof -
  have "kills (clear_sig s p) t = kills p t" "pending t (clear_sig s p) = pending t p" "custom (clear_sig s p) t = custom p t"
    if "t \<in> set sigs" for t
    using that assms(5,6) by (auto simp: kills_def pending_clear custom_def)
  then have "find (kills (clear_sig s p)) sigs = find (kills p) sigs"
    "(\<exists>t \<in> set sigs. pending t (clear_sig s p) \<and> custom (clear_sig s p) t) \<longleftrightarrow> (\<exists>t \<in> set sigs. pending t p \<and> custom p t)"
    by (auto intro: find_cong)
  then show ?thesis
    using assms after_scan_step [of s sigs p p'] by (cases "find (kills p) sigs") (simp_all add: scan_post_def)
qed

lemma scan_syscall_spec:
  assumes "slots_inv (k_slots k)" "process_mut pid k = Some p" "distinct sigs" "\<forall>s \<in> set sigs. s < 64"
  shows "\<exists>r' k' p'. scan_syscall sigs pid r k = Some (r', k') \<and> slots_inv (k_slots k') \<and> process_mut pid k' = Some p' \<and>
     scan_post sigs p r r' p'"
  using assms
proof (induction sigs arbitrary: k p r)
  case Nil
  then show ?case by (simp add: after_scan_def scan_post_def)
next
  case (Cons s sigs)
  define k1 where "k1 = set_process pid (clear_sig s) k"
  have s: "s < 64" "s \<notin> set sigs" "distinct sigs" "\<forall>s \<in> set sigs. s < 64" using Cons.prems by simp_all
  have k1: "slots_inv (k_slots k1)" "process_mut pid k1 = Some (clear_sig s p)"
    unfolding k1_def using Cons.prems by (simp_all add: process_mut_set slots_inv_upd)
  note IH = Cons.IH [OF Cons.prems(1,2) s(3,4)]
  consider (no) "\<not> pending s p" | (cust) "pending s p" "custom p s" | (kill) "kills p s"
    | (drop) "pending s p" "\<not> custom p s" "\<not> kills p s" by (auto simp: kills_def)
  then show ?case
  proof cases
    case no
    then have "scan_syscall (s # sigs) pid r k = scan_syscall sigs pid r k" using Cons.prems by simp
    then show ?thesis using IH [of r] scan_post_skip [OF _ no s(1)] by metis
  next
    case cust
    then have "scan_syscall (s # sigs) pid r k = scan_syscall sigs pid CustomPending k"
      using Cons.prems by (simp add: custom_def)
    then show ?thesis using IH [of CustomPending] scan_post_custom [OF _ cust s(1)] by metis
  next
    case kill
    obtain k2 where k2: "mark_zombie pid (128 + of_nat s) k1 = Some k2" using mark_zombie_processes [OF k1] by blast
    then have "scan_syscall (s # sigs) pid r k = Some (Terminated, k2)"
      using kill Cons.prems by (simp add: kills_def k1_def SIG_DFL_def SIG_IGN_def)
    then show ?thesis using kill mark_zombie_self [OF k1 k2] by (simp add: scan_post_def)
  next
    case drop
    then have "scan_syscall (s # sigs) pid r k = scan_syscall sigs pid r k1"
      using Cons.prems by (auto simp: kills_def custom_def k1_def)
    then show ?thesis
      using Cons.IH [OF k1 s(3,4), of r] scan_post_drop [OF _ drop(2,3) s(1,2,4)] by metis
  qed
qed

subsection \<open>Delivery\<close>

lemma deliver_custom_cases:
  assumes inv: "slots_inv (k_slots k)" and p: "process_mut pid k = Some p"
    and d: "deliver_custom pid krsp sig h rsp k = Some (killed, k')"
  shows "if killed then slots_inv (k_slots k') \<and> (\<exists>p'. process_mut pid k' = Some p' \<and> p_state p' = Zombie)
    else \<exists>m. \<not> rsp < p_stack_low p + SIGFRAME_SIZE \<and>
      store_virt (k_cr3 k) (rsp - SIGFRAME_SIZE) (qwords (sig_frame krsp sig (p_sig_pending (clear_sig sig p)) k)) (k_mem k) = Some m \<and>
      slots_inv (k_slots k') \<and>
      process_mut pid k' = Some ((clear_sig sig p)\<lparr>p_sigframe_rsp := rsp - SIGFRAME_SIZE, p_in_signal := True\<rparr>) \<and>
      k_mem k' = store64 (krsp + FR_RSP) (rsp - SIGFRAME_SIZE) (store64 (krsp + FR_RIP) h (store64 (krsp + FR_RDI) (of_nat sig) m))"
proof -
  define k1 where "k1 = set_process pid (clear_sig sig) k"
  have k1: "slots_inv (k_slots k1)" "process_mut pid k1 = Some (clear_sig sig p)"
    unfolding k1_def using inv p by (simp_all add: process_mut_set slots_inv_upd)
  show ?thesis
  proof (cases "rsp < p_stack_low p + SIGFRAME_SIZE")
    case True
    then obtain k2 where "mark_zombie pid (128 + of_nat SIGKILL) k1 = Some k2" "killed" "k' = k2"
      using d k1 by (auto simp: deliver_custom_def k1_def [symmetric] bind_eq_Some_conv)
    then show ?thesis using mark_zombie_self [OF k1] by simp
  next
    case False
    have sf: "sig_frame krsp sig x k1 = sig_frame krsp sig x k" for x
      by (simp add: sig_frame_def frame_gprs_def k1_def)
    obtain k2 where k2: "user_store (rsp - SIGFRAME_SIZE) (qwords (sig_frame krsp sig (p_sig_pending (clear_sig sig p)) k)) k1 = Some k2"
      and k': "\<not> killed" "k' = kstore (krsp + FR_RSP) (rsp - SIGFRAME_SIZE) (kstore (krsp + FR_RIP) h
          (kstore (krsp + FR_RDI) (of_nat sig)
            (set_process pid (\<lambda>p. p\<lparr>p_sigframe_rsp := rsp - SIGFRAME_SIZE, p_in_signal := True\<rparr>) k2)))"
      using d k1 False by (auto simp: deliver_custom_def k1_def [symmetric] sf bind_eq_Some_conv Let_def)
    obtain m where m: "store_virt (k_cr3 k) (rsp - SIGFRAME_SIZE) (qwords (sig_frame krsp sig (p_sig_pending (clear_sig sig p)) k)) (k_mem k) = Some m"
      "k2 = k1\<lparr>k_mem := m\<rparr>"
      using k2 by (auto simp: user_store_def k1_def)
    have "process_mut pid k' = Some ((clear_sig sig p)\<lparr>p_sigframe_rsp := rsp - SIGFRAME_SIZE, p_in_signal := True\<rparr>)"
      "slots_inv (k_slots k')" "k_mem k' = store64 (krsp + FR_RSP) (rsp - SIGFRAME_SIZE) (store64 (krsp + FR_RIP) h (store64 (krsp + FR_RDI) (of_nat sig) m))"
      unfolding k' m(2) using k1 by (simp_all add: process_mut_set slots_inv_upd) (simp add: process_mut_def)
    then show ?thesis using False m(1) k'(1) by auto
  qed
qed

lemma sigkill_check:
  assumes "slots_inv (k_slots k)" "process_mut pid k = Some p" "pid \<noteq> 0" "pid \<noteq> 2" "p_in_signal p" "pending SIGKILL p"
  shows "\<exists>k' p'. check_signals_syscall pid k = Some (Terminated, k') \<and> process_mut pid k' = Some p' \<and>
    p_state p' = Zombie \<and> p_exit_code p' = 137"
proof -
  define k1 where "k1 = set_process pid (clear_sig SIGKILL) k"
  have k1: "slots_inv (k_slots k1)" "process_mut pid k1 = Some (clear_sig SIGKILL p)"
    unfolding k1_def using assms by (simp_all add: process_mut_set slots_inv_upd)
  obtain k2 where k2: "mark_zombie pid (128 + of_nat SIGKILL) k1 = Some k2" using mark_zombie_processes [OF k1] by blast
  have "p_sig_pending p \<noteq> 0" using assms(6) by (auto simp: pending_def)
  then have "check_signals_syscall pid k = Some (Terminated, k2)"
    using assms k2 by (simp add: check_signals_syscall_def k1_def)
  then show ?thesis using mark_zombie_self [OF k1 k2] by (simp add: SIGKILL_def)
qed

lemma scan_deliver_sigkill:
  assumes "scan_deliver sigs pid krsp rsp k = Some (killed, k')" "slots_inv (k_slots k)" "process_mut pid k = Some p"
    "SIGKILL \<in> set sigs" "pending SIGKILL p" "handler_of SIGKILL p = SIG_DFL"
  shows "slots_inv (k_slots k') \<and> (\<exists>p'. process_mut pid k' = Some p' \<and>
    (if killed then p_state p' = Zombie else p_in_signal p' \<and> pending SIGKILL p'))"
  using assms
proof (induction sigs arbitrary: k p)
  case (Cons s sigs)
  have sk: "SIGKILL < 64" "fatal SIGKILL" "SIG_DFL \<noteq> SIG_IGN" by (simp_all add: SIGKILL_def fatal_def SIG_DFL_def SIG_IGN_def)
  define k1 where "k1 = set_process pid (clear_sig s) k"
  have k1: "slots_inv (k_slots k1)" "process_mut pid k1 = Some (clear_sig s p)"
    unfolding k1_def using Cons.prems by (simp_all add: process_mut_set slots_inv_upd)
  consider (no) "\<not> pending s p" | (cust) "pending s p" "custom p s" | (kill) "kills p s"
    | (drop) "pending s p" "\<not> custom p s" "\<not> kills p s" by (auto simp: kills_def)
  then show ?case
  proof cases
    case no
    then have "s \<noteq> SIGKILL" "scan_deliver sigs pid krsp rsp k = Some (killed, k')" using Cons.prems by auto
    then show ?thesis using Cons.IH [OF _ Cons.prems(2,3)] Cons.prems by simp
  next
    case cust
    then have "s \<noteq> SIGKILL" using Cons.prems(6) by (auto simp: custom_def)
    moreover have "deliver_custom pid krsp s (handler_of s p) rsp k = Some (killed, k')"
      using Cons.prems cust by (simp add: custom_def)
    ultimately show ?thesis
      using deliver_custom_cases [OF Cons.prems(2,3)] Cons.prems(5) pending_clear [OF sk(1), of s p]
      by (cases killed) (fastforce simp: pending_def)+
  next
    case kill
    then obtain k2 where "mark_zombie pid (128 + of_nat s) k1 = Some k2" "k' = k2" "killed"
      using Cons.prems sk by (auto simp: kills_def k1_def [symmetric] bind_eq_Some_conv)
    then show ?thesis using mark_zombie_self [OF k1] by simp
  next
    case drop
    then have "s \<noteq> SIGKILL" using Cons.prems(5,6) sk by (auto simp: kills_def)
    moreover have "scan_deliver sigs pid krsp rsp k1 = Some (killed, k')"
      using Cons.prems drop by (auto simp: kills_def custom_def k1_def split: if_splits)
    ultimately show ?thesis using Cons.IH [OF _ k1] Cons.prems pending_clear [OF sk(1), of s p] by auto
  qed
qed simp

subsection \<open>Claims\<close>


definition usr1_process :: process where
  "usr1_process = (blank_process 1 Running)\<lparr>p_sig_pending := push_bit 10 1 OR push_bit 3 1\<rparr>"

lemma usr1_pending: "pending s usr1_process \<longleftrightarrow> s = 3 \<or> s = 10" if "s < 64"
  unfolding pending_bit [OF that] using that
  by (simp add: usr1_process_def bit_or_iff bit_push_bit_iff bit_1_iff del: push_bit_of_1) auto


text \<open>C12.  SIGKILL cannot be escaped: while its action is the default one (and
  \<open>sigaction\<close> refuses to change it), a scheduler pass over a process with SIGKILL pending
  either ends the process, or enters the handler of a lower signal, and then the check
  of the process's next system call ends it with exit code 137.\<close>

theorem sigkill_inescapable:
  assumes "slots_inv (k_slots k)" "pid \<noteq> 0" "pid \<noteq> 2" "process_mut pid k = Some p"
    "pending SIGKILL p" "handler_of SIGKILL p = SIG_DFL" "kload (krsp + FR_CS) k AND 3 = 3"
    "deliver_pending_signals pid krsp k = Some (killed, k1)"
  shows "if killed then \<exists>p1. process_mut pid k1 = Some p1 \<and> p_state p1 = Zombie
    else \<exists>k2 p2. check_signals_syscall pid k1 = Some (Terminated, k2) \<and> process_mut pid k2 = Some p2 \<and>
           p_state p2 = Zombie \<and> p_exit_code p2 = 137"
proof -
  have nz: "p_sig_pending p \<noteq> 0" using assms(5) by (auto simp: pending_def)
  show ?thesis
  proof (cases "p_in_signal p")
    case True
    define k0 where "k0 = set_process pid (clear_sig SIGKILL) k"
    have k0: "slots_inv (k_slots k0)" "process_mut pid k0 = Some (clear_sig SIGKILL p)"
      unfolding k0_def using assms by (simp_all add: process_mut_set slots_inv_upd)
    have "mark_zombie pid (128 + of_nat SIGKILL) k0 = Some k1" "killed"
      using assms True nz by (auto simp: deliver_pending_signals_def k0_def bind_eq_Some_conv)
    then show ?thesis using mark_zombie_self [OF k0] by simp
  next
    case False
    then have "scan_deliver [1..<NUM_SIGS] pid krsp (kload (krsp + FR_RSP) k) k = Some (killed, k1)"
      using assms nz by (simp add: deliver_pending_signals_def)
    moreover have "SIGKILL \<in> set [1..<NUM_SIGS]" by (simp add: SIGKILL_def NUM_SIGS_def)
    ultimately have "slots_inv (k_slots k1) \<and> (\<exists>p'. process_mut pid k1 = Some p' \<and>
        (if killed then p_state p' = Zombie else p_in_signal p' \<and> pending SIGKILL p'))"
      using scan_deliver_sigkill assms(1,4,5,6) by blast
    then show ?thesis using sigkill_check [OF _ _ assms(2,3)] by (cases killed) auto
  qed
qed

definition killed_process :: process where
  "killed_process = (blank_process 1 Running)\<lparr>p_sig_pending := push_bit SIGKILL 1\<rparr>"

lemma killed_pending: "s < 64 \<Longrightarrow> pending s killed_process \<longleftrightarrow> s = SIGKILL"
  unfolding pending_bit
  by (simp add: killed_process_def bit_push_bit_iff bit_1_iff del: push_bit_of_1) auto

theorem sigkill_inescapable_witness:
  "\<exists>k1 p1. deliver_pending_signals 1 0x102000 (kstore 0x102090 0x23 (kernel0 [killed_process])) = Some (True, k1) \<and>
     process_mut 1 k1 = Some p1 \<and> p_state p1 = Zombie"
proof -
  let ?k = "kstore 0x102090 0x23 (kernel0 [killed_process])"
  have pid: "p_pid killed_process = 1" "\<not> p_in_signal killed_process" by (simp_all add: killed_process_def)
  have inv: "slots_inv (k_slots ?k)" and p: "process_mut 1 ?k = Some killed_process"
    using kernel0_process [of "[killed_process]" killed_process] kernel0_inv [of "[killed_process]"] pid
    by (simp_all add: MAX_PROCS_def)
  have pen: "pending s killed_process \<longleftrightarrow> s = 9" if "s < 64" for s
    using killed_pending [OF that] by (simp add: SIGKILL_def)
  have h: "handler_of 9 killed_process = SIG_DFL" "p_sig_pending killed_process \<noteq> 0"
    by (simp_all add: killed_process_def handler_of_def sig_action_default_def SIG_DFL_def SIGKILL_def)
  have cs: "kload (0x102000 + FR_CS) ?k AND 3 = 3" by (simp add: FR_CS_def)
  define k0 where "k0 = set_process 1 (clear_sig 9) ?k"
  have k0: "slots_inv (k_slots k0)" "process_mut 1 k0 = Some (clear_sig 9 killed_process)"
    unfolding k0_def using slots_inv_set [OF inv, of "clear_sig 9"] process_mut_set [OF inv, of "clear_sig 9" 1 1] p by simp_all
  obtain k1 where k1: "mark_zombie 1 (128 + of_nat 9) k0 = Some k1" using mark_zombie_processes [OF k0] by blast
  have skip: "scan_deliver (s # sigs) 1 krsp rsp ?k = scan_deliver sigs 1 krsp rsp ?k" if "s < 9" for s sigs krsp rsp
    using that p pen [of s] by simp
  have "scan_deliver (9 # sigs) 1 krsp rsp ?k = Some (True, k1)" for sigs krsp rsp
    using p pen [of 9] h k1 by (simp add: k0_def fatal_def SIGKILL_def SIG_IGN_def SIG_DFL_def)
  moreover have "[1..<NUM_SIGS] = 1 # 2 # 3 # 4 # 5 # 6 # 7 # 8 # 9 # [10..<32]" by (simp add: NUM_SIGS_def upt_conv_Cons)
  ultimately have "scan_deliver [1..<NUM_SIGS] 1 krsp rsp ?k = Some (True, k1)" for krsp rsp
    by (simp del: scan_deliver.simps add: skip)
  then have "deliver_pending_signals 1 0x102000 ?k = Some (True, k1)"
    using p pid h cs by (simp add: deliver_pending_signals_def)
  then show ?thesis
    using sigkill_inescapable [of ?k 1 killed_process "0x102000" True k1] inv p pen [of 9] h cs by (auto simp: SIGKILL_def)
qed

subsection \<open>Delivery and return\<close>

lemma of_qwords_qwords [simp]: "of_qwords (length vs) (qwords vs) = vs"
  by (induction vs) (simp_all add: qwords_def)

lemma length_qwords [simp]: "length (qwords vs) = 8 * length vs"
  by (induction vs) (simp_all add: qwords_def)

lemma length_sig_frame [simp]: "length (sig_frame krsp sig saved k) = 20" "length (frame_gprs krsp k) = 15"
  by (simp_all add: sig_frame_def frame_gprs_def)

lemma aligned8_add: "aligned8 a \<Longrightarrow> aligned8 (a + 8 * of_nat i)"
proof -
  assume "aligned8 a"
  then obtain q where "unat a = 8 * q" by (auto simp: aligned8_def)
  then have "unat (a + 8 * of_nat i) mod 8 = 0"
    by (simp add: unat_word_ariths unat_of_nat mod_mod_cancel mod_simps)
  then show ?thesis by (auto simp: aligned8_def)
qed

lemma frame_slots:
  assumes "aligned8 krsp"
  shows "aligned8 (krsp + FR_RDI)" "aligned8 (krsp + FR_RIP)" "aligned8 (krsp + FR_RSP)"
  using aligned8_add [OF assms, of 6] aligned8_add [OF assms, of 17] aligned8_add [OF assms, of 20]
  by (simp_all add: FR_RDI_def FR_RIP_def FR_RSP_def)

lemma scan_deliver_enters:
  assumes "scan_deliver sigs pid krsp rsp k = Some (False, k1)" "slots_inv (k_slots k)" "process_mut pid k = Some p"
    "\<not> p_in_signal p" "process_mut pid k1 = Some p1" "p_in_signal p1"
  shows "\<exists>sig m. sig \<in> set sigs \<and> pending sig p \<and> custom p sig \<and> \<not> rsp < p_stack_low p + SIGFRAME_SIZE \<and>
    p_sigframe_rsp p1 = rsp - SIGFRAME_SIZE \<and>
    store_virt (k_cr3 k) (rsp - SIGFRAME_SIZE) (qwords (sig_frame krsp sig (p_sig_pending p1) k)) (k_mem k) = Some m \<and>
    k_mem k1 = store64 (krsp + FR_RSP) (rsp - SIGFRAME_SIZE) (store64 (krsp + FR_RIP) (handler_of sig p)
       (store64 (krsp + FR_RDI) (of_nat sig) m))"
  using assms
proof (induction sigs arbitrary: k p)
  case (Cons s sigs)
  define k0 where "k0 = set_process pid (clear_sig s) k"
  have k0: "slots_inv (k_slots k0)" "process_mut pid k0 = Some (clear_sig s p)"
    unfolding k0_def using Cons.prems by (simp_all add: process_mut_set slots_inv_upd)
  have same: "k_mem k0 = k_mem k" "k_cr3 k0 = k_cr3 k" "sig_frame krsp t x k0 = sig_frame krsp t x k" for t x
    by (simp_all add: k0_def sig_frame_def frame_gprs_def)
  consider (no) "\<not> pending s p" | (cust) "pending s p" "custom p s" | (kill) "kills p s"
    | (drop) "pending s p" "\<not> custom p s" "\<not> kills p s" by (auto simp: kills_def)
  then show ?case
  proof cases
    case no
    then have "scan_deliver sigs pid krsp rsp k = Some (False, k1)" using Cons.prems by simp
    from Cons.IH [OF this Cons.prems(2-6)] show ?thesis by (metis list.set_intros(2))
  next
    case cust
    then have "deliver_custom pid krsp s (handler_of s p) rsp k = Some (False, k1)"
      using Cons.prems by (simp add: custom_def)
    from deliver_custom_cases [OF Cons.prems(2,3) this] show ?thesis using cust Cons.prems(5) by auto
  next
    case kill
    then show ?thesis using Cons.prems by (auto simp: kills_def SIG_DFL_def SIG_IGN_def bind_eq_Some_conv)
  next
    case drop
    then have "scan_deliver sigs pid krsp rsp k0 = Some (False, k1)"
      using Cons.prems by (auto simp: kills_def custom_def k0_def split: if_splits)
    from Cons.IH [OF this k0 _ Cons.prems(5,6)] Cons.prems(4) obtain sig m where
      IH: "sig \<in> set sigs" "pending sig (clear_sig s p)" "custom (clear_sig s p) sig"
        "\<not> rsp < p_stack_low p + SIGFRAME_SIZE" "p_sigframe_rsp p1 = rsp - SIGFRAME_SIZE"
        "store_virt (k_cr3 k) (rsp - SIGFRAME_SIZE) (qwords (sig_frame krsp sig (p_sig_pending p1) k)) (k_mem k) = Some m"
        "k_mem k1 = store64 (krsp + FR_RSP) (rsp - SIGFRAME_SIZE) (store64 (krsp + FR_RIP) (handler_of sig p)
           (store64 (krsp + FR_RDI) (of_nat sig) m))"
      by (auto simp: same)
    have "custom p sig" using IH(3) by (simp add: custom_def)
    moreover have "pending sig p" 
    proof -
      have "(a AND NOT b) AND c = (a AND c) AND NOT b" for a b c :: u64 by (simp add: ac_simps)
      then show ?thesis using IH(2) by (auto simp: pending_def clear_sig_def)
    qed
    ultimately show ?thesis using IH by auto
  qed
qed simp

lemma sigreturn_frame:
  assumes inv: "slots_inv (k_slots k)" and p: "process_mut (k_cur k) k = Some p" and a: "p_sigframe_rsp p \<noteq> 0"
    and l: "user_load (p_sigframe_rsp p) 160 k = Some (qwords buf)" "length buf = 20"
  shows "\<exists>k'. sys_sigreturn k = Some (0, k') \<and> k_should_schedule k' \<and> k_cur k' = k_cur k \<and>
    process_mut (k_cur k) k' = Some (p\<lparr>p_sigframe_rsp := 0, p_in_signal := False, p_sig_pending := buf ! 19\<rparr>) \<and>
    exit_frame rax k' = take 15 buf @ [0, 0, buf ! 17, 0x23, buf ! 15, buf ! 16, 0x1B]"
proof -
  have b: "of_qwords 20 (qwords buf) = buf" using of_qwords_qwords [of buf] l(2) by simp
  let ?k = "k\<lparr>k_sigreturn_frame := take 15 buf @ [buf ! 17, buf ! 16, buf ! 15], k_sigreturn_pending := True\<rparr>"
  let ?f = "\<lambda>p. p\<lparr>p_sigframe_rsp := 0, p_in_signal := False, p_sig_pending := buf ! 19\<rparr>"
  let ?k' = "set_schedule (set_process (k_cur k) ?f ?k)"
  have "sys_sigreturn k = Some (0, ?k')"
    using p a l(1) by (simp add: sys_sigreturn_def b Let_def)
  moreover have "process_mut (k_cur k) ?k' = Some (?f p)"
    using p process_mut_if_upd [of ?f "k_cur k" "k_cur k" "k_slots k"]
    by (simp add: process_mut_def set_schedule_def)
  moreover have "k_sigreturn_frame ?k' = take 15 buf @ [buf ! 17, buf ! 16, buf ! 15]" "k_sigreturn_pending ?k'"
    by (simp_all add: set_schedule_def set_process_def upd_slots_def)
  ultimately show ?thesis
    using l(2) by (intro exI [of _ ?k']) (simp add: exit_frame_def nth_append set_schedule_def)
qed

text \<open>C10.  Signal delivery and \<open>sigreturn\<close> are inverse.  When the scheduler enters a handler,
  the interrupted registers are stored in the frame on the user stack and the process
  resumes in the handler with the signal number in RDI.  When the process later calls
  \<open>sigreturn\<close> with that frame intact, the assembly exit path rebuilds exactly the
  interrupted general registers, RIP, RFLAGS and RSP.  The pending set becomes the one
  of the delivery, so a signal raised while the handler ran is lost.\<close>

theorem sigreturn_restores:
  assumes "slots_inv (k_slots k)" "pid \<noteq> 0" "pid \<noteq> 2" "process_mut pid k = Some p" "\<not> p_in_signal p"
    "aligned8 krsp" "0 < unat (p_stack_low p)" "unat (p_stack_low p) + 160 < 2 ^ 64"
    "deliver_pending_signals pid krsp k = Some (False, k1)" "process_mut pid k1 = Some p1" "p_in_signal p1"
  shows "\<exists>sig m. sig \<in> {1..<NUM_SIGS} \<and> pending sig p \<and> custom p sig \<and>
    kload (krsp + FR_RIP) k1 = handler_of sig p \<and> kload (krsp + FR_RDI) k1 = of_nat sig \<and>
    kload (krsp + FR_RSP) k1 = p_sigframe_rsp p1 \<and> p_sigframe_rsp p1 = kload (krsp + FR_RSP) k - SIGFRAME_SIZE \<and>
    store_virt (k_cr3 k) (p_sigframe_rsp p1) (qwords (sig_frame krsp sig (p_sig_pending p1) k)) (k_mem k) = Some m \<and>
    (\<forall>k2 p2 rax. slots_inv (k_slots k2) \<and> k_cur k2 = pid \<and> process_mut pid k2 = Some p2 \<and>
       p_sigframe_rsp p2 = p_sigframe_rsp p1 \<and>
       user_load (p_sigframe_rsp p1) 160 k2 = Some (qwords (sig_frame krsp sig (p_sig_pending p1) k)) \<longrightarrow>
       (\<exists>k3 p3. sys_sigreturn k2 = Some (0, k3) \<and> k_should_schedule k3 \<and> process_mut pid k3 = Some p3 \<and>
          \<not> p_in_signal p3 \<and> p_sig_pending p3 = p_sig_pending p1 \<and>
          exit_frame rax k3 = frame_gprs krsp k @ [0, 0, kload (krsp + FR_RIP) k, 0x23,
            kload (krsp + FR_RFLAGS) k, kload (krsp + FR_RSP) k, 0x1B]))"
proof -
  let ?rsp = "kload (krsp + FR_RSP) k"
  have "scan_deliver [1..<NUM_SIGS] pid krsp ?rsp k = Some (False, k1)"
    using assms by (auto simp: deliver_pending_signals_def split: if_splits)
  from scan_deliver_enters [OF this assms(1,4,5,10,11)] obtain sig m where
    S: "sig \<in> {1..<NUM_SIGS}" "pending sig p" "custom p sig" "\<not> ?rsp < p_stack_low p + SIGFRAME_SIZE"
      "p_sigframe_rsp p1 = ?rsp - SIGFRAME_SIZE"
      "store_virt (k_cr3 k) (?rsp - SIGFRAME_SIZE) (qwords (sig_frame krsp sig (p_sig_pending p1) k)) (k_mem k) = Some m"
      "k_mem k1 = store64 (krsp + FR_RSP) (?rsp - SIGFRAME_SIZE) (store64 (krsp + FR_RIP) (handler_of sig p)
         (store64 (krsp + FR_RDI) (of_nat sig) m))"
    by auto
  have ld: "kload (krsp + FR_RIP) k1 = handler_of sig p" "kload (krsp + FR_RDI) k1 = of_nat sig"
    "kload (krsp + FR_RSP) k1 = p_sigframe_rsp p1"
    using frame_slots [OF assms(6)] S(5) by (simp_all add: kload_def S(7) FR_RSP_def FR_RIP_def FR_RDI_def)
  have "unat (p_stack_low p + SIGFRAME_SIZE) = unat (p_stack_low p) + 160"
    using assms(8) by (subst unat_add64) (simp_all add: SIGFRAME_SIZE_def)
  then have "?rsp \<noteq> SIGFRAME_SIZE" using S(4) assms(7) by (auto simp: word_less_nat_alt SIGFRAME_SIZE_def)
  then have nz: "p_sigframe_rsp p1 \<noteq> 0" using S(5) by simp
  let ?buf = "sig_frame krsp sig (p_sig_pending p1) k"
  have ix: "take 15 ?buf = frame_gprs krsp k" "?buf ! 15 = kload (krsp + FR_RFLAGS) k" "?buf ! 16 = ?rsp"
    "?buf ! 17 = kload (krsp + FR_RIP) k" "?buf ! 19 = p_sig_pending p1"
    by (simp_all add: sig_frame_def nth_append)
  have "\<exists>k3 p3. sys_sigreturn k2 = Some (0, k3) \<and> k_should_schedule k3 \<and> process_mut pid k3 = Some p3 \<and>
          \<not> p_in_signal p3 \<and> p_sig_pending p3 = p_sig_pending p1 \<and>
          exit_frame rax k3 = frame_gprs krsp k @ [0, 0, kload (krsp + FR_RIP) k, 0x23,
            kload (krsp + FR_RFLAGS) k, ?rsp, 0x1B]"
    if "slots_inv (k_slots k2)" "k_cur k2 = pid" "process_mut pid k2 = Some p2" "p_sigframe_rsp p2 = p_sigframe_rsp p1"
      "user_load (p_sigframe_rsp p1) 160 k2 = Some (qwords ?buf)" for k2 p2 rax
    using sigreturn_frame [OF that(1), of p2 ?buf rax] that nz ix by auto
  then show ?thesis using S ld by (intro exI [of _ sig] exI [of _ m]) auto
qed

definition sig_process :: process where
  "sig_process = (blank_process 1 Running)\<lparr>p_sig_pending := push_bit 10 1, p_stack_low := 0x101000,
     p_sigactions := (replicate 32 sig_action_default)[10 := \<lparr>sa_handler = 0x2000100, sa_mask = 0, sa_flags = 0\<rparr>]\<rparr>"

definition sig_kernel :: kernel where
  "sig_kernel = kstore 0x1040A0 0x101200 (kstore 0x104090 0x23 (kernel0 [sig_process]))"

lemma sig_pending: "s < 64 \<Longrightarrow> pending s sig_process \<longleftrightarrow> s = 10"
  unfolding pending_bit
  by (simp add: sig_process_def bit_push_bit_iff bit_1_iff del: push_bit_of_1) auto

lemma sig_kernel_facts:
  "slots_inv (k_slots sig_kernel)" "process_mut 1 sig_kernel = Some sig_process" "is_flat (k_mem sig_kernel)"
  "kload (0x104000 + FR_CS) sig_kernel = 0x23" "kload (0x104000 + FR_RSP) sig_kernel = 0x101200"
proof -
  show "slots_inv (k_slots sig_kernel)" "process_mut 1 sig_kernel = Some sig_process"
    using kernel0_process [of "[sig_process]" sig_process] kernel0_inv [of "[sig_process]"]
    by (simp_all add: MAX_PROCS_def sig_kernel_def sig_process_def)
  show "is_flat (k_mem sig_kernel)" by (simp add: sig_kernel_def is_flat_store64)
  show "kload (0x104000 + FR_CS) sig_kernel = 0x23" "kload (0x104000 + FR_RSP) sig_kernel = 0x101200"
    by (simp_all add: sig_kernel_def FR_CS_def FR_RSP_def aligned8_def)
qed

lemma sig_process_facts:
  "handler_of 10 sig_process = 0x2000100" "p_stack_low sig_process = 0x101000"
  "p_sig_pending (clear_sig 10 sig_process) = 0" "p_sig_pending sig_process \<noteq> 0" "\<not> p_in_signal sig_process"
  by (simp_all add: sig_process_def handler_of_def clear_sig_def sig_bit_def)

text \<open>The scan reaches signal 10, the only one pending.\<close>
lemma sig_scan:
  assumes "deliver_custom 1 0x104000 10 0x2000100 0x101200 sig_kernel = Some (False, k1)"
  shows "deliver_pending_signals 1 0x104000 sig_kernel = Some (False, k1)"
proof -
  note F = sig_kernel_facts
  have skip: "scan_deliver (s # sigs) 1 r u sig_kernel = scan_deliver sigs 1 r u sig_kernel" if "s < 10" for s sigs r u
    using that F(2) sig_pending [of s] by simp
  have "scan_deliver (10 # sigs) 1 0x104000 0x101200 sig_kernel = Some (False, k1)" for sigs
    using assms F(2) sig_process_facts sig_pending [of 10] by (simp add: SIG_IGN_def SIG_DFL_def)
  moreover have "[1..<NUM_SIGS] = 1 # 2 # 3 # 4 # 5 # 6 # 7 # 8 # 9 # 10 # [11..<32]"
    by (simp add: NUM_SIGS_def upt_conv_Cons)
  ultimately have "scan_deliver [1..<NUM_SIGS] 1 0x104000 0x101200 sig_kernel = Some (False, k1)"
    by (simp del: scan_deliver.simps add: skip)
  then show ?thesis using F sig_process_facts by (simp add: deliver_pending_signals_def)
qed

lemma sig_delivered:
  "\<exists>k1. deliver_pending_signals 1 0x104000 sig_kernel = Some (False, k1) \<and>
     process_mut 1 k1 = Some ((clear_sig 10 sig_process)\<lparr>p_sigframe_rsp := 0x101160, p_in_signal := True\<rparr>) \<and>
     slots_inv (k_slots k1) \<and> k_cur k1 = 1 \<and>
     user_load 0x101160 160 k1 = Some (qwords (sig_frame 0x104000 10 0 sig_kernel))"
proof -
  note F = sig_kernel_facts
  define k0 where "k0 = set_process 1 (clear_sig 10) sig_kernel"
  let ?f = "\<lambda>p. p\<lparr>p_sigframe_rsp := 0x101160, p_in_signal := True\<rparr>" and ?buf = "sig_frame 0x104000 10 0 sig_kernel"
  have k0: "slots_inv (k_slots k0)" "process_mut 1 k0 = Some (clear_sig 10 sig_process)" "k_mem k0 = k_mem sig_kernel"
    "k_cr3 k0 = 0x1000" "k_cur k0 = 1" "sig_frame 0x104000 10 0 k0 = ?buf"
    unfolding k0_def using slots_inv_set [OF F(1), of "clear_sig 10"] process_mut_set [OF F(1), of "clear_sig 10" 1 1] F
    by (simp_all add: sig_frame_def frame_gprs_def) (simp_all add: sig_kernel_def)
  have "maps_run (k_mem k0) (k_cr3 k0) 0x101160 (length (qwords ?buf)) (\<lambda>i. 0x101160 + of_nat i)"
    unfolding k0 by (rule flat_run [OF F(3), of _ "0x160"]) simp_all
  from user_store_load [OF this] obtain m where m: "user_store 0x101160 (qwords ?buf) k0 = Some (k0\<lparr>k_mem := m\<rparr>)"
    "load_virt m 0x1000 0x101160 160 = Some (qwords ?buf)"
    "\<And>x. x \<notin> (\<lambda>i. 0x101160 + of_nat i) ` {..<160} \<Longrightarrow> m x = k_mem k0 x" using k0(4) by auto
  have ge: "0x101160 + of_nat i \<ge> (0x2000 :: u64)" "0x101160 + of_nat i < (0x104000 :: u64)" if "i < 160" for i :: nat
    using that by (subst word_le_nat_alt word_less_nat_alt, subst unat_add64, simp_all)+
  have "m x = k_mem k0 x" if "x < 0x2000" for x using that m(3) [of x] ge by force
  then have fm: "is_flat m" using F(3) k0(3) by (simp add: is_flat_def)
  define k1 where "k1 = kstore (0x104000 + FR_RSP) 0x101160 (kstore (0x104000 + FR_RIP) 0x2000100
      (kstore (0x104000 + FR_RDI) (of_nat 10) (set_process 1 ?f (k0\<lparr>k_mem := m\<rparr>))))"
  have m1: "k_mem k1 = store64 0x1040A0 0x101160 (store64 0x104088 0x2000100 (store64 0x104030 10 m))"
    by (simp add: k1_def FR_RSP_def FR_RIP_def FR_RDI_def)
  have "k_mem k1 x = m x" if "x < 0x104000" for x
  proof -
    have "x < 0x1040A0" "x < 0x104088" "x < 0x104030" using that by (simp_all add: word_less_nat_alt)
    then show ?thesis unfolding m1 by (simp add: store64_below)
  qed
  then have "map (\<lambda>i. k_mem k1 (0x101160 + of_nat i)) [0..<160] = map (\<lambda>i. m (0x101160 + of_nat i)) [0..<160]"
    using ge(2) by simp
  moreover have "is_flat (k_mem k1)" unfolding m1 using fm by (simp add: is_flat_store64)
  ultimately have "user_load 0x101160 160 k1 = Some (qwords ?buf)"
    using load_virt_flat [OF fm, of "0x101160" "0x160" 160] load_virt_flat [of "k_mem k1" "0x101160" "0x160" 160] m(2) k0(4)
    by (simp add: user_load_def k1_def)
  moreover have "deliver_custom 1 0x104000 10 0x2000100 0x101200 sig_kernel = Some (False, k1)"
    using k0 m(1) sig_process_facts by (simp add: deliver_custom_def k0_def [symmetric] k1_def SIGFRAME_SIZE_def Let_def)
  then have "deliver_pending_signals 1 0x104000 sig_kernel = Some (False, k1)" by (rule sig_scan)
  moreover have "process_mut 1 k1 = Some (?f (clear_sig 10 sig_process))" "slots_inv (k_slots k1)" "k_cur k1 = 1"
    unfolding k1_def using k0 slots_inv_upd [OF k0(1), of ?f 1] process_mut_if_upd [of ?f 1 1 "k_slots k0"]
    by (simp_all add: process_mut_def)
  ultimately show ?thesis by blast
qed

theorem sigreturn_restores_witness:
  "\<exists>k1 k3. deliver_pending_signals 1 0x104000 sig_kernel = Some (False, k1) \<and>
     kload (0x104000 + FR_RIP) k1 = 0x2000100 \<and> kload (0x104000 + FR_RDI) k1 = 10 \<and>
     sys_sigreturn k1 = Some (0, k3) \<and>
     exit_frame 0 k3 = frame_gprs 0x104000 sig_kernel @ [0, 0, kload (0x104000 + FR_RIP) sig_kernel, 0x23,
       kload (0x104000 + FR_RFLAGS) sig_kernel, 0x101200, 0x1B]"
proof -
  let ?p1 = "(clear_sig 10 sig_process)\<lparr>p_sigframe_rsp := 0x101160, p_in_signal := True\<rparr>"
  note F = sig_kernel_facts
  obtain k1 where k1: "deliver_pending_signals 1 0x104000 sig_kernel = Some (False, k1)" "process_mut 1 k1 = Some ?p1"
    "slots_inv (k_slots k1)" "k_cur k1 = 1" "user_load 0x101160 160 k1 = Some (qwords (sig_frame 0x104000 10 0 sig_kernel))"
    using sig_delivered by blast
  have st: "\<not> p_in_signal sig_process" "unat (p_stack_low sig_process) = 0x101000" "aligned8 0x104000"
    "p_sig_pending (clear_sig 10 sig_process) = 0"
    by (simp_all add: sig_process_def aligned8_def clear_sig_def sig_bit_def)
  have sig: "sig = 10" if "sig \<in> {1..<NUM_SIGS}" "pending sig sig_process" for sig
    using that sig_pending [of sig] by (simp add: NUM_SIGS_def)
  have hd: "handler_of 10 sig_process = 0x2000100" by (simp add: sig_process_def handler_of_def)
  have "p_in_signal ?p1" by simp
  from sigreturn_restores [OF F(1) _ _ F(2) st(1,3) _ _ k1(1,2) this] st(2) obtain sig m where
    S: "sig \<in> {1..<NUM_SIGS}" "pending sig sig_process" "kload (0x104000 + FR_RIP) k1 = handler_of sig sig_process"
      "kload (0x104000 + FR_RDI) k1 = of_nat sig"
    and R: "\<forall>k2 p2 rax. slots_inv (k_slots k2) \<and> k_cur k2 = 1 \<and> process_mut 1 k2 = Some p2 \<and>
       p_sigframe_rsp p2 = 0x101160 \<and> user_load 0x101160 160 k2 = Some (qwords (sig_frame 0x104000 sig 0 sig_kernel)) \<longrightarrow>
       (\<exists>k3 p3. sys_sigreturn k2 = Some (0, k3) \<and> k_should_schedule k3 \<and> process_mut 1 k3 = Some p3 \<and>
          \<not> p_in_signal p3 \<and> p_sig_pending p3 = 0 \<and>
          exit_frame rax k3 = frame_gprs 0x104000 sig_kernel @ [0, 0, kload (0x104000 + FR_RIP) sig_kernel, 0x23,
            kload (0x104000 + FR_RFLAGS) sig_kernel, kload (0x104000 + FR_RSP) sig_kernel, 0x1B])"
    by (auto simp: st(4))
  have "\<exists>k3. sys_sigreturn k1 = Some (0, k3) \<and> exit_frame 0 k3 = frame_gprs 0x104000 sig_kernel @ [0, 0,
      kload (0x104000 + FR_RIP) sig_kernel, 0x23, kload (0x104000 + FR_RFLAGS) sig_kernel, 0x101200, 0x1B]"
    using R [rule_format, of k1 ?p1 0] k1 sig [OF S(1,2)] F(5) by auto
  then show ?thesis using k1(1) S sig [OF S(1,2)] hd by auto
qed

end
