(* ===== verification/Scheduling.thy ===== *)
theory Scheduling imports Process Signal_Props begin

text \<open>The scheduler always finds a process to run: every pass of the selection loop ends,
  with the chosen process Running and its stack and page tables installed.\<close>

subsection \<open>The effect of delivery on the table\<close>

lemma process_mut_fields [simp]:
  "process_mut q (k\<lparr>k_cur := c\<rparr>) = process_mut q k" "process_mut q (k\<lparr>k_rsp0 := c\<rparr>) = process_mut q k"
  "process_mut q (k\<lparr>k_syscall_kstack := c\<rparr>) = process_mut q k" "process_mut q (k\<lparr>k_cr3 := c\<rparr>) = process_mut q k"
  "process_mut q (k\<lparr>k_mem := m\<rparr>) = process_mut q k"
  by (simp_all add: process_mut_def)

lemma mark_zombie_frame:
  assumes "mark_zombie pid code k = Some k'"
  shows "k' = k\<lparr>k_procs := k_procs k', k_mem := k_mem k'\<rparr> \<and>
    (k_mem k' = k_mem k \<or> (\<exists>q p. q \<noteq> pid \<and> process_mut q k = Some p \<and> k_mem k' = store64 (p_kernel_rsp p) 0 (k_mem k)))"
proof -
  obtain p where p: "process_mut pid k = Some p" using assms by (auto simp: mark_zombie_def bind_eq_Some_conv)
  define k1 where "k1 = set_process pid (\<lambda>p. p\<lparr>p_state := Zombie, p_exit_code := code\<rparr>) k"
  have k1: "k1 = k\<lparr>k_procs := k_procs k1\<rparr>" by (simp add: k1_def set_process_def upd_slots_def)
  have m: "mark_zombie pid code k = (if p_parent_pid p = 0 then Some k1
      else case process_mut_if (p_parent_pid p) (k_slots k1) of
        None \<Rightarrow> Some k1
      | Some parent \<Rightarrow>
         if p_state parent = Blocked \<and> p_wait_for_pid parent = pid then
           Some (set_process (p_parent_pid p) (\<lambda>p. p\<lparr>p_state := Ready, p_wait_for_pid := 0\<rparr>)
             (if p_kernel_rsp parent \<noteq> 0 then kstore (p_kernel_rsp parent) 0 k1 else k1))
         else Some k1)"
    using p unfolding mark_zombie_def k1_def by (simp add: Let_def)
  show ?thesis
  proof (cases "k' = k1")
    case True
    then show ?thesis by (simp add: k1_def set_process_def upd_slots_def)
  next
    case False
    then obtain parent where q: "process_mut_if (p_parent_pid p) (k_slots k1) = Some parent" "p_state parent = Blocked"
      and k': "k' = set_process (p_parent_pid p) (\<lambda>p. p\<lparr>p_state := Ready, p_wait_for_pid := 0\<rparr>)
             (if p_kernel_rsp parent \<noteq> 0 then kstore (p_kernel_rsp parent) 0 k1 else k1)"
      using assms unfolding m by (auto split: if_splits option.splits)
    have "p_parent_pid p \<noteq> pid \<and> process_mut (p_parent_pid p) k = Some parent"
      using q p by (auto simp: k1_def process_mut_def process_mut_if_upd split: if_splits)
    then show ?thesis
      unfolding k' by (auto simp: kstore_def k1_def set_process_def upd_slots_def)
  qed
qed

text \<open>The bytes of the saved RAX of every process, which \<open>mark_zombie\<close> may clear.\<close>
definition rax_bytes :: "kernel \<Rightarrow> u64 set" where
  "rax_bytes k = {a. \<exists>q p i. process_mut q k = Some p \<and> i < 8 \<and> a = p_kernel_rsp p + of_nat i}"

definition mem_but :: "u64 set \<Rightarrow> mem \<Rightarrow> mem \<Rightarrow> bool" where
  "mem_but A m m' \<longleftrightarrow> (\<forall>a. a \<notin> A \<longrightarrow> m' a = m a)"

lemma mem_but_refl [simp]: "mem_but A m m"
  by (simp add: mem_but_def)

lemma mem_but_trans: "mem_but A m m1 \<Longrightarrow> mem_but B m1 m2 \<Longrightarrow> B \<subseteq> A \<Longrightarrow> mem_but A m m2"
  unfolding mem_but_def by (metis subsetD)

lemma mem_but_store64: "(\<And>i. i < 8 \<Longrightarrow> a + of_nat i \<in> A) \<Longrightarrow> mem_but A m (store64 a v m)"
  unfolding mem_but_def store64_def by (intro allI impI write_bytes_other) auto

text \<open>Only the signal fields of a process change.\<close>
definition sig_change :: "process \<Rightarrow> process \<Rightarrow> bool" where
  "sig_change p p' \<longleftrightarrow> p' = p\<lparr>p_sig_pending := p_sig_pending p', p_in_signal := p_in_signal p',
     p_sigframe_rsp := p_sigframe_rsp p'\<rparr>"

lemma sig_changeD:
  assumes "sig_change p p'"
  shows "p_pid p' = p_pid p" "p_state p' = p_state p" "p_kernel_rsp p' = p_kernel_rsp p"
    "p_pml4_phys p' = p_pml4_phys p" "p_kernel_stack_top p' = p_kernel_stack_top p"
    "p_parent_pid p' = p_parent_pid p"
  using assms by (cases p; cases p'; simp add: sig_change_def)+

definition delivered :: "u64 \<Rightarrow> process \<Rightarrow> bool \<Rightarrow> kernel \<Rightarrow> kernel \<Rightarrow> bool" where
  "delivered pid p killed k k' \<longleftrightarrow> slots_inv (k_slots k') \<and> k' = k\<lparr>k_procs := k_procs k', k_mem := k_mem k'\<rparr> \<and>
     (killed \<longrightarrow> mem_but (rax_bytes k) (k_mem k) (k_mem k')) \<and>
     (\<exists>p0 g. sig_change p p0 \<and> (if killed then \<exists>code. g = zombified pid code (p_parent_pid p) else g = id) \<and>
       (\<forall>q. process_mut q k' = map_option g (if q = pid then Some p0 else process_mut q k)))"

lemma delivered_cur:
  assumes "delivered pid p killed k k'"
  shows "k_cur k' = k_cur k"
proof -
  have "k' = k\<lparr>k_procs := k_procs k', k_mem := k_mem k'\<rparr>" using assms unfolding delivered_def by blast
  from arg_cong [OF this, of k_cur] show ?thesis by simp
qed

lemma sig_change_clear: "sig_change p (clear_sig s p)"
  by (simp add: sig_change_def clear_sig_def)

lemma rax_bytes_cong:
  assumes "\<And>q. map_option p_kernel_rsp (process_mut q k) = map_option p_kernel_rsp (process_mut q k')"
  shows "rax_bytes k = rax_bytes k'"
proof -
  have *: "rax_bytes k = {a. \<exists>q r i. map_option p_kernel_rsp (process_mut q k) = Some r \<and> i < 8 \<and> a = r + of_nat i}" for k
    unfolding rax_bytes_def by auto
  show ?thesis by (simp only: * assms)
qed

lemma rax_bytes_set:
  assumes "slots_inv (k_slots k)" "\<And>p. p_pid (f p) = p_pid p" "\<And>p. p_kernel_rsp (f p) = p_kernel_rsp p"
  shows "rax_bytes (set_process q f k) = rax_bytes k"
  by (rule rax_bytes_cong) (simp add: process_mut_set assms option.map_comp comp_def)

lemma mark_zombie_delivered:
  assumes inv: "slots_inv (k_slots k)" and p: "process_mut pid k = Some p"
  shows "\<exists>k'. mark_zombie pid code (set_process pid (clear_sig s) k) = Some k' \<and> delivered pid p True k k'"
proof -
  define k1 where "k1 = set_process pid (clear_sig s) k"
  have k1: "slots_inv (k_slots k1)" "process_mut pid k1 = Some (clear_sig s p)"
    "process_mut q k1 = (if q = pid then Some (clear_sig s p) else process_mut q k)" for q
    unfolding k1_def using inv p by (simp_all add: process_mut_set slots_inv_upd)
  obtain k' where k': "mark_zombie pid code k1 = Some k'" "slots_inv (k_slots k')"
    "\<forall>q. process_mut q k' = map_option (zombified pid code (p_parent_pid p)) (process_mut q k1)"
    using mark_zombie_processes [OF k1(1,2), of code] by auto
  note f = mark_zombie_frame [OF k'(1)]
  have "k1\<lparr>k_procs := x, k_mem := y\<rparr> = k\<lparr>k_procs := x, k_mem := y\<rparr>" for x y
    by (simp add: k1_def set_process_def upd_slots_def)
  then have e: "k' = k\<lparr>k_procs := k_procs k', k_mem := k_mem k'\<rparr>"
    by (rule trans [OF conjunct1 [OF f]])
  have "rax_bytes k1 = rax_bytes k" unfolding k1_def by (rule rax_bytes_set [OF inv]) (simp_all add: clear_sig_def)
  moreover have "mem_but (rax_bytes k1) (k_mem k1) (k_mem k')"
    using conjunct2 [OF f] by (auto simp: rax_bytes_def intro!: mem_but_store64) blast
  ultimately have "mem_but (rax_bytes k) (k_mem k) (k_mem k')" by (simp add: k1_def)
  then have "delivered pid p True k k'"
    unfolding delivered_def using k'(2,3) k1(3) sig_change_clear [of p s]
    by (intro conjI e exI [of _ "clear_sig s p"] exI [of _ "zombified pid code (p_parent_pid p)"]) auto
  then show ?thesis using k'(1) by (auto simp: k1_def)
qed


lemma delivered_step:
  assumes inv: "slots_inv (k_slots k)" and p: "process_mut pid k = Some p"
    and d: "delivered pid (clear_sig s p) killed (set_process pid (clear_sig s) k) k'"
  shows "delivered pid p killed k k'"
proof -
  define k1 where "k1 = set_process pid (clear_sig s) k"
  have k1: "process_mut q k1 = (if q = pid then Some (clear_sig s p) else process_mut q k)" for q
    unfolding k1_def using inv p by (simp add: process_mut_set)
  have "k1\<lparr>k_procs := x, k_mem := y\<rparr> = k\<lparr>k_procs := x, k_mem := y\<rparr>" for x y
    by (simp add: k1_def set_process_def upd_slots_def)
  then have e: "k' = k\<lparr>k_procs := k_procs k', k_mem := k_mem k'\<rparr>"
    using d unfolding k1_def [symmetric] delivered_def by metis
  have sc: "sig_change p p0" if "sig_change (clear_sig s p) p0" for p0
    using that by (simp add: sig_change_def clear_sig_def)
  have "rax_bytes k1 = rax_bytes k" "k_mem k1 = k_mem k"
    unfolding k1_def by (rule rax_bytes_set [OF inv]) (simp_all add: clear_sig_def)
  moreover have "slots_inv (k_slots k')" using d by (simp add: delivered_def)
  moreover obtain p0 g where p0: "sig_change (clear_sig s p) p0" "killed \<longrightarrow> mem_but (rax_bytes k1) (k_mem k1) (k_mem k')"
      "if killed then \<exists>code. g = zombified pid code (p_parent_pid p) else g = id"
      "\<forall>q. process_mut q k' = map_option g (if q = pid then Some p0 else process_mut q k1)"
    using d unfolding delivered_def k1_def [symmetric] clear_sig_simps by blast
  moreover have "\<forall>q. process_mut q k' = map_option g (if q = pid then Some p0 else process_mut q k)"
    using p0(4) k1 by simp
  ultimately show ?thesis
    unfolding delivered_def using sc [OF p0(1)] by (intro conjI e exI [of _ p0] exI [of _ g]) simp_all
qed

lemma deliver_custom_total:
  assumes inv: "slots_inv (k_slots k)" and p: "process_mut pid k = Some p"
    and st: "\<And>bs. length bs = 160 \<Longrightarrow> \<not> rsp < p_stack_low p + SIGFRAME_SIZE \<Longrightarrow>
      store_virt (k_cr3 k) (rsp - SIGFRAME_SIZE) bs (k_mem k) \<noteq> None"
  shows "\<exists>killed k'. deliver_custom pid krsp sig h rsp k = Some (killed, k') \<and> delivered pid p killed k k'"
proof -
  define k1 where "k1 = set_process pid (clear_sig sig) k"
  have k1: "slots_inv (k_slots k1)" "process_mut pid k1 = Some (clear_sig sig p)"
    "process_mut q k1 = (if q = pid then Some (clear_sig sig p) else process_mut q k)" for q
    unfolding k1_def using inv p by (simp_all add: process_mut_set slots_inv_upd)
  show ?thesis
  proof (cases "rsp < p_stack_low p + SIGFRAME_SIZE")
    case True
    then show ?thesis
      using mark_zombie_delivered [OF inv p, of "128 + of_nat SIGKILL" sig] k1(2)
      by (auto simp: deliver_custom_def k1_def)
  next
    case False
    let ?bs = "qwords (sig_frame krsp sig (p_sig_pending (clear_sig sig p)) k1)"
    obtain m where m: "store_virt (k_cr3 k1) (rsp - SIGFRAME_SIZE) ?bs (k_mem k1) = Some m"
      using st [of ?bs] False by (auto simp: k1_def)
    let ?f = "\<lambda>p. p\<lparr>p_sigframe_rsp := rsp - SIGFRAME_SIZE, p_in_signal := True\<rparr>"
    let ?k' = "kstore (krsp + FR_RSP) (rsp - SIGFRAME_SIZE) (kstore (krsp + FR_RIP) h
          (kstore (krsp + FR_RDI) (of_nat sig) (set_process pid ?f (k1\<lparr>k_mem := m\<rparr>))))"
    have d: "deliver_custom pid krsp sig h rsp k = Some (False, ?k')"
      using k1(2) False m by (simp add: deliver_custom_def k1_def [symmetric] user_store_def Let_def)
    have e: "?k' = k\<lparr>k_procs := k_procs ?k', k_mem := k_mem ?k'\<rparr>"
      by (simp add: k1_def set_process_def upd_slots_def kstore_def)
    have "delivered pid p False k ?k'"
      unfolding delivered_def using k1
      by (intro conjI e exI [of _ "?f (clear_sig sig p)"] exI [of _ id])
        (simp_all add: slots_inv_upd process_mut_set sig_change_def clear_sig_def option.map_id)
    then show ?thesis using d by blast
  qed
qed


lemma delivered_nothing:
  assumes "slots_inv (k_slots k)" "process_mut pid k = Some p"
  shows "delivered pid p False k k"
  unfolding delivered_def using assms
  by (intro conjI exI [of _ p] exI [of _ id]) (simp_all add: sig_change_def option.map_id)

lemma scan_deliver_total:
  assumes "slots_inv (k_slots k)" "process_mut pid k = Some p" "\<forall>s \<in> set sigs. s < 64"
    "\<And>s bs. s \<in> set sigs \<Longrightarrow> pending s p \<Longrightarrow> custom p s \<Longrightarrow> length bs = 160 \<Longrightarrow> \<not> rsp < p_stack_low p + SIGFRAME_SIZE \<Longrightarrow>
      store_virt (k_cr3 k) (rsp - SIGFRAME_SIZE) bs (k_mem k) \<noteq> None"
  shows "\<exists>killed k'. scan_deliver sigs pid krsp rsp k = Some (killed, k') \<and> delivered pid p killed k k'"
  using assms
proof (induction sigs arbitrary: k p)
  case Nil
  then show ?case using delivered_nothing [OF Nil(1,2)] by auto
next
  case (Cons s sigs)
  note inv = Cons.prems(1) and p = Cons.prems(2)
  define k1 where "k1 = set_process pid (clear_sig s) k"
  have k1: "slots_inv (k_slots k1)" "process_mut pid k1 = Some (clear_sig s p)"
    unfolding k1_def using inv p by (simp_all add: process_mut_set slots_inv_upd)
  consider (no) "\<not> pending s p" | (cust) "pending s p" "custom p s" | (kill) "kills p s"
    | (drop) "pending s p" "\<not> custom p s" "\<not> kills p s" by (auto simp: kills_def)
  then show ?case
  proof cases
    case no
    have "\<exists>killed k'. scan_deliver sigs pid krsp rsp k = Some (killed, k') \<and> delivered pid p killed k k'"
      by (rule Cons.IH [OF inv p]) (use Cons.prems in auto)
    then show ?thesis using no p by simp
  next
    case cust
    have "\<exists>killed k'. deliver_custom pid krsp s (handler_of s p) rsp k = Some (killed, k') \<and> delivered pid p killed k k'"
      by (rule deliver_custom_total [OF inv p]) (use Cons.prems(4) [of s] cust in auto)
    then show ?thesis using cust p by (simp add: custom_def)
  next
    case kill
    then show ?thesis using p mark_zombie_delivered [OF inv p, of "128 + of_nat s" s]
      by (auto simp: kills_def SIG_DFL_def SIG_IGN_def)
  next
    case drop
    have "\<exists>killed k'. scan_deliver sigs pid krsp rsp k1 = Some (killed, k') \<and> delivered pid (clear_sig s p) killed k1 k'"
      by (rule Cons.IH [OF k1]) (use Cons.prems(3,4) in \<open>auto simp: pending_clear custom_def k1_def\<close>)
    then obtain killed k' where "scan_deliver sigs pid krsp rsp k1 = Some (killed, k')" "delivered pid p killed k k'"
      using delivered_step [OF inv p] unfolding k1_def by blast
    moreover have "scan_deliver (s # sigs) pid krsp rsp k = scan_deliver sigs pid krsp rsp k1"
      using drop p by (auto simp: kills_def custom_def k1_def)
    ultimately show ?thesis by auto
  qed
qed

text \<open>The user stack of a process with a pending custom handler can take the signal frame,
  in every memory that differs from the current one in saved RAX values only.\<close>
definition stack_ok :: "kernel \<Rightarrow> process \<Rightarrow> bool" where
  "stack_ok k p \<longleftrightarrow> (\<forall>s \<in> {1..<NUM_SIGS}. pending s p \<longrightarrow> custom p s \<longrightarrow>
     (\<forall>m bs. mem_but (rax_bytes k) (k_mem k) m \<longrightarrow> length bs = 160 \<longrightarrow>
        (let rsp = load64 m (p_kernel_rsp p + FR_RSP) in
         rsp < p_stack_low p + SIGFRAME_SIZE \<or> store_virt (p_pml4_phys p) (rsp - SIGFRAME_SIZE) bs m \<noteq> None)))"

lemma deliver_total:
  assumes inv: "slots_inv (k_slots k)" and p: "process_mut pid k = Some p"
    and st: "stack_ok k0 p" "mem_but (rax_bytes k0) (k_mem k0) (k_mem k)" "k_cr3 k = p_pml4_phys p"
  shows "\<exists>killed k'. deliver_pending_signals pid (p_kernel_rsp p) k = Some (killed, k') \<and> delivered pid p killed k k' \<and>
    (killed \<longrightarrow> pid \<noteq> 2)"
proof -
  let ?rsp = "kload (p_kernel_rsp p + FR_RSP) k"
  have "\<exists>killed k'. scan_deliver [1..<NUM_SIGS] pid (p_kernel_rsp p) ?rsp k = Some (killed, k') \<and> delivered pid p killed k k'"
  proof (rule scan_deliver_total [OF inv p])
    show "\<forall>s \<in> set [1..<NUM_SIGS]. s < 64" by (simp add: NUM_SIGS_def)
    show "store_virt (k_cr3 k) (?rsp - SIGFRAME_SIZE) bs (k_mem k) \<noteq> None"
      if "s \<in> set [1..<NUM_SIGS]" "pending s p" "custom p s" "length bs = 160" "\<not> ?rsp < p_stack_low p + SIGFRAME_SIZE" for s bs
      using st that unfolding stack_ok_def kload_def Let_def by (metis atLeastLessThan_iff set_upt)
  qed
  then show ?thesis
    using delivered_nothing [OF inv p] mark_zombie_delivered [OF inv p, of "128 + of_nat SIGKILL" SIGKILL] p
    by (auto simp: deliver_pending_signals_def)
qed


subsection \<open>The selection loop\<close>

lemma sched_next_ready:
  assumes inv: "slots_inv ss" and idle: "Some idle \<in> set ss" "p_pid idle = 2" "p_state idle = Ready"
  shows "\<exists>p. process_mut_if (sched_next cur ss) ss = Some p \<and> p_state p = Ready"
proof -
  define st where "st = (case slot_of cur ss of Some i \<Rightarrow> i | None \<Rightarrow> 0)"
  let ?P = "\<lambda>off. ready_user (ss ! ((st + off) mod MAX_PROCS))"
  show ?thesis
  proof (cases "find ?P [1..<MAX_PROCS]")
    case (Some off)
    then have "?P off" by (auto simp: find_Some_iff)
    then obtain p where p: "ss ! ((st + off) mod MAX_PROCS) = Some p" "p_state p = Ready" by (auto simp: ready_user_iff)
    have "Some p \<in> set ss"
      using p(1) inv by (metis (no_types) MAX_PROCS_def mod_less_divisor nth_mem slots_inv_def zero_less_numeral)
    moreover have "sched_next cur ss = p_pid p" using Some p by (simp add: sched_next_def st_def [symmetric])
    ultimately show ?thesis using p(2) process_mut_if_Some [OF inv] by auto
  next
    case None
    have "ready_idle (Some idle)" using idle by (simp add: ready_idle_def)
    then have "sched_next cur ss = 2"
      using None idle(1) unfolding sched_next_def st_def [symmetric] Let_def by auto
    then show ?thesis using idle process_mut_if_Some [OF inv] by auto
  qed
qed

text \<open>What becomes of the processes that the loop does not choose: a signal may have killed
  one, and a parent that waited for a killed one is Ready.\<close>
definition aged :: "process \<Rightarrow> process \<Rightarrow> bool" where
  "aged p p' \<longleftrightarrow> p_kernel_rsp p' = p_kernel_rsp p \<and>
     (p_state p' = Zombie \<or> p' = p \<or> p_state p = Blocked \<and> p' = p\<lparr>p_state := Ready, p_wait_for_pid := 0\<rparr>)"

lemma aged_refl [simp]: "aged p p"
  by (simp add: aged_def)

lemma aged_trans:
  assumes "aged p p1" "aged p1 p2"
  shows "aged p p2"
proof -
  consider "p_state p2 = Zombie" | "p2 = p1" | "p_state p1 = Blocked" using assms(2) unfolding aged_def by blast
  then show ?thesis
  proof cases
    case 1
    then show ?thesis using assms by (simp add: aged_def)
  next
    case 2
    then show ?thesis using assms(1) by simp
  next
    case 3
    have "p_state p1 = Ready" if "p1 = p\<lparr>p_state := Ready, p_wait_for_pid := 0\<rparr>" unfolding that by simp
    then have "p1 \<noteq> p\<lparr>p_state := Ready, p_wait_for_pid := 0\<rparr>" using 3 by auto
    then have "p1 = p" using assms(1) 3 unfolding aged_def by (metis process_state.distinct(12))
    then show ?thesis using assms(2) by simp
  qed
qed

lemma rel_option_aged_trans: "rel_option aged a b \<Longrightarrow> rel_option aged b c \<Longrightarrow> rel_option aged a c"
  by (cases a; cases b; cases c) (auto intro: aged_trans)

lemma zombified_aged:
  "p_kernel_rsp a = p_kernel_rsp p \<Longrightarrow> p_pid a = pid \<or> a = p \<Longrightarrow> aged p (zombified pid code parent a)"
  by (auto simp: zombified_def aged_def)

lemma delivered_aged:
  assumes "delivered pid p True k k'" "process_mut pid k = Some p"
  shows "rel_option aged (process_mut q k) (process_mut q k')"
proof -
  obtain p0 code where p0: "sig_change p p0"
    "process_mut q k' = map_option (zombified pid code (p_parent_pid p)) (if q = pid then Some p0 else process_mut q k)"
    using assms(1) unfolding delivered_def by auto
  have pid: "p_pid a = r" if "process_mut r k = Some a" for a r
    using that process_mut_if_pid unfolding process_mut_def by simp
  show ?thesis
  proof (cases "q = pid")
    case True
    then show ?thesis using p0(2) sig_changeD [OF p0(1)] assms(2) pid [OF assms(2)] by (simp add: zombified_aged)
  next
    case False
    then show ?thesis using p0(2) by (cases "process_mut q k") (simp_all add: zombified_aged pid)
  qed
qed

definition live :: "kernel \<Rightarrow> u64 set" where
  "live k = {q. \<exists>p. process_mut q k = Some p \<and> p_state p \<noteq> Zombie}"

lemma finite_live [simp]: "finite (live k)"
proof -
  have "live k \<subseteq> pids (k_slots k)"
    using process_mut_if_None [of _ "k_slots k"] by (auto simp: live_def process_mut_def) (metis option.distinct(1))
  then show ?thesis by (rule finite_subset) simp
qed

lemma live_killed:
  assumes "delivered pid p True k k'" "process_mut pid k = Some p" "p_state p \<noteq> Zombie"
  shows "live k' = live k - {pid}"
proof -
  obtain p0 code where p0: "sig_change p p0"
    "\<forall>q. process_mut q k' = map_option (zombified pid code (p_parent_pid p)) (if q = pid then Some p0 else process_mut q k)"
    using assms(1) unfolding delivered_def by auto
  have pid: "p_pid a = q" if "process_mut q k = Some a" for a q
    using that process_mut_if_pid unfolding process_mut_def by simp
  have "p_pid p0 = pid" using sig_changeD(1) [OF p0(1)] pid [OF assms(2)] by simp
  then have "pid \<notin> live k'" using p0(2) by (simp add: live_def zombified_def)
  moreover have "q \<in> live k' \<longleftrightarrow> q \<in> live k" if "q \<noteq> pid" for q
    using that p0(2) pid [of q] by (cases "process_mut q k") (auto simp: live_def zombified_def)
  ultimately have "q \<in> live k' \<longleftrightarrow> q \<in> live k - {pid}" for q by (cases "q = pid") simp_all
  then show ?thesis by blast
qed


text \<open>The state at the start of the loop, and after passes that killed processes.\<close>
definition schedulable :: "kernel \<Rightarrow> bool" where
  "schedulable k \<longleftrightarrow> slots_inv (k_slots k) \<and> (\<exists>idle. process_mut 2 k = Some idle \<and> p_state idle = Ready) \<and>
     (\<forall>q p. process_mut q k = Some p \<longrightarrow> p_state p \<noteq> Running \<and> stack_ok k p)"

definition passed :: "kernel \<Rightarrow> kernel \<Rightarrow> bool" where
  "passed k0 k \<longleftrightarrow> slots_inv (k_slots k) \<and> 2 \<in> live k \<and> mem_but (rax_bytes k0) (k_mem k0) (k_mem k) \<and>
     (\<forall>q. rel_option aged (process_mut q k0) (process_mut q k))"

definition dispatched :: "u64 \<Rightarrow> kernel \<Rightarrow> bool" where
  "dispatched krsp k \<longleftrightarrow> slots_inv (k_slots k) \<and>
     (\<exists>p. process_mut (k_cur k) k = Some p \<and> p_state p = Running \<and> krsp = p_kernel_rsp p \<and>
        k_cr3 k = p_pml4_phys p \<and> k_rsp0 k = p_kernel_stack_top p \<and> k_syscall_kstack k = p_kernel_stack_top p) \<and>
     (\<forall>q p. process_mut q k = Some p \<longrightarrow> p_state p = Running \<longrightarrow> q = k_cur k)"

lemma passed_refl: "schedulable k \<Longrightarrow> passed k k"
  by (auto simp: schedulable_def passed_def live_def intro!: rel_option_reflI)

lemma rax_bytes_aged:
  assumes "\<forall>q. rel_option aged (process_mut q k0) (process_mut q k)"
  shows "rax_bytes k = rax_bytes k0"
proof (rule rax_bytes_cong)
  show "map_option p_kernel_rsp (process_mut q k) = map_option p_kernel_rsp (process_mut q k0)" for q
    using spec [OF assms, of q] by (cases "process_mut q k0"; cases "process_mut q k") (auto simp: aged_def)
qed

lemma passed_step:
  assumes "passed k0 k" "delivered pid p True k k'" "process_mut pid k = Some p" "p_state p \<noteq> Zombie" "pid \<noteq> 2"
  shows "passed k0 k'"
proof -
  have a: "\<forall>q. rel_option aged (process_mut q k0) (process_mut q k)" "mem_but (rax_bytes k0) (k_mem k0) (k_mem k)" "2 \<in> live k"
    using assms(1) by (simp_all add: passed_def)
  have "mem_but (rax_bytes k0) (k_mem k) (k_mem k')" "slots_inv (k_slots k')"
    using assms(2) rax_bytes_aged [OF a(1)] by (simp_all add: delivered_def)
  then show ?thesis
    using a live_killed [OF assms(2-4)] assms(5) delivered_aged [OF assms(2,3)] mem_but_trans [OF a(2)]
    by (auto simp: passed_def intro: rel_option_aged_trans)
qed

lemma passed_process:
  assumes "schedulable k0" "passed k0 k" "process_mut q k = Some p"
  shows "p_state p \<noteq> Running" "p_state p \<noteq> Zombie \<Longrightarrow> stack_ok k0 p"
proof -
  have "rel_option aged (process_mut q k0) (Some p)" using assms(2,3) unfolding passed_def by metis
  then obtain p0 where p0: "process_mut q k0 = Some p0" "aged p0 p" by (cases "process_mut q k0") auto
  have s: "p_state p0 \<noteq> Running" "stack_ok k0 p0" using assms(1) p0(1) by (auto simp: schedulable_def)
  consider "p_state p = Zombie" | "p = p0" | "p = p0\<lparr>p_state := Ready, p_wait_for_pid := 0\<rparr>"
    using p0(2) unfolding aged_def by blast
  then show "p_state p \<noteq> Running" "p_state p \<noteq> Zombie \<Longrightarrow> stack_ok k0 p"
    using s by (cases; simp add: stack_ok_def pending_def custom_def handler_of_def)+
qed


lemma dispatch_chosen:
  assumes k0: "schedulable k0" and ps: "passed k0 k" and n: "process_mut n k = Some p" "p_state p = Ready"
    and d: "delivered n p False (k\<lparr>k_cur := n, k_rsp0 := p_kernel_stack_top p, k_syscall_kstack := p_kernel_stack_top p,
      k_cr3 := p_pml4_phys p\<rparr>) k1"
  shows "dispatched (p_kernel_rsp p) (set_process n (\<lambda>p. p\<lparr>p_state := Running\<rparr>) k1)"
    (is "dispatched _ ?k'")
proof -
  obtain p0 where p0: "sig_change p p0" "\<And>q. process_mut q k1 = (if q = n then Some p0 else process_mut q k)"
    and k1: "slots_inv (k_slots k1)" "k1 = k\<lparr>k_cur := n, k_rsp0 := p_kernel_stack_top p,
      k_syscall_kstack := p_kernel_stack_top p, k_cr3 := p_pml4_phys p, k_procs := k_procs k1, k_mem := k_mem k1\<rparr>"
    using d by (auto simp: delivered_def option.map_id)
  have f: "k_cur k1 = n" "k_rsp0 k1 = p_kernel_stack_top p" "k_syscall_kstack k1 = p_kernel_stack_top p" "k_cr3 k1 = p_pml4_phys p"
    by (subst k1(2); simp)+
  have g: "k_rsp0 ?k' = k_rsp0 k1" "k_syscall_kstack ?k' = k_syscall_kstack k1"
    by (simp_all add: set_process_def upd_slots_def)
  have m: "process_mut q ?k' = (if q = n then Some (p0\<lparr>p_state := Running\<rparr>) else process_mut q k)" for q
    using p0(2) k1(1) by (simp add: process_mut_set)
  have "p_state a \<noteq> Running" if "process_mut q k = Some a" for q a by (rule passed_process(1) [OF k0 ps that])
  then show ?thesis
    unfolding dispatched_def using f g m k1(1) sig_changeD [OF p0(1)] by (auto simp: slots_inv_upd split: if_splits)
qed

lemma sched_loop_returns:
  assumes "schedulable k0" "passed k0 k"
  shows "\<exists>krsp k'. sched_loop k = Some (krsp, k') \<and> dispatched krsp k' \<and> k_cur k' \<in> live k0"
  using assms(2)
proof (induction "card (live k)" arbitrary: k rule: less_induct)
  case less
  note ps = less.prems
  have inv: "slots_inv (k_slots k)" and live2: "2 \<in> live k" using ps by (simp_all add: passed_def)
  obtain idle where idle: "process_mut 2 k = Some idle" "p_state idle = Ready"
  proof -
    obtain i0 i where i: "process_mut 2 k0 = Some i0" "p_state i0 = Ready" "process_mut 2 k = Some i" "p_state i \<noteq> Zombie"
      using assms(1) live2 by (auto simp: schedulable_def live_def)
    moreover have "rel_option aged (process_mut 2 k0) (process_mut 2 k)" using ps by (simp add: passed_def)
    ultimately have "aged i0 i" by simp
    then have "i = i0" using i by (auto simp: aged_def)
    then show ?thesis using that i by simp
  qed
  define n where "n = sched_next (k_cur k) (k_slots k)"
  obtain p where p: "process_mut n k = Some p" "p_state p = Ready"
    using sched_next_ready [OF inv, of idle "k_cur k"] idle process_mut_if_Some [OF inv, of 2 idle]
    by (auto simp: n_def process_mut_def)
  let ?kn = "k\<lparr>k_cur := n, k_rsp0 := p_kernel_stack_top p, k_syscall_kstack := p_kernel_stack_top p, k_cr3 := p_pml4_phys p\<rparr>"
  have kn: "slots_inv (k_slots ?kn)" "process_mut n ?kn = Some p" "k_cr3 ?kn = p_pml4_phys p"
    "mem_but (rax_bytes k0) (k_mem k0) (k_mem ?kn)" using inv p ps by (simp_all add: passed_def)
  have "stack_ok k0 p" using passed_process(2) [OF assms(1) ps p(1)] p(2) by simp
  then obtain killed k1 where d: "deliver_pending_signals n (p_kernel_rsp p) ?kn = Some (killed, k1)"
      "delivered n p killed ?kn k1" "killed \<longrightarrow> n \<noteq> 2"
    using deliver_total [OF kn(1,2) _ kn(4,3)] by blast
  have step: "sched_loop k = (if killed then sched_loop k1
      else Some (p_kernel_rsp p, set_process n (\<lambda>p. p\<lparr>p_state := Running\<rparr>) k1))"
    using p d(1) by (subst sched_loop.simps) (simp add: n_def [symmetric] Let_def)
  show ?case
  proof (cases killed)
    case True
    have "passed k0 ?kn" using ps by (simp add: passed_def live_def)
    then have "passed k0 k1" using passed_step [OF _ _ kn(2)] d(2,3) p(2) True by simp
    moreover have "live k1 = live ?kn - {n}" using live_killed [OF _ kn(2)] d(2) p(2) True by simp
    then have "card (live k1) < card (live k)"
      using p by (intro psubset_card_mono) (auto simp: live_def)
    ultimately show ?thesis using less.hyps [of k1] step True by simp
  next
    case False
    have "rel_option aged (process_mut n k0) (Some p)" using ps p(1) unfolding passed_def by metis
    then have "n \<in> live k0" using p(2) by (cases "process_mut n k0") (auto simp: aged_def live_def)
    moreover have "k_cur k1 = n" using delivered_cur [OF d(2)] by simp
    ultimately show ?thesis using False step dispatch_chosen [OF assms(1) ps p] d(2) by simp
  qed
qed


subsection \<open>The two entries of the scheduler\<close>

definition wakes :: "process \<Rightarrow> process \<Rightarrow> bool" where
  "wakes p p' \<longleftrightarrow> p_state p' = p_state p \<or> p_state p = Blocked \<and> p_state p' = Ready"

lemma wakes_trans: "rel_option wakes a b \<Longrightarrow> rel_option wakes b c \<Longrightarrow> rel_option wakes a c"
  by (cases a; cases b; cases c) (auto simp: wakes_def)

lemma process_bytes_wake:
  assumes "slots_inv (k_slots k)"
  shows "slots_inv (k_slots (fold process_byte cs k)) \<and>
    rel_option wakes (process_mut q k) (process_mut q (fold process_byte cs k))"
  using assms
proof (induction cs arbitrary: k)
  case Nil
  then show ?case by (auto simp: wakes_def intro!: rel_option_reflI)
next
  case (Cons c cs)
  have "slots_inv (k_slots (process_byte c k))"
    using Cons.prems by (simp add: process_byte_slots slots_inv_upd)
  moreover have "rel_option wakes (process_mut q k) (process_mut q (process_byte c k))"
    using Cons.prems by (cases "process_mut_if q (k_slots k)")
      (auto simp: process_mut_def process_byte_slots process_mut_if_upd wakes_def wake_by_def)
  ultimately show ?case using Cons.IH [of "process_byte c k"] wakes_trans by auto
qed

lemma poll_input_wake:
  assumes "slots_inv (k_slots k)"
  shows "slots_inv (k_slots (poll_input k)) \<and> rel_option wakes (process_mut q k) (process_mut q (poll_input k))"
proof -
  define k1 where "k1 = fold process_byte (fst (kbd_read 64 (k_kbd k))) (k\<lparr>k_kbd := snd (kbd_read 64 (k_kbd k))\<rparr>)"
  have "slots_inv (k_slots k1) \<and> rel_option wakes (process_mut q k) (process_mut q k1)"
    unfolding k1_def using process_bytes_wake [of "k\<lparr>k_kbd := snd (kbd_read 64 (k_kbd k))\<rparr>"] assms by (simp add: process_mut_def)
  moreover have "process_input k = fold process_byte (take 64 (k_serial_in k1)) (k1\<lparr>k_serial_in := drop 64 (k_serial_in k1)\<rparr>)"
    by (simp add: process_input_eq k1_def Let_def)
  ultimately show ?thesis
    using process_bytes_wake [of "k1\<lparr>k_serial_in := drop 64 (k_serial_in k1)\<rparr>"] wakes_trans by (auto simp: process_mut_def)
qed




lemma stack_ok_quiet: "p_sig_pending p = 0 \<Longrightarrow> stack_ok k p"
  by (simp add: stack_ok_def pending_def)

definition two_processes :: kernel where
  "two_processes = kernel0 [blank_process 1 Running, blank_process 2 Ready]"

lemma two_processes:
  "slots_inv (k_slots two_processes)" "k_cur two_processes = 1" "poll_input two_processes = two_processes"
  "process_mut 1 two_processes = Some (blank_process 1 Running)"
  "process_mut 2 two_processes = Some (blank_process 2 Ready)"
  "process_mut q two_processes = Some p \<Longrightarrow> q = 1 \<and> p = blank_process 1 Running \<or> q = 2 \<and> p = blank_process 2 Ready"
proof -
  let ?ps = "[blank_process 1 Running, blank_process 2 Ready]"
  show inv: "slots_inv (k_slots two_processes)"
    unfolding two_processes_def using kernel0_inv [of ?ps] by (simp add: MAX_PROCS_def)
  show "k_cur two_processes = 1" by (simp add: two_processes_def)
  show "process_mut 1 two_processes = Some (blank_process 1 Running)" "process_mut 2 two_processes = Some (blank_process 2 Ready)"
    unfolding two_processes_def
    using kernel0_process [of ?ps "blank_process 1 Running"] kernel0_process [of ?ps "blank_process 2 Ready"]
    by (simp_all add: MAX_PROCS_def)
  show "q = 1 \<and> p = blank_process 1 Running \<or> q = 2 \<and> p = blank_process 2 Ready" if "process_mut q two_processes = Some p"
    using that process_mut_if_Some [OF inv] by (auto simp: process_mut_def two_processes_def slots_of_def)
  have "kbd_read 64 keyboard_new = ([], keyboard_new)" by code_simp
  then show "poll_input two_processes = two_processes"
    by (simp add: process_input_eq two_processes_def Let_def kernel0_def)
qed




end
