(* ===== verification/Frames.thy ===== *)
theory Frames imports Fd_Refs Syscall Scheduling begin

text \<open>What the operations of the kernel leave alone: the page table code and the loaders do
  not touch the process table or the open file table, and signals, the scheduler and the
  remaining calls keep every descriptor.\<close>

definition core :: "kernel \<Rightarrow> proc_table \<times> u64 \<times> oft" where
  "core k = (k_procs k, k_cur k, k_oft k)"

lemma core_keeps: "core k' = core k \<Longrightarrow> keeps_fds k k'"
  by (simp add: core_def keeps_fds_def)

lemma core_fields [simp]:
  "core (k\<lparr>k_mem := m\<rparr>) = core k" "core (k\<lparr>k_pmm := pm\<rparr>) = core k" "core (k\<lparr>k_cr3 := r\<rparr>) = core k"
  "core (k\<lparr>k_prov_mask := w\<rparr>) = core k" "core (k\<lparr>k_rsp0 := r\<rparr>) = core k" "core (k\<lparr>k_syscall_kstack := r\<rparr>) = core k"
  "core (k\<lparr>k_sys_rip := r\<rparr>) = core k" "core (k\<lparr>k_sys_rsp := r\<rparr>) = core k" "core (k\<lparr>k_sys_rflags := r\<rparr>) = core k"
  "core (k\<lparr>k_should_schedule := b\<rparr>) = core k" "core (k\<lparr>k_sigreturn_pending := b\<rparr>) = core k"
  "core (k\<lparr>k_sigreturn_frame := fr\<rparr>) = core k" "core (k\<lparr>k_kbd := kb\<rparr>) = core k" "core (k\<lparr>k_serial_in := bs\<rparr>) = core k"
  by (simp_all add: core_def)

lemma core_fold [simp]: "(\<And>x k. core (f x k) = core k) \<Longrightarrow> core (fold f xs k) = core k"
  by (induction xs arbitrary: k) simp_all

lemma core_user_store: "user_store a bs k = Some k' \<Longrightarrow> core k' = core k"
  by (auto simp: user_store_def)

subsection \<open>Paging\<close>

lemma core_paging [simp]:
  "core (put_entry t i v k) = core k" "core (page_free a k) = core k" "core (zero_table p k) = core k"
  "core (or_entry t i fl k) = core k" "core (write_cr3 r k) = core k" "core (switch_cr3 r k) = core k"
  "core (drop_new p t i k) = core k" "core (reclaim n t i k) = core k" "core (restore_cr3 s t k) = core k"
  "core (kstore a v k) = core k"
  by (simp_all add: put_entry_def page_free_def zero_table_def or_entry_def write_cr3_def switch_cr3_def
      drop_new_def reclaim_def restore_cr3_def kstore_def)

lemma core_page_alloc: "page_alloc k = (p, k') \<Longrightarrow> core k' = core k" "pages_alloc n k = (p, k') \<Longrightarrow> core k' = core k"
  by (auto simp: page_alloc_def pages_alloc_def split: prod.splits)

lemma core_get_table:
  "try_get_or_create_table t i k = (r, k') \<Longrightarrow> core k' = core k"
  "get_or_create_table t i k = Some (a, k') \<Longrightarrow> core k' = core k"
  by (auto simp: try_get_or_create_table_def get_or_create_table_def split: if_splits prod.splits dest: core_page_alloc)

lemma core_map_4k: "map_4k va pa fl k = Some k' \<Longrightarrow> core k' = core k"
  by (auto simp: map_4k_def Let_def bind_eq_Some_conv split: if_splits prod.splits dest!: core_get_table)

lemma core_try_map_4k: "try_map_4k va pa fl k = (ok, k') \<Longrightarrow> core k' = core k"
  by (auto simp: try_map_4k_def Let_def split: if_splits prod.splits option.splits dest!: core_get_table)

lemma core_try_map_4k_target: "try_map_4k_target va pa fl tg k = (ok, k') \<Longrightarrow> core k' = core k"
  by (auto simp: try_map_4k_target_def Let_def split: if_splits prod.splits dest!: core_try_map_4k)

lemma core_unmap: "unmap_and_free_empty va k = (r, k') \<Longrightarrow> core k' = core k"
  by (auto simp: unmap_and_free_empty_def unmap_def free_empty_tables_def Let_def split: if_splits prod.splits)

lemma core_provision: "provision_kernel_scratch k = (r, k') \<Longrightarrow> core k' = core k"
  by (auto simp: provision_kernel_scratch_def provision_pt_def Let_def split: if_splits prod.splits dest!: core_page_alloc)

lemma core_cleanup [simp]: "core (cleanup_kernel_scratch pv k) = core k" "core (fail_construction q k) = core k"
  by (auto simp: cleanup_kernel_scratch_def fail_construction_def Let_def split: prod.splits option.splits)

lemma core_destroy [simp]: "core (destroy_uncommitted_pml4 h k) = core k"
proof -
  have 1: "core (destroy_pt b pt k) = core k" for b pt k by (auto simp: destroy_pt_def Let_def intro!: core_fold)
  have 2: "core (destroy_pd b n pd k) = core k" for b n pd k by (auto simp: destroy_pd_def Let_def 1 intro!: core_fold)
  show ?thesis by (auto simp: destroy_uncommitted_pml4_def Let_def 2 intro!: core_fold)
qed

lemma core_copy_user_page: "copy_user_page_through_scratch a p k = Some (ok, k') \<Longrightarrow> core k' = core k"
  by (auto simp: copy_user_page_through_scratch_def Let_def bind_eq_Some_conv split: option.splits if_splits dest!: core_user_store)

lemma try_each_core:
  assumes "\<And>i s ok s'. f i s = Some (ok, s') \<Longrightarrow> core (snd s') = core (snd s)" "try_each f is s = Some (ok, s')"
  shows "core (snd s') = core (snd s)"
  using assms(2)
proof (induction "is" arbitrary: s)
  case (Cons i "is")
  then obtain b s1 where "f i s = Some (b, s1)" "if b then try_each f is s1 = Some (ok, s') else s' = s1"
    by (auto simp: bind_eq_Some_conv split: if_splits)
  then show ?case using assms(1) Cons.IH [of s1] by (cases b) (metis, simp)
qed simp

lemma core_clone_leaf: "clone_leaf fa va sp dp i s = Some (ok, s') \<Longrightarrow> core (snd s') = core (snd s)"
  by (auto simp: clone_leaf_def Let_def bind_eq_Some_conv split: prod.splits if_splits dest!: core_page_alloc core_copy_user_page)

lemma core_each_clone_leaf: "try_each (clone_leaf fa va sp dp) is s = Some (ok, s') \<Longrightarrow> core (snd s') = core (snd s)"
  by (rule try_each_core [OF core_clone_leaf])

lemma core_copy_pde: "copy_pde cu fa pi sp np i s = Some (ok, s') \<Longrightarrow> core (snd s') = core (snd s)"
  by (auto simp: copy_pde_def Let_def split: prod.splits if_splits dest!: core_page_alloc core_each_clone_leaf)

lemma core_each_copy_pde: "try_each (copy_pde cu fa pi sp np) is s = Some (ok, s') \<Longrightarrow> core (snd s') = core (snd s)"
  by (rule try_each_core [OF core_copy_pde])

lemma core_copy_pdpte: "copy_pdpte cu fa sp np i s = Some (ok, s') \<Longrightarrow> core (snd s') = core (snd s)"
  by (auto simp: copy_pdpte_def Let_def split: prod.splits if_splits dest!: core_page_alloc core_each_copy_pde)

lemma core_each_copy_pdpte: "try_each (copy_pdpte cu fa sp np) is s = Some (ok, s') \<Longrightarrow> core (snd s') = core (snd s)"
  by (rule try_each_core [OF core_copy_pdpte])

lemma core_build_root: "build_root cu fa pv k = Some (r, k') \<Longrightarrow> core k' = core k"
  by (auto simp: build_root_def Let_def bind_eq_Some_conv split: prod.splits if_splits
      dest!: core_page_alloc core_each_copy_pdpte)

lemma core_create_pml4: "create_pml4 cu k = Some (r, k') \<Longrightarrow> core k' = core k"
  by (auto simp: create_pml4_def create_pml4_inner_def split: if_splits prod.splits option.splits
      dest!: core_build_root core_provision)

subsection \<open>The loaders\<close>

lemma bind_pair_cases:
  "(do { (r, k) \<leftarrow> m; case r of Inl e \<Rightarrow> f e k | Inr y \<Rightarrow> g y k }) = Some x \<longleftrightarrow>
     (\<exists>e k. m = Some (Inl e, k) \<and> f e k = Some x) \<or> (\<exists>y k. m = Some (Inr y, k) \<and> g y k = Some x)"
  "(do { (r, k) \<leftarrow> m'; case r of None \<Rightarrow> f' k | Some y \<Rightarrow> g' y k }) = Some x \<longleftrightarrow>
     (\<exists>k. m' = Some (None, k) \<and> f' k = Some x) \<or> (\<exists>y k. m' = Some (Some y, k) \<and> g' y k = Some x)"
  by (cases m; auto split: sum.splits) (cases m'; auto split: option.splits)

lemma bind_ret: "(do { k \<leftarrow> m; Some (c, k) }) = Some (x, k') \<longleftrightarrow> m = Some k' \<and> x = c"
  by (cases m) auto

lemma core_release [simp]: "core (lp_release lp k) = core k"
  unfolding lp_release_def by (rule core_fold) (simp split: prod.split)

lemma core_rollback [simp]: "core (lp_rollback lp r k) = core k"
  unfolding lp_rollback_def by (simp, rule trans [OF core_fold]) (auto split: prod.splits option.splits dest!: core_unmap)

lemma core_rollback_error: "rollback_error e lp r k = (x, k') \<Longrightarrow> core k' = core k"
  by (auto simp: rollback_error_def)

lemma core_target_store: "target_store r a bs k = Some k' \<Longrightarrow> core k' = core k"
  by (auto simp: target_store_def bind_eq_Some_conv dest!: core_user_store)

lemma core_reserve: "lp_reserve lp k = (r, k') \<Longrightarrow> core k' = core k"
  by (auto simp: lp_reserve_def split: if_splits option.splits)

lemma core_load_page: "load_page r va lp k = Some (x, k') \<Longrightarrow> core k' = core k"
  by (auto simp: load_page_def Let_def bind_eq_Some_conv split: if_splits prod.splits sum.splits bool.splits
      dest!: core_rollback_error core_reserve core_page_alloc core_try_map_4k_target core_target_store)

lemma core_load_pages: "load_pages r va e lp k = Some (x, k') \<Longrightarrow> core k' = core k"
proof (induction r va e lp k rule: load_pages.induct)
  case (1 r va e lp k)
  show ?case
  proof (cases "va < e")
    case True
    then obtain y k1 where l: "load_page r va lp k = Some (y, k1)"
      using 1(2) by (subst (asm) load_pages.simps) (auto simp: bind_eq_Some_conv)
    show ?thesis
    proof (cases y)
      case (Inr lp1)
      then show ?thesis using 1(2) 1(1) [OF True l refl Inr] l core_load_page [OF l] True
        by (subst (asm) load_pages.simps) (auto split: if_splits dest!: core_rollback_error)
    qed (use 1(2) True l core_load_page [OF l] in \<open>subst (asm) load_pages.simps, auto\<close>)
  qed (use 1(2) in \<open>subst (asm) load_pages.simps, auto\<close>)
qed

lemma core_load_segment: "load_segment data r ph lp k = Some (x, k') \<Longrightarrow> core k' = core k"
  by (auto simp: load_segment_def Let_def bind_pair_cases bind_ret split: if_splits option.splits
      dest!: core_rollback_error core_load_pages core_target_store)

lemma core_load_segments: "load_segments data h r is lp k = Some (x, k') \<Longrightarrow> core k' = core k"
proof (induction "is" arbitrary: lp k)
  case (Cons i "is")
  then show ?case
    by (auto simp: bind_pair_cases split: if_splits dest!: core_rollback_error core_load_segment)
qed simp

lemma core_map_stack: "map_stack n va r k = (x, k') \<Longrightarrow> core k' = core k"
proof (induction n arbitrary: va k)
  case (Suc n)
  then show ?case
    by (auto simp: Let_def split: if_splits prod.splits bool.splits dest!: core_page_alloc core_try_map_4k_target)
qed simp

lemma core_elf_load: "elf_load data r k = Some (x, k') \<Longrightarrow> core k' = core k"
  by (auto simp: elf_load_def Let_def bind_pair_cases split: option.splits dest!: core_load_segments)

lemma core_build_exec_image: "build_exec_image data k = Some (x, k') \<Longrightarrow> core k' = core k"
  unfolding build_exec_image_def bind_pair_cases
  by (elim disjE exE conjE) (auto split: option.splits prod.splits dest!: core_create_pml4 core_elf_load core_map_stack)

lemma core_flat_pages: "flat_pages n data va al fa root k = (x, k') \<Longrightarrow> core k' = core k"
proof (induction n arbitrary: data va al k)
  case (Suc n)
  then show ?case
    by (auto simp: Let_def split: if_splits prod.splits bool.splits dest!: core_page_alloc core_try_map_4k_target)
qed simp

lemma core_flat_stack: "flat_stack sa se al fa root k = (x, k') \<Longrightarrow> core k' = core k"
  by (auto simp: flat_stack_def Let_def split: if_splits prod.splits bool.splits dest!: core_page_alloc core_try_map_4k_target)

lemma core_build_flat_image: "build_flat_image data k = Some (x, k') \<Longrightarrow> core k' = core k"
proof -
  assume b: "build_flat_image data k = Some (x, k')"
  show ?thesis
  proof (cases "data = [] \<or> (\<exists>e. flat_layout (length data) = Inl e)")
    case False
    then obtain n sa se where "flat_layout (length data) = Inr (n, sa, se)" by (cases "flat_layout (length data)") auto
    then show ?thesis
      using b False unfolding build_flat_image_def build_flat_image_inner_def
      by (simp add: bind_pair_cases, elim disjE exE conjE)
        (auto split: sum.splits prod.splits dest!: core_create_pml4 core_flat_pages core_flat_stack)
  qed (use b in \<open>auto simp: build_flat_image_def build_flat_image_inner_def split: if_splits\<close>)
qed

lemma core_build_image: "build_image data magic k = Some (x, k') \<Longrightarrow> core k' = core k"
  by (auto simp: build_image_def bind_eq_Some_conv split: if_splits dest!: core_build_exec_image core_build_flat_image)

subsection \<open>Signals and the scheduler\<close>

lemma keeps_mark_zombie:
  assumes "mark_zombie pid code k = Some k'"
  shows "keeps_fds k k'"
proof -
  let ?z = "\<lambda>p. p\<lparr>p_state := Zombie, p_exit_code := code\<rparr>" and ?w = "\<lambda>p. p\<lparr>p_state := Ready, p_wait_for_pid := 0\<rparr>"
  have z: "keeps_fds k (set_process pid ?z k)" by (rule keeps_set_process) simp_all
  have w: "keeps_fds k (set_process q ?w (kstore a 0 k))" "keeps_fds k (set_process q ?w k)" for q a k
    by (rule keeps_trans [OF core_keeps [OF core_paging(10)]], rule keeps_set_process; simp) (rule keeps_set_process; simp)
  show ?thesis
    using assms keeps_trans [OF z w(1)] keeps_trans [OF z w(2)] z
    by (auto simp: mark_zombie_def bind_eq_Some_conv Let_def split: if_splits option.splits)
qed

lemma keeps_clear_sig: "keeps_fds k (set_process pid (clear_sig s) k)"
  by (rule keeps_set_process) (simp_all add: clear_sig_def)

lemmas keeps_kill = keeps_trans [OF keeps_clear_sig keeps_mark_zombie]

lemma keeps_scan_syscall: "scan_syscall sigs pid r k = Some (r', k') \<Longrightarrow> keeps_fds k k'"
proof (induction sigs arbitrary: r k)
  case (Cons s sigs)
  then show ?case
    by (auto simp: bind_eq_Some_conv split: if_splits intro: keeps_kill keeps_trans [OF keeps_clear_sig])
qed simp

lemma keeps_check_signals: "check_signals_syscall pid k = Some (r, k') \<Longrightarrow> keeps_fds k k'"
  by (auto simp: check_signals_syscall_def bind_eq_Some_conv split: if_splits intro: keeps_kill keeps_scan_syscall)

lemma keeps_deliver_custom:
  assumes "deliver_custom pid krsp s h rsp k = Some (killed, k')"
  shows "keeps_fds k k'"
proof -
  have e: "keeps_fds k (kstore a x (kstore b y (kstore c z (set_process pid (\<lambda>p. p\<lparr>p_sigframe_rsp := fr, p_in_signal := True\<rparr>) k))))"
    for a b c x y z fr k
    by (rule keeps_trans [OF keeps_set_process core_keeps]) simp_all
  have "keeps_fds (set_process pid (clear_sig s) k) k'"
    using assms
    by (auto simp: deliver_custom_def Let_def bind_eq_Some_conv split: if_splits
        intro: keeps_mark_zombie keeps_trans [OF keeps_user_store e])
  then show ?thesis by (rule keeps_trans [OF keeps_clear_sig])
qed

lemma keeps_scan_deliver: "scan_deliver sigs pid krsp rsp k = Some (killed, k') \<Longrightarrow> keeps_fds k k'"
proof (induction sigs arbitrary: k)
  case (Cons s sigs)
  then show ?case
    by (auto simp: bind_eq_Some_conv split: if_splits intro: keeps_kill keeps_trans [OF keeps_clear_sig] keeps_deliver_custom)
qed simp

lemma keeps_deliver: "deliver_pending_signals pid krsp k = Some (killed, k') \<Longrightarrow> keeps_fds k k'"
  by (auto simp: deliver_pending_signals_def bind_eq_Some_conv split: if_splits intro: keeps_kill keeps_scan_deliver)

lemma keeps_cur [simp]: "keeps_fds (k\<lparr>k_cur := c\<rparr>) k' = keeps_fds k k'" "keeps_fds k (k'\<lparr>k_cur := c\<rparr>) = keeps_fds k k'"
  by (simp_all add: keeps_fds_def)

lemma keeps_sched_loop:
  assumes "sched_loop k = Some r"
  shows "keeps_fds k (snd r)"
proof (rule sched_loop.raw_induct [of "\<lambda>k r. keeps_fds k (snd r)", OF _ assms], goal_cases)
  case (1 loop k r)
  have run: "keeps_fds k (set_process q (\<lambda>p. p\<lparr>p_state := Running\<rparr>) k)" for q k by (rule keeps_set_process) simp_all
  have inst: "keeps_fds k (k\<lparr>k_cur := c, k_rsp0 := a, k_syscall_kstack := a, k_cr3 := b\<rparr>)" for a b c
    by (simp add: keeps_fds_def)
  define n where "n = sched_next (k_cur k) (k_slots k)"
  obtain p where p: "process_mut n k = Some p" "p_state p = Ready"
    using 1(2) by (auto simp: Let_def n_def bind_eq_Some_conv split: if_splits)
  let ?k = "k\<lparr>k_cur := n, k_rsp0 := p_kernel_stack_top p, k_syscall_kstack := p_kernel_stack_top p, k_cr3 := p_pml4_phys p\<rparr>"
  obtain killed k1 where d: "deliver_pending_signals n (p_kernel_rsp p) ?k = Some (killed, k1)"
    using 1(2) p by (auto simp: Let_def n_def [symmetric] bind_eq_Some_conv)
  have r: "if killed then loop k1 = Some r else r = (p_kernel_rsp p, set_process n (\<lambda>p. p\<lparr>p_state := Running\<rparr>) k1)"
    using 1(2) p d by (simp add: Let_def n_def [symmetric] split: if_splits)
  have "keeps_fds k k1" using keeps_trans [OF inst keeps_deliver [OF d]] .
  then show ?case using r 1(1) [of k1 r] run [of k1 n] by (cases killed) (auto intro: keeps_trans)
qed

lemma keeps_scheduler:
  "scheduler_tick rsp k = Some (r, k') \<Longrightarrow> keeps_fds k k'"
  "scheduler_switch_exit rsp k = Some (r, k') \<Longrightarrow> keeps_fds k k'"
proof -
  have t: "keeps_fds k (set_process q (\<lambda>p. p\<lparr>p_kernel_rsp := rsp, p_state := st p\<rparr>) k)" for q st k
    by (rule keeps_set_process) simp_all
  show "scheduler_tick rsp k = Some (r, k') \<Longrightarrow> keeps_fds k k'"
    by (auto simp: scheduler_tick_def Let_def bind_eq_Some_conv split: if_splits
        dest!: keeps_sched_loop intro: keeps_trans [OF keeps_process_input keeps_trans [OF t]])
  show "scheduler_switch_exit rsp k = Some (r, k') \<Longrightarrow> keeps_fds k k'"
    by (auto simp: scheduler_switch_exit_def bind_eq_Some_conv dest!: keeps_sched_loop intro: keeps_trans [OF t])
qed

end
