(* ===== verification/Kernel_Inv.thy ===== *)
theory Kernel_Inv imports Frames begin

text \<open>The invariant of the whole kernel: process slots with distinct PIDs below the PID counter,
  and an open file table whose counts are exactly the references of all processes.  Every
  system call, the timer and the input interrupts keep it, so it holds in every state
  the machine reaches after boot.\<close>

subsection \<open>The calls that leave the descriptors alone\<close>

lemma keeps_map_zeroed:
  assumes "map_zeroed va e k = Some r"
  shows "core (snd r) = core k"
proof (rule map_zeroed.raw_induct [of "\<lambda>va e k r. core (snd r) = core k", OF _ assms], goal_cases)
  case (1 loop va e k r)
  then show ?case
    by (cases r) (auto simp: Let_def bind_eq_Some_conv split: if_splits prod.splits dest!: core_page_alloc core_map_4k)
qed

lemma keeps_errno [simp]: "keeps_fds k (set_errno e k)"
  unfolding set_errno_def by (rule keeps_set_process) simp_all

lemma keeps_brk_mmap:
  "sys_brk a k = Some (r, k') \<Longrightarrow> keeps_fds k k'"
  "sys_mmap a n fl k = Some (r, k') \<Longrightarrow> keeps_fds k k'"
proof -
  have b: "keeps_fds k (set_process q (\<lambda>p. p\<lparr>p_brk := f p\<rparr>) k)" for q f k by (rule keeps_set_process) simp_all
  have m: "keeps_fds k k'" if "map_zeroed va e k = Some (ok, k')" for va e k ok k'
    using keeps_map_zeroed [OF that] by (simp add: core_keeps)
  show "sys_brk a k = Some (r, k') \<Longrightarrow> keeps_fds k k'"
    by (auto simp: sys_brk_def bind_eq_Some_conv split: if_splits intro: keeps_trans [OF m] b)
  show "sys_mmap a n fl k = Some (r, k') \<Longrightarrow> keeps_fds k k'"
    by (auto simp: sys_mmap_def Let_def bind_eq_Some_conv split: if_splits
        intro: m keeps_trans [OF m] keeps_trans [OF b] keeps_trans [OF b keeps_trans [OF m]])
qed

lemma keeps_signal_calls:
  "sys_kill q s k = Some (r, k') \<Longrightarrow> keeps_fds k k'"
  "sys_sigaction n act old k = Some (r, k') \<Longrightarrow> keeps_fds k k'"
  "sys_sigreturn k = Some (r, k') \<Longrightarrow> keeps_fds k k'"
  "sys_exit code k = Some (r, k') \<Longrightarrow> keeps_fds k k'"
proof -
  have k: "keeps_fds k (set_process q (\<lambda>p. p\<lparr>p_sig_pending := f p, p_state := g p\<rparr>) k)" for q f g k
    by (rule keeps_set_process) simp_all
  show "sys_kill q s k = Some (r, k') \<Longrightarrow> keeps_fds k k'"
    by (auto simp: sys_kill_def bind_eq_Some_conv k split: if_splits)
  have a: "keeps_fds k (set_process q (\<lambda>p. p\<lparr>p_sigactions := f p\<rparr>) k)" for q f k by (rule keeps_set_process) simp_all
  show "sys_sigaction n act old k = Some (r, k') \<Longrightarrow> keeps_fds k k'"
    by (auto simp: sys_sigaction_def bind_eq_Some_conv a split: if_splits intro: keeps_user_store keeps_trans [OF keeps_user_store a])
  have "keeps_fds k (set_schedule (set_process q (\<lambda>p. p\<lparr>p_sigframe_rsp := 0, p_in_signal := False, p_sig_pending := w\<rparr>)
      (k\<lparr>k_sigreturn_frame := fr, k_sigreturn_pending := True\<rparr>)))" for q w fr
    by (rule keeps_trans [OF core_keeps keeps_trans [OF keeps_set_process keeps_simple(1)]]) simp_all
  then show "sys_sigreturn k = Some (r, k') \<Longrightarrow> keeps_fds k k'"
    by (auto simp: sys_sigreturn_def Let_def bind_eq_Some_conv split: if_splits)
  show "sys_exit code k = Some (r, k') \<Longrightarrow> keeps_fds k k'"
    by (auto simp: sys_exit_def bind_eq_Some_conv
        intro: keeps_trans [OF keeps_simple(3) keeps_trans [OF keeps_mark_zombie keeps_simple(1)]])
qed

lemma keeps_store_fields: "store_fields buf fs k = Some k' \<Longrightarrow> keeps_fds k k'"
  by (induction buf fs k rule: store_fields.induct) (auto simp: bind_eq_Some_conv intro: keeps_trans [OF keeps_user_store])

lemma keeps_getdents_loop: "getdents_loop vn i n ptr k = Some (m, k') \<Longrightarrow> keeps_fds k k'"
proof (induction vn i n ptr k arbitrary: m rule: getdents_loop.induct)
  case (1 vn i n ptr k)
  show ?case
  proof (cases "n = 0 \<or> vn_readdir vn i = None")
    case False
    then obtain d where d: "n \<noteq> 0" "vn_readdir vn i = Some d" by auto
    show ?thesis
    proof (cases "d_reclen d = 0 \<or> unat (d_reclen d) > DIRENT_SIZE")
      case ok: False
      then obtain k1 m1 where "user_store ptr (take (unat (d_reclen d)) (dirent_bytes d)) k = Some k1"
          "getdents_loop vn (i + 1) (n - 1) (ptr + of_nat (unat (d_reclen d))) k1 = Some (m1, k')"
        using 1(2) d by (subst (asm) getdents_loop.simps) (auto simp: Let_def bind_eq_Some_conv unat_eq_0)
      then show ?thesis using 1(1) [OF d refl] ok keeps_trans [OF keeps_user_store] by (auto simp: unat_eq_0)
    qed (use 1(2) d in \<open>subst (asm) getdents_loop.simps, auto simp: unat_eq_0\<close>)
  qed (use 1(2) in \<open>subst (asm) getdents_loop.simps, auto split: option.splits\<close>)
qed

lemma keeps_resolve_relative: "vfs_resolve_relative c q k = Some (r, k') \<Longrightarrow> keeps_fds k k'"
  by (auto simp: vfs_resolve_relative_def Let_def split: if_splits sum.splits intro: keeps_vfs_resolve)

lemma keeps_file_calls:
  "sys_getdents fd d n k = Some (r, k') \<Longrightarrow> keeps_fds k k'"
  "sys_stat path buf k = Some (r, k') \<Longrightarrow> keeps_fds k k'"
  "sys_fstat fd buf k = Some (r, k') \<Longrightarrow> keeps_fds k k'"
  "sys_chdir path k = Some (r, k') \<Longrightarrow> keeps_fds k k'"
  "sys_getcwd buf n k = Some (r, k') \<Longrightarrow> keeps_fds k k'"
  "sys_isatty fd k = Some (r, k') \<Longrightarrow> keeps_fds k k'"
  "sys_tcgetattr fd buf k = Some (r, k') \<Longrightarrow> keeps_fds k k'"
  "sys_tcsetattr fd buf k = Some (r, k') \<Longrightarrow> keeps_fds k k'"
  "sys_uname buf k = Some (r, k') \<Longrightarrow> keeps_fds k k'"
proof -
  show "sys_getdents fd d n k = Some (r, k') \<Longrightarrow> keeps_fds k k'"
    unfolding sys_getdents_def bind_sum_Some
    by (auto simp: bind_eq_Some_conv split: if_splits intro: keeps_getdents_loop)
  show "sys_stat path buf k = Some (r, k') \<Longrightarrow> keeps_fds k k'"
    unfolding sys_stat_def bind_sum_Some
    by (auto simp: bind_eq_Some_conv) (auto simp: bind_eq_Some_conv split: sum.splits
        intro: keeps_resolve_relative keeps_trans [OF keeps_resolve_relative keeps_user_store])
  show "sys_fstat fd buf k = Some (r, k') \<Longrightarrow> keeps_fds k k'"
    unfolding sys_fstat_def bind_sum_Some by (auto simp: bind_eq_Some_conv intro: keeps_user_store)
  have c: "keeps_fds k (set_process q (\<lambda>p. p\<lparr>p_cwd := f p\<rparr>) k)" for q f k by (rule keeps_set_process) simp_all
  show "sys_chdir path k = Some (r, k') \<Longrightarrow> keeps_fds k k'"
    unfolding sys_chdir_def bind_sum_Some
    by (auto simp: bind_eq_Some_conv) (auto split: if_splits sum.splits
        intro: keeps_resolve_relative keeps_trans [OF keeps_resolve_relative c])
  show "sys_getcwd buf n k = Some (r, k') \<Longrightarrow> keeps_fds k k'"
    by (auto simp: sys_getcwd_def Let_def bind_eq_Some_conv split: if_splits intro: keeps_trans [OF keeps_user_store keeps_user_store])
  show "sys_isatty fd k = Some (r, k') \<Longrightarrow> keeps_fds k k'"
    by (auto simp: sys_isatty_def bind_eq_Some_conv)
  have t: "tc_call req fd buf k = Some (r, k') \<Longrightarrow> keeps_fds k k'" for req
    by (auto simp: tc_call_def bind_eq_Some_conv split: if_splits)
      (auto simp: bind_eq_Some_conv tty_ioctl_def Let_def split: if_splits sum.splits intro: keeps_user_store)
  show "sys_tcgetattr fd buf k = Some (r, k') \<Longrightarrow> keeps_fds k k'" "sys_tcsetattr fd buf k = Some (r, k') \<Longrightarrow> keeps_fds k k'"
    by (auto simp: sys_tcgetattr_def sys_tcsetattr_def dest: t)
  show "sys_uname buf k = Some (r, k') \<Longrightarrow> keeps_fds k k'"
    by (auto simp: sys_uname_def bind_eq_Some_conv intro: keeps_store_fields)
qed

subsection \<open>Processes come and go\<close>

text \<open>The table indices that a descriptor table holds.\<close>
definition held :: "int list \<Rightarrow> nat list" where
  "held fds = map nat (filter (\<lambda>i. 0 \<le> i) fds)"

lemma count_held [simp]: "count_list (held fds) j = count_list fds (int j)"
  by (induction fds) (auto simp: held_def)

lemma length_held: "length (held fds) \<le> length fds"
  by (simp add: held_def)

lemma incref_fds_inv:
  assumes "fd_inv_plus xs k" "\<forall>i \<in> set fds. 0 \<le> i \<longrightarrow> 0 < oft_count (k_oft k) (nat i)" "length xs + length fds \<le> 1024"
  shows "fd_inv_plus (held fds @ xs) (k\<lparr>k_oft := incref_fds fds (k_oft k)\<rparr>)"
  using assms
proof (induction fds arbitrary: xs k)
  case Nil
  then show ?case by (simp add: held_def incref_fds_def)
next
  case (Cons i fds)
  show ?case
  proof (cases "0 \<le> i")
    case True
    let ?k = "k\<lparr>k_oft := oft_incref (nat i) (k_oft k)\<rparr>"
    have s: "fd_inv_plus (nat i # xs) ?k" by (rule fd_share [OF Cons.prems(1)]) (use Cons.prems True in auto)
    have "oft_count (k_oft ?k) j = oft_count (k_oft k) j + (if j = nat i then 1 else 0)" for j
      using fd_inv_plusD(4) [OF s, of j] fd_inv_plusD(4) [OF Cons.prems(1), of j] by simp
    then have "\<forall>i \<in> set fds. 0 \<le> i \<longrightarrow> 0 < oft_count (k_oft ?k) (nat i)" using Cons.prems(2) by simp
    then have "fd_inv_plus (held fds @ nat i # xs) (?k\<lparr>k_oft := incref_fds fds (k_oft ?k)\<rparr>)"
      by (intro Cons.IH [OF s]) (use Cons.prems(3) in auto)
    then have "fd_inv_plus (held (i # fds) @ xs) (?k\<lparr>k_oft := incref_fds fds (k_oft ?k)\<rparr>)"
      by (rule fd_inv_plus_perm) (use True in \<open>auto simp: held_def\<close>)
    then show ?thesis using True by (simp add: incref_fds_def)
  next
    case False
    then show ?thesis using Cons.IH [OF Cons.prems(1)] Cons.prems by (simp add: held_def incref_fds_def)
  qed
qed

lemma pids_update:
  "i < length ss \<Longrightarrow> ss ! i = None \<Longrightarrow> pids (ss[i := Some p]) = insert (p_pid p) (pids ss)"
  unfolding pids_def in_set_conv_nth by (auto simp: nth_list_update) (metis option.distinct(1) nth_list_update_neq)+

lemma unat_inc: "x \<noteq> - 1 \<Longrightarrow> unat (x + 1) = unat x + 1" for x :: u64
  using unatSuc [of x] by (simp add: add.commute add_eq_0_iff)

text \<open>A process with a fresh PID takes over the references.\<close>

lemma add_process:
  assumes inv: "fd_inv_plus xs k" and i: "i < length (k_slots k)" "k_slots k ! i = None"
    and c: "p_pid c = next_pid (k_procs k)" "next_pid (k_procs k) \<noteq> 0" "next_pid (k_procs k) \<noteq> - 1"
    and fds: "fds_ok (p_fds c)" "\<And>j. count_list xs j = count_list (p_fds c) (int j)"
    and k': "k_slots k' = (k_slots k)[i := Some c]" "next_pid (k_procs k') = next_pid (k_procs k) + 1" "k_oft k' = k_oft k"
  shows "fd_inv k'"
proof -
  note D = fd_inv_plusD [OF inv]
  have new: "next_pid (k_procs k) \<notin> pids (k_slots k)" using D(5) by auto
  have up: "unat (next_pid (k_procs k) + 1) = unat (next_pid (k_procs k)) + 1"
    using unat_inc [OF c(3)] .
  have v: "fd_view (k_slots k') = (fd_view (k_slots k))[i := Some (p_pid c, p_fds c)]"
    by (simp add: k' fd_view_def map_update)
  have p: "pids (k_slots k') = insert (next_pid (k_procs k)) (pids (k_slots k))"
    unfolding k' using pids_update [OF i, of c] c(1) by simp
  have "slots_inv (k_slots k')"
    unfolding slots_inv_def k'
  proof (intro conjI allI impI)
    show "length ((k_slots k)[i := Some c]) = MAX_PROCS" using D(1) by (simp add: slots_inv_def)
    show "0 \<notin> pids ((k_slots k)[i := Some c])" using p D(1) c(2) by (simp add: k'(1) slots_inv_def)
    fix a b p q
    assume ab: "a < length ((k_slots k)[i := Some c])" "b < length ((k_slots k)[i := Some c])"
      "(k_slots k)[i := Some c] ! a = Some p \<and> (k_slots k)[i := Some c] ! b = Some q \<and> p_pid p = p_pid q"
    have fresh: "p_pid r \<noteq> p_pid c" if "k_slots k ! d = Some r" "d < length (k_slots k)" for d r
      using new c(1) that unfolding pids_def by (auto simp: in_set_conv_nth)
    have old: "a = b" if "k_slots k ! a = Some p" "k_slots k ! b = Some q"
      using D(1) ab that unfolding slots_inv_def by (metis length_list_update)
    show "a = b"
    proof (rule ccontr)
      assume ne: "a \<noteq> b"
      consider "a = i" | "b = i" | "a \<noteq> i" "b \<noteq> i" by blast
      then show False
      proof cases
        case 1
        then have "p = c" "k_slots k ! b = Some q" "b < length (k_slots k)" using ab ne i by simp_all
        then show False using fresh [of b q] ab(3) by simp
      next
        case 2
        then have "q = c" "k_slots k ! a = Some p" "a < length (k_slots k)" using ab ne i by simp_all
        then show False using fresh [of a p] ab(3) by simp
      next
        case 3
        then show False using old ab(3) ne by simp
      qed
    qed
  qed
  moreover have "view_ok (fd_view (k_slots k'))" unfolding v by (rule view_ok_update [OF D(3) fds(1)])
  moreover have "refs (fd_view (k_slots k')) j = refs (fd_view (k_slots k)) j + count_list xs j" for j
    using refs_update [of i "fd_view (k_slots k)" "Some (p_pid c, p_fds c)" j] i fds(2) [of j]
    unfolding v by (simp add: slot_refs_def fd_view_def)
  moreover have "\<forall>q \<in> pids (k_slots k'). unat q < unat (next_pid (k_procs k'))"
    unfolding p k'(2) up using D(5) by auto
  ultimately show ?thesis using D(2,4) by (simp add: fd_inv_def fd_inv_plus_def k'(3))
qed


lemma core_build_frame: "build_fork_frame st k = (krsp, k') \<Longrightarrow> core k' = core k"
  by (auto simp: build_fork_frame_def write_frame_def Let_def)

lemma fork_install_inv:
  assumes inv: "fd_inv k" and c: "core k2 = core k" and p: "process_mut (k_cur k) k = Some p"
    and wrap: "next_pid (k_procs k) \<noteq> - 1" and f: "fork_install p h cb k2 = (r, k')"
  shows "fd_inv k'"
proof -
  obtain krsp k3 where b: "build_fork_frame (cb + KERNEL_STACK_SIZE) k2 = (krsp, k3)" by fastforce
  have c3: "k_procs k3 = k_procs k" "k_oft k3 = k_oft k" using core_build_frame [OF b] c by (simp_all add: core_def)
  note D = fd_inv_plusD [OF inv [unfolded fd_inv_def]]
  let ?n = "next_pid (k_procs k)"
  have pid: "k_cur k \<in> pids (k_slots k)"
    using p process_mut_if_None [of "k_cur k" "k_slots k"] by (simp add: process_mut_def)
  have n0: "?n \<noteq> 0" using D(5) pid by fastforce
  show ?thesis
  proof (cases "find (\<lambda>i. k_slots k ! i = None) [0..<length (k_slots k)]")
    case None
    define k4 where "k4 = k3\<lparr>k_procs := (k_procs k)\<lparr>next_pid := ?n + 1\<rparr>\<rparr>"
    have "k' = page_free cb (destroy_uncommitted_pml4 h k4)"
      using f b c3 None by (simp add: fork_install_def Let_def k4_def)
    then have "core k' = core k4" by simp
    then have k': "k_slots k' = k_slots k" "next_pid (k_procs k') = ?n + 1" "k_oft k' = k_oft k"
      by (simp_all add: core_def k4_def c3)
    have "\<forall>q \<in> pids (k_slots k). unat q < unat (?n + 1)" using D(5) unat_inc [OF wrap] by auto
    then show ?thesis using inv k' by (simp add: fd_inv_def fd_inv_plus_def)
  next
    case (Some i)
    then have i: "i < length (k_slots k)" "k_slots k ! i = None" by (auto simp: find_upt_Some_iff)
    have ok: "fds_ok (p_fds p)" by (rule cur_fds_ok [OF inv [unfolded fd_inv_def] p])
    have pos: "\<forall>j \<in> set (p_fds p). 0 \<le> j \<longrightarrow> 0 < oft_count (k_oft k) (nat j)"
    proof (intro ballI impI)
      fix j assume j: "j \<in> set (p_fds p)" "0 \<le> j"
      then obtain fd where "fd < MAX_FDS" "p_fds p ! fd = j" using ok by (auto simp: fds_ok_def in_set_conv_nth)
      then show "0 < oft_count (k_oft k) (nat j)" using fd_held [OF inv [unfolded fd_inv_def] p] j(2) by blast
    qed
    let ?k = "k\<lparr>k_oft := incref_fds (p_fds p) (k_oft k)\<rparr>"
    have h: "fd_inv_plus (held (p_fds p)) ?k"
      using incref_fds_inv [OF inv [unfolded fd_inv_def] pos] ok by (simp add: fds_ok_def MAX_FDS_def)
    obtain ur kt kr kb where "k_slots k' = (k_slots k)[i := Some (fork_process p ?n (h_phys h) ur kt kr kb)]"
      "next_pid (k_procs k') = ?n + 1" "k_oft k' = incref_fds (p_fds p) (k_oft k)"
      using f b c3 Some by (auto simp: fork_install_def Let_def)
    then show ?thesis
      by (intro add_process [OF h, of i "fork_process p ?n (h_phys h) ur kt kr kb"])
        (use i n0 wrap ok in \<open>auto simp: fork_process_def\<close>)
  qed
qed

lemma sys_fork_inv:
  assumes inv: "fd_inv k" and c: "sys_fork k = Some (r, k')" and wrap: "next_pid (k_procs k) \<noteq> - 1"
  shows "fd_inv k'"
proof -
  obtain p where p: "process_mut (k_cur k) k = Some p" using c by (auto simp: sys_fork_def bind_eq_Some_conv)
  obtain cb k1 where a: "pages_alloc 3 k = (cb, k1)" by (cases "pages_alloc 3 k")
  have c1: "core k1 = core k" using core_page_alloc(2) [OF a] .
  show ?thesis
  proof (cases "cb = 0")
    case True
    then have "core k' = core k" using c p a c1 by (simp add: sys_fork_def)
    then show ?thesis using inv keeps_inv [OF core_keeps] by (simp add: fd_inv_def)
  next
    case False
    then obtain root k2 where cr: "create_pml4 True k1 = Some (root, k2)"
      using c p a by (auto simp: sys_fork_def bind_eq_Some_conv)
    have c2: "core k2 = core k" using core_create_pml4 [OF cr] c1 by simp
    show ?thesis
    proof (cases root)
      case None
      then have "core k' = core k" using c p a False cr c2 by (auto simp: sys_fork_def)
      then show ?thesis using inv keeps_inv [OF core_keeps] by (simp add: fd_inv_def)
    next
      case (Some h)
      then have "fork_install p h cb k2 = (r, k')" using c p a False cr by (auto simp: sys_fork_def)
      then show ?thesis using fork_install_inv [OF _ _ p] inv c2 wrap by blast
    qed
  qed
qed


lemma close_fds_inv:
  assumes "fd_inv k" "close_fds fds k = Some k'" "\<forall>fd \<in> set fds. fd < MAX_FDS"
  shows "fd_inv k'"
  using assms
proof (induction fds arbitrary: k)
  case (Cons fd fds)
  obtain p where p: "process_mut (k_cur k) k = Some p"
    using Cons.prems(2) by (auto simp: cur_fds_def bind_eq_Some_conv)
  show ?case
  proof (cases "p_fds p ! fd \<ge> 0")
    case True
    then obtain k1 where d: "oft_decref (nat (p_fds p ! fd)) (set_fd fd (- 1) k) = Some k1" "close_fds fds k1 = Some k'"
      using Cons.prems(2) p by (auto simp: cur_fds_def bind_eq_Some_conv)
    have "fd_inv k1"
      using fd_release [OF fd_clear [OF Cons.prems(1) [unfolded fd_inv_def] p _ True] d(1)] Cons.prems(3)
      by (simp add: fd_inv_def)
    then show ?thesis using Cons.IH d(2) Cons.prems(3) by simp
  next
    case False
    then show ?thesis using Cons.IH [OF Cons.prems(1)] Cons.prems(2,3) p by (simp add: cur_fds_def)
  qed
qed simp

lemma sys_exec_inv:
  assumes inv: "fd_inv k" and c: "sys_exec path k = Some (r, k')"
  shows "fd_inv k'"
proof -
  obtain q where q: "cstr_from_user path PATH_MAX k = Some q" using c by (auto simp: sys_exec_def bind_eq_Some_conv)
  show ?thesis
  proof (cases q)
    case (Inr bs)
    obtain w k1 where w: "vfs_resolve bs k = Some (w, k1)" using c q Inr by (auto simp: sys_exec_def bind_eq_Some_conv)
    have i1: "fd_inv k1" using keeps_inv [OF keeps_vfs_resolve [OF w]] inv by (simp add: fd_inv_def)
    show ?thesis
    proof (cases "\<exists>v data magic. w = Inr v \<and> exec_data (k_vnodes k1 v) k1 = Some (data, magic)")
      case True
      then obtain v data magic where d: "w = Inr v" "exec_data (k_vnodes k1 v) k1 = Some (data, magic)" by blast
      obtain im k2 where b: "build_image data magic k1 = Some (im, k2)"
        using c q Inr w d by (auto simp: sys_exec_def bind_eq_Some_conv)
      have i2: "fd_inv k2" using keeps_inv [OF core_keeps [OF core_build_image [OF b]]] i1 by (simp add: fd_inv_def)
      show ?thesis
      proof (cases im)
        case (Inl e)
        then show ?thesis using c q Inr w d b i2 by (auto simp: sys_exec_def bind_eq_Some_conv)
      next
        case im: (Inr t)
        obtain ent ur sl rt where t: "t = (ent, ur, sl, rt)" by (cases t)
        have "close_fds [3..<MAX_FDS] (exec_commit ent ur sl rt k2) = Some k'"
          using c q Inr w d b im t by (auto simp: sys_exec_def bind_eq_Some_conv)
        moreover have "keeps_fds k2 (exec_commit ent ur sl rt k2)"
          unfolding exec_commit_def by (rule keeps_trans [OF keeps_set_process core_keeps]) simp_all
        then have "fd_inv (exec_commit ent ur sl rt k2)" using keeps_inv i2 by (simp add: fd_inv_def)
        ultimately show ?thesis using close_fds_inv by simp
      qed
    next
      case False
      then have "k' = k1"
        using c q Inr w by (auto simp: sys_exec_def bind_eq_Some_conv split: sum.splits option.splits)
      then show ?thesis using i1 by simp
    qed
  qed (use c q inv in \<open>auto simp: sys_exec_def bind_eq_Some_conv\<close>)
qed

text \<open>A process leaves the table and the code holds its references.\<close>

lemma remove_process:
  assumes inv: "fd_inv_plus xs k" and c: "process_mut pid k = Some c"
    and k': "k_slots k' = take_process pid (k_slots k)" "next_pid (k_procs k') = next_pid (k_procs k)" "k_oft k' = k_oft k"
  shows "fd_inv_plus (held (p_fds c) @ xs) k'"
proof -
  note D = fd_inv_plusD [OF inv]
  obtain j where j: "slot_of pid (k_slots k) = Some j" "k_slots k ! j = Some c"
    using c by (auto simp: process_mut_def process_mut_if_def split: option.splits)
  then have l: "j < length (k_slots k)" using slot_of_Some by blast
  have s: "k_slots k' = (k_slots k)[j := None]" using j by (simp add: k' take_process_def)
  have nth: "k_slots k' ! i = (if i = j then None else k_slots k ! i)" if "i < length (k_slots k)" for i
    using that by (simp add: s)
  have v: "fd_view (k_slots k') = (fd_view (k_slots k))[j := None]" by (simp add: s fd_view_def map_update)
  have sub: "pids (k_slots k') \<subseteq> pids (k_slots k)"
    unfolding pids_def s using set_update_subset_insert [of "k_slots k" j None] by auto
  have "i = i'" if "i < length (k_slots k)" "i' < length (k_slots k)" "k_slots k' ! i = Some p" "k_slots k' ! i' = Some q"
    "p_pid p = p_pid q" for i i' p q
    using D(1) that nth unfolding slots_inv_def by (metis option.distinct(1))
  then have "slots_inv (k_slots k')"
    using D(1) sub unfolding slots_inv_def s by (metis length_list_update subsetD)
  moreover have "view_ok (fd_view (k_slots k'))"
    using D(3) set_update_subset_insert [of "fd_view (k_slots k)" j None] by (auto simp: v view_ok_def)
  moreover have "refs (fd_view (k_slots k)) i = refs (fd_view (k_slots k')) i + count_list (held (p_fds c)) i" for i
    using refs_update [of j "fd_view (k_slots k)" None i] l j(2) unfolding v by (simp add: slot_refs_def fd_view_def)
  ultimately show ?thesis using D(2,4,5) sub by (auto simp: fd_inv_plus_def k'(2,3))
qed

lemma cleanup_fds_inv: "fd_inv_plus (held fds @ xs) k \<Longrightarrow> cleanup_fds fds k = Some k' \<Longrightarrow> fd_inv_plus xs k'"
proof (induction fds arbitrary: k)
  case (Cons i fds)
  show ?case
  proof (cases "0 \<le> i")
    case True
    then obtain k1 where "oft_decref (nat i) k = Some k1" "cleanup_fds fds k1 = Some k'"
      using Cons.prems(2) by (auto simp: bind_eq_Some_conv)
    then show ?thesis using Cons.IH fd_release [of "nat i" "held fds @ xs" k] Cons.prems(1) True by (simp add: held_def)
  qed (use Cons in \<open>auto simp: held_def bind_eq_Some_conv\<close>)
qed (simp add: held_def)

lemma reap_inv:
  assumes inv: "fd_inv k" and c: "reap pid ws k = Some (r, k')"
  shows "fd_inv k'"
proof -
  obtain p where p: "process_mut pid k = Some p" using c by (auto simp: reap_def bind_eq_Some_conv)
  obtain k1 where k1: "(if ws \<noteq> 0 then user_store ws (le_bytes 8 (p_exit_code p)) k else Some k) = Some k1"
    using c p by (auto simp: reap_def bind_eq_Some_conv)
  have c1: "core k1 = core k" using k1 by (auto split: if_splits dest: core_user_store)
  define k2 where "k2 = k1\<lparr>k_procs := (k_procs k1)\<lparr>slots := take_process pid (k_slots k1), proc_count := proc_count (k_procs k1) - 1\<rparr>\<rparr>"
  obtain k3 where k3: "cleanup_fds (p_fds p) k2 = Some k3" using c p k1 unfolding k2_def by (auto simp: reap_def bind_eq_Some_conv Let_def)
  have "fd_inv_plus (held (p_fds p) @ []) k2"
    by (rule remove_process [OF inv [unfolded fd_inv_def] p]) (use c1 in \<open>simp_all add: k2_def core_def\<close>)
  then have i3: "fd_inv_plus [] k3" using cleanup_fds_inv k3 by blast
  have "core k' = core k3" using c p k1 k3 unfolding k2_def by (auto simp: reap_def Let_def)
  then show ?thesis using keeps_inv [OF core_keeps] i3 by (simp add: fd_inv_def)
qed

lemma sys_waitpid_inv:
  assumes inv: "fd_inv k" and c: "sys_waitpid q ws fl k = Some (r, k')"
  shows "fd_inv k'"
proof -
  have w: "keeps_fds k (set_schedule (set_process q (\<lambda>p. p\<lparr>p_wait_for_pid := a, p_state := Blocked\<rparr>) k))" for q a
    by (rule keeps_trans [OF keeps_set_process keeps_simple(1)]) simp_all
  show ?thesis
    using c inv keeps_inv [OF w] reap_inv [OF inv]
    by (auto simp: sys_waitpid_def fd_inv_def bind_eq_Some_conv split: option.splits if_splits)
qed


subsection \<open>Every call\<close>

lemma keeps_fd_inv: "keeps_fds k k' \<Longrightarrow> fd_inv k \<Longrightarrow> fd_inv k'"
  unfolding fd_inv_def by (rule keeps_inv)

lemma run_handler_inv:
  assumes "fd_inv k" "next_pid (k_procs k) \<noteq> - 1" "run_handler ticks h a b c d k = Some (r, k')"
  shows "fd_inv k'"
proof -
  note keeps = keeps_fd_inv [OF _ assms(1)] and c = assms(3)
  show ?thesis
  proof (cases h)
    case H_exit with c show ?thesis by (auto intro: keeps [OF keeps_signal_calls(4)])
  next
    case H_write with c show ?thesis by (auto intro: write_calls_inv [OF assms(1)])
  next
    case H_read with c show ?thesis by (auto intro: read_calls_inv [OF assms(1)])
  next
    case H_brk with c show ?thesis by (auto intro: keeps [OF keeps_brk_mmap(1)])
  next
    case H_uname with c show ?thesis by (auto intro: keeps [OF keeps_file_calls(9)])
  next
    case H_fork with c show ?thesis by (auto intro: sys_fork_inv [OF assms(1) _ assms(2)])
  next
    case H_exec with c show ?thesis by (auto intro: sys_exec_inv [OF assms(1)])
  next
    case H_waitpid with c show ?thesis by (auto intro: sys_waitpid_inv [OF assms(1)])
  next
    case H_mmap with c show ?thesis by (auto intro: keeps [OF keeps_brk_mmap(2)])
  next
    case H_dup with c show ?thesis by (auto intro: sys_dup_inv [OF assms(1)])
  next
    case H_dup2 with c show ?thesis by (auto intro: sys_dup2_inv [OF assms(1)])
  next
    case H_pipe with c show ?thesis by (auto intro: sys_pipe_inv [OF assms(1)])
  next
    case H_kill with c show ?thesis by (auto intro: keeps [OF keeps_signal_calls(1)])
  next
    case H_sigaction with c show ?thesis by (auto intro: keeps [OF keeps_signal_calls(2)])
  next
    case H_sigreturn with c show ?thesis by (auto intro: keeps [OF keeps_signal_calls(3)])
  next
    case H_open with c show ?thesis by (auto intro: sys_open_inv [OF assms(1)])
  next
    case H_close with c show ?thesis by (auto intro: sys_close_inv [OF assms(1)])
  next
    case H_read_vfs with c show ?thesis by (auto intro: read_calls_inv [OF assms(1)])
  next
    case H_write_vfs with c show ?thesis by (auto intro: write_calls_inv [OF assms(1)])
  next
    case H_lseek with c show ?thesis by (auto intro: sys_lseek_inv [OF assms(1)])
  next
    case H_getdents with c show ?thesis by (auto intro: keeps [OF keeps_file_calls(1)])
  next
    case H_stat with c show ?thesis by (auto intro: keeps [OF keeps_file_calls(2)])
  next
    case H_fstat with c show ?thesis by (auto intro: keeps [OF keeps_file_calls(3)])
  next
    case H_chdir with c show ?thesis by (auto intro: keeps [OF keeps_file_calls(4)])
  next
    case H_getcwd with c show ?thesis by (auto intro: keeps [OF keeps_file_calls(5)])
  next
    case H_isatty with c show ?thesis by (auto intro: keeps [OF keeps_file_calls(6)])
  next
    case H_tcgetattr with c show ?thesis by (auto intro: keeps [OF keeps_file_calls(7)])
  next
    case H_tcsetattr with c show ?thesis by (auto intro: keeps [OF keeps_file_calls(8)])
  qed (use c assms(1) in \<open>auto simp: sys_getpid_def sys_nanosleep_def sys_reboot_def split: if_splits\<close>)
qed

lemma syscall_handler_inv:
  assumes "fd_inv k" "next_pid (k_procs k) \<noteq> - 1" "syscall_handler ticks table num a b c d k = Some (r, k')"
  shows "fd_inv k'"
proof -
  obtain s k1 where s: "check_signals_syscall (k_cur k) k = Some (s, k1)"
    using assms(3) by (auto simp: syscall_handler_def bind_eq_Some_conv)
  note kp = keeps_check_signals [OF s]
  have "fd_inv k1" "next_pid (k_procs k1) \<noteq> - 1"
    using keeps_fd_inv [OF kp assms(1)] kp assms(2) by (simp_all add: keeps_fds_def)
  then show ?thesis
    using assms(3) s run_handler_inv keeps_fd_inv [OF keeps_simple(1)]
    by (auto simp: syscall_handler_def split: if_splits option.splits)
qed

lemma syscall_entry_inv:
  assumes "fd_inv k" "next_pid (k_procs k) \<noteq> - 1" "syscall_entry ticks table rsp rip rflags args k = Some (e, k')"
  shows "fd_inv k'"
proof -
  obtain num a b c d where args: "args = (num, a, b, c, d)" by (cases args)
  let ?k = "k\<lparr>k_sys_rsp := rsp, k_sys_rip := rip, k_sys_rflags := rflags\<rparr>"
  have k0: "fd_inv ?k" "next_pid (k_procs ?k) \<noteq> - 1" using keeps_fd_inv [OF core_keeps assms(1), of ?k] assms(2) by simp_all
  obtain rax k1 where h: "syscall_handler ticks table num a b c d ?k = Some (rax, k1)"
    using assms(3) args by (auto simp: syscall_entry_def bind_eq_Some_conv Let_def)
  have i1: "fd_inv k1" by (rule syscall_handler_inv [OF k0 h])
  have x: "keeps_fds k (snd (exit_or_block rax st k))" for st k
    by (rule core_keeps) (simp add: exit_or_block_def Let_def)
  show ?thesis
  proof (cases "k_should_schedule k1")
    case True
    from True obtain r r' where "scheduler_switch_exit r (snd (exit_or_block rax (k_syscall_kstack k) k1)) = Some (r', k')"
      using assms(3) args h by (auto simp: syscall_entry_def bind_eq_Some_conv Let_def split: prod.splits)
    then show ?thesis using keeps_fd_inv [OF keeps_trans [OF x keeps_scheduler(2)] i1] by blast
  next
    case False
    then show ?thesis using assms(3) args h i1 by (auto simp: syscall_entry_def Let_def)
  qed
qed


subsection \<open>Boot\<close>

lemma fd_inv_empty:
  assumes "k_slots k = replicate MAX_PROCS None" "k_oft k = oft_new"
  shows "fd_inv k"
  using assms
  by (auto simp: fd_inv_def fd_inv_plus_def slots_inv_def pids_def fd_view_def view_ok_def refs_def slot_refs_def
      oft_inv_def oft_count_def oft_new_def sum_list_replicate)

lemma fd_table_new_ok: "fds_ok fd_table_new" "count_list fd_table_new (int j) = 0"
  by (auto simp: fds_ok_def fd_table_new_def count_list_0_iff OFT_SIZE_def)

lemma set_slot_inv:
  assumes "fd_inv k" "next_pid (k_procs k) = of_nat i + 1" "i < 2" "k_slots k ! i = None" "p_pid c = of_nat i + 1" "p_fds c = fd_table_new"
  shows "fd_inv (set_slot i c k)"
proof (rule add_process [OF assms(1) [unfolded fd_inv_def], of i c])
  show "i < length (k_slots k)"
    using fd_inv_plusD(1) [OF assms(1) [unfolded fd_inv_def]] assms(3) by (simp add: slots_inv_def MAX_PROCS_def)
qed (use assms less_2_cases [OF assms(3)] in \<open>auto simp: set_slot_def fd_table_new_ok\<close>)

lemma init_stdio_inv:
  assumes inv: "fd_inv k" and p: "k_slots k ! 0 = Some p" "p_fds p = fd_table_new"
  shows "fd_inv (init_stdio k)"
proof (cases "oft_alloc (devfs_get_vnode DevTtyS0) 2 0x1B6 (k_oft k)")
  case (Pair r t)
  show ?thesis
  proof (cases r)
    case (Inr i)
    note D = fd_inv_plusD [OF inv [unfolded fd_inv_def]]
    note A = oft_alloc_cnt [OF D(2) Pair [unfolded Inr]]
    obtain f where f: "t ! i = Some f" using A oft_count_pos [of t i] by auto
    let ?t = "t[i := Some (f\<lparr>of_refcount := 3\<rparr>)]" and ?fds = "(p_fds p)[0 := int i, 1 := int i, 2 := int i]"
    have l: "0 < length (k_slots k)" using D(1) by (simp add: slots_inv_def MAX_PROCS_def)
    have k': "k_slots (init_stdio k) = (k_slots k)[0 := Some (p\<lparr>p_fds := ?fds\<rparr>)]" "k_oft (init_stdio k) = ?t"
      "next_pid (k_procs (init_stdio k)) = next_pid (k_procs k)"
      using Pair Inr p f by (simp_all add: init_stdio_def)
    have v: "fd_view (k_slots (init_stdio k)) = (fd_view (k_slots k))[0 := Some (p_pid p, ?fds)]"
      by (simp add: k' fd_view_def map_update)
    have fds: "fds_ok ?fds" unfolding p(2) by (intro fds_ok_update fd_table_new_ok) (use A in auto)
    have cl: "count_list ?fds (int j) = (if j = i then 3 else 0)" for j
      unfolding p(2) fd_table_new_def MAX_FDS_def by (simp add: numeral_eq_Suc)
    have "refs (fd_view (k_slots (init_stdio k))) j = refs (fd_view (k_slots k)) j + (if j = i then 3 else 0)" for j
      using refs_update [of 0 "fd_view (k_slots k)" "Some (p_pid p, ?fds)" j] l p cl [of j] fd_table_new_ok(2) [of j]
      unfolding v by (simp add: slot_refs_def fd_view_def)
    moreover have "oft_count ?t = (oft_count (k_oft k))(i := 3)" "oft_inv ?t" "oft_count (k_oft k) i = 0"
      using A oft_count_update [of t i "Some (f\<lparr>of_refcount := 3\<rparr>)"] oft_inv_update [of t "Some (f\<lparr>of_refcount := 3\<rparr>)" i]
      by (auto simp: oft_count_def fun_eq_iff)
    moreover have "view_ok (fd_view (k_slots (init_stdio k)))" unfolding v by (rule view_ok_update [OF D(3) fds])
    moreover have u: "k_slots (init_stdio k) = upd_process (p_pid p) (\<lambda>p. p\<lparr>p_fds := ?fds\<rparr>) (k_slots k)"
      using slot_of_inv [OF D(1) l p(1)] p(1) by (simp add: k'(1) upd_process_def)
    moreover have "pids (k_slots (init_stdio k)) = pids (k_slots k)" "slots_inv (k_slots (init_stdio k))"
      unfolding u using D(1) by (simp_all add: pids_upd slots_inv_upd)
    ultimately show ?thesis using D(4,5) by (auto simp: fd_inv_def fd_inv_plus_def k'(2,3))
  qed (use Pair inv in \<open>simp add: init_stdio_def\<close>)
qed


lemma core_init_frame: "build_init_frame st e r c k = (krsp, k') \<Longrightarrow> core k' = core k"
  by (auto simp: build_init_frame_def write_frame_def Let_def)

lemma core_fd_inv: "core k' = core k \<Longrightarrow> fd_inv k \<Longrightarrow> fd_inv k'"
  using keeps_fd_inv core_keeps by blast

lemma spawn_idle_inv:
  assumes "spawn_idle e k = Some (n, k')" "fd_inv k" "next_pid (k_procs k) = 2" "k_slots k ! 1 = None"
  shows "fd_inv k'"
proof -
  obtain kb k1 where a: "pages_alloc 3 k = (kb, k1)" by fastforce
  obtain krsp k2 where b: "build_init_frame (kb + KERNEL_STACK_SIZE) e (kb + KERNEL_STACK_SIZE) 0 k1 = (krsp, k2)" by fastforce
  let ?k3 = "kstore (krsp + FR_SS) 0x10 (kstore (krsp + FR_CS) 0x08 k2)"
  obtain root k4 where r: "create_pml4 False ?k3 = Some (Some root, k4)"
    and k': "k' = set_slot 1 (first_process 2 (h_phys root) e 0 (kb + KERNEL_STACK_SIZE) krsp kb 0 0 ''idle'') k4"
    using assms(1) a b by (auto simp: spawn_idle_def Let_def bind_pair_cases split: if_splits)
  have c: "core k4 = core k"
    using core_create_pml4 [OF r] core_init_frame [OF b] core_page_alloc(2) [OF a] by simp
  show ?thesis
    unfolding k' by (rule set_slot_inv [OF core_fd_inv [OF c assms(2)]])
      (use assms c in \<open>simp_all add: first_process_def core_def\<close>)
qed

lemma spawn_init_inv:
  assumes b: "k_procs k = \<lparr>slots = replicate MAX_PROCS None, next_pid = 1, proc_count = 0\<rparr>" "k_oft k = oft_new"
    and s: "spawn_init e k = Some (n, k')"
  shows "fd_inv k'"
proof -
  obtain w k1 where w: "vfs_resolve (bytes ''/sbin/init'') k = Some (w, k1)"
    using s by (cases "vfs_resolve (bytes ''/sbin/init'') k") (auto simp: spawn_init_def)
  then obtain v where r: "vfs_resolve (bytes ''/sbin/init'') k = Some (Inr v, k1)"
    using s by (cases w) (auto simp: spawn_init_def)
  obtain data mg where d: "exec_data (k_vnodes k1 v) k1 = Some (data, mg)"
    using s r by (auto simp: spawn_init_def bind_eq_Some_conv)
  obtain x k2 where x: "build_flat_image data k1 = Some (x, k2)"
    using s r d by (cases "build_flat_image data k1") (auto simp: spawn_init_def)
  then obtain im where i: "build_flat_image data k1 = Some (Inr im, k2)"
    using s r d by (cases x) (auto simp: spawn_init_def)
  obtain kb k3 where a: "pages_alloc 3 k2 = (kb, k3)" by fastforce
  obtain krsp k4 where f: "build_init_frame (kb + KERNEL_STACK_SIZE) USER_CODE_ADDR (fi_user_rsp im) 1 k3 = (krsp, k4)" by fastforce
  let ?c = "first_process 1 (h_phys (fi_root im)) USER_CODE_ADDR (fi_user_rsp im) (kb + KERNEL_STACK_SIZE)
      krsp kb BRK_START (fi_user_rsp im - 0x1000) ''init''"
  have sp: "spawn_idle e (init_stdio (set_slot 0 ?c k4)) = Some (n, k')"
    using s r d i a f by (auto simp: spawn_init_def Let_def split: if_splits)
  have keep: "keeps_fds k k4"
    using keeps_trans [OF keeps_vfs_resolve [OF r] core_keeps, of k4] core_build_flat_image [OF i]
      core_page_alloc(2) [OF a] core_init_frame [OF f] by simp
  have "map (map_option (\<lambda>p. (p_pid p, p_fds p))) (k_slots k4) = replicate MAX_PROCS None"
    using keep b(1) by (simp add: keeps_fds_def fd_view_def)
  then have empty: "k_slots k4 = replicate MAX_PROCS None"
    by (metis (no_types, lifting) length_map length_replicate map_option_is_None nth_equalityI nth_map nth_replicate)
  have n: "next_pid (k_procs k4) = 1" using keep b(1) by (simp add: keeps_fds_def)
  have i4: "fd_inv k4" using keeps_fd_inv [OF keep fd_inv_empty] b by simp
  have i5: "fd_inv (set_slot 0 ?c k4)"
    by (rule set_slot_inv [OF i4]) (use empty n in \<open>simp_all add: first_process_def MAX_PROCS_def\<close>)
  have "fd_inv (init_stdio (set_slot 0 ?c k4))"
    by (rule init_stdio_inv [OF i5, of ?c]) (use empty in \<open>simp_all add: set_slot_def first_process_def MAX_PROCS_def\<close>)
  then show ?thesis
    by (rule spawn_idle_inv [OF sp])
      (use empty in \<open>simp_all add: init_stdio_def set_slot_def MAX_PROCS_def split: prod.split sum.split\<close>)
qed


subsection \<open>The machine\<close>

text \<open>One step of the machine: a system call on its whole path, the timer interrupt, a byte
  from the keyboard controller or the serial line, and a store of user code, which may
  change any byte of memory.  The PID counter has not used up its 64 bits when a call is made.\<close>

inductive kstep :: "syscall_table \<Rightarrow> kernel \<Rightarrow> kernel \<Rightarrow> bool" for table where
  call: "next_pid (k_procs k) \<noteq> - 1 \<Longrightarrow> syscall_entry ticks table rsp rip rflags args k = Some (e, k') \<Longrightarrow> kstep table k k'"
| timer: "scheduler_tick rsp k = Some (krsp, k') \<Longrightarrow> kstep table k k'"
| keyboard: "kstep table k (k\<lparr>k_kbd := handle_keyboard st sc (k_kbd k)\<rparr>)"
| serial: "kstep table k (k\<lparr>k_serial_in := k_serial_in k @ bs\<rparr>)"
| user_store: "kstep table k (k\<lparr>k_mem := m\<rparr>)"

inductive_cases kstepE [elim]: "kstep table k k'"

lemma kstep_inv: "kstep table k k' \<Longrightarrow> fd_inv k \<Longrightarrow> fd_inv k'"
proof (erule kstepE, goal_cases)
  case (1 ticks rsp rip rflags args e)
  then show ?case using syscall_entry_inv by blast
next
  case (2 rsp krsp)
  then show ?case using keeps_fd_inv [OF keeps_scheduler(1)] by blast
qed (auto intro: core_fd_inv)

inductive reaches :: "syscall_table \<Rightarrow> kernel \<Rightarrow> kernel \<Rightarrow> bool" for table where
  start: "reaches table k k"
| step: "reaches table k k' \<Longrightarrow> kstep table k' k'' \<Longrightarrow> reaches table k k''"

lemma reaches_inv: "reaches table k k' \<Longrightarrow> fd_inv k \<Longrightarrow> fd_inv k'"
  by (induction rule: reaches.induct) (auto intro: kstep_inv)

text \<open>The descriptors that hold entry \<open>i\<close> of the open file table.\<close>
definition holders :: "kernel \<Rightarrow> nat \<Rightarrow> (u64 \<times> nat) set" where
  "holders k i = {(q, fd). fd < MAX_FDS \<and> (\<exists>p. process_mut q k = Some p \<and> p_fds p ! fd = int i)}"

lemma count_list_card: "count_list xs x = card {j. j < length xs \<and> xs ! j = x}"
proof (induction xs)
  case (Cons y ys)
  have "{j. j < length (y # ys) \<and> (y # ys) ! j = x} = (if y = x then {0} else {}) \<union> Suc ` {j. j < length ys \<and> ys ! j = x}"
    by (auto simp: image_iff less_Suc_eq_0_disj split: if_splits)
  then show ?case using Cons.IH by (simp add: card_image card_insert_if image_iff)
qed simp

lemma refs_holders:
  assumes "slots_inv (k_slots k)" "view_ok (fd_view (k_slots k))"
  shows "refs (fd_view (k_slots k)) i = card (holders k i)"
proof -
  let ?ss = "k_slots k" and ?n = "length (k_slots k)"
  let ?F = "\<lambda>s. {fd. fd < MAX_FDS \<and> (\<exists>p. ?ss ! s = Some p \<and> p_fds p ! fd = int i)}"
  have ok: "length (p_fds p) = MAX_FDS" if "s < ?n" "?ss ! s = Some p" for s p
    using assms(2) that fd_view_set [of "p_pid p" "p_fds p" ?ss] nth_mem [OF that(1)]
    by (auto simp: view_ok_def fds_ok_def)
  have "slot_refs i (fd_view ?ss ! s) = card (?F s)" if "s < ?n" for s
    using ok [OF that] that by (cases "?ss ! s") (auto simp: slot_refs_def fd_view_def count_list_card)
  then have "refs (fd_view ?ss) i = (\<Sum>s < ?n. card (?F s))"
    by (simp add: refs_def sum_list_sum_nth atLeast0LessThan)
  also have "\<dots> = card (SIGMA s : {..< ?n}. ?F s)" by simp
  also have "\<dots> = card (holders k i)"
  proof (rule bij_betw_same_card [of "\<lambda>(s, fd). (p_pid (the (?ss ! s)), fd)"], unfold bij_betw_def, intro conjI)
    show "inj_on (\<lambda>(s, fd). (p_pid (the (?ss ! s)), fd)) (SIGMA s : {..< ?n}. ?F s)"
      using assms(1) by (auto simp: inj_on_def slots_inv_def)
    have "(q, fd) \<in> holders k i \<longleftrightarrow> (\<exists>s < ?n. fd \<in> ?F s \<and> q = p_pid (the (?ss ! s)))" for q fd
      using process_mut_if_Some [OF assms(1), of q] by (auto simp: holders_def process_mut_def in_set_conv_nth)
    then show "(\<lambda>(s, fd). (p_pid (the (?ss ! s)), fd)) ` (SIGMA s : {..< ?n}. ?F s) = holders k i"
      by (auto simp: image_iff) force
  qed
  finally show ?thesis .
qed


text \<open>C1.  The reference counts of the open file table are exact in every state the machine
  reaches: whatever calls the processes make and whatever interrupts arrive, the count of
  every entry is the number of descriptors, over all processes, that hold it, and every
  open descriptor refers to an entry that is in use.\<close>

theorem reaches_counts_exact:
  assumes "fd_inv k" "reaches table k k'"
  shows "oft_count (k_oft k') i = card (holders k' i) \<and>
    (\<forall>q p fd. process_mut q k' = Some p \<and> fd < MAX_FDS \<and> 0 \<le> p_fds p ! fd \<longrightarrow>
       (\<exists>f. oft_get (nat (p_fds p ! fd)) (k_oft k') = Some f \<and> 0 < of_refcount f))"
proof -
  note D = fd_inv_plusD [OF reaches_inv [OF assms(2,1), unfolded fd_inv_def]]
  have c: "oft_count (k_oft k') i = card (holders k' i)" for i
    using D(4) [of i] refs_holders [OF D(1,3)] by simp
  have "\<exists>f. oft_get (nat (p_fds p ! fd)) (k_oft k') = Some f \<and> 0 < of_refcount f"
    if "process_mut q k' = Some p" "fd < MAX_FDS" "0 \<le> p_fds p ! fd" for q p fd
  proof -
    let ?i = "nat (p_fds p ! fd)"
    have "Some p \<in> set (k_slots k')" using that(1) process_mut_if_Some [OF D(1), of q p] by (simp add: process_mut_def)
    then have "finite (holders k' ?i)"
      using finite_subset [of "holders k' ?i" "pids (k_slots k') \<times> {..<MAX_FDS}"] process_mut_if_None [of _ "k_slots k'"]
        finite_pids [of "k_slots k'"] by (force simp: holders_def process_mut_def)
    moreover have "(q, fd) \<in> holders k' ?i" using that by (simp add: holders_def)
    ultimately have "0 < oft_count (k_oft k') ?i" unfolding c by (metis card_gt_0_iff empty_iff)
    then show ?thesis using oft_count_pos [of "k_oft k'" ?i] by (auto simp: oft_get_def word_less_nat_alt)
  qed
  then show ?thesis using c by blast
qed

definition dup_process :: process where
  "dup_process = (blank_process 1 Running)\<lparr>p_fds := (replicate 16 (- 1))[0 := 0]\<rparr>"

definition dup_kernel :: kernel where
  "dup_kernel = (kernel0 [dup_process, blank_process 2 Ready])\<lparr>k_oft := oft_new[0 := Some
     \<lparr>of_vnode = devfs_get_vnode DevTtyS0, of_offset = 0, of_flags = 2, of_mode = 0, of_refcount = 1\<rparr>]\<rparr>"

lemma dup_kernel_inv: "fd_inv dup_kernel"
proof -
  have "k_slots dup_kernel = slots_of [dup_process, blank_process 2 Ready]" by (simp add: dup_kernel_def kernel0_def)
  then have s: "k_slots dup_kernel = [Some dup_process, Some (blank_process 2 Ready)] @ replicate 62 None"
    by (simp add: slots_of_def MAX_PROCS_def)
  have pid: "p_pid dup_process = 1" "p_fds dup_process = 0 # replicate 15 (- 1)"
    by (simp_all add: dup_process_def numeral_eq_Suc)
  have "slots_inv (k_slots dup_kernel)"
    using kernel0_inv [of "[dup_process, blank_process 2 Ready]"] pid by (simp add: dup_kernel_def MAX_PROCS_def)
  moreover have "view_ok (fd_view (k_slots dup_kernel))"
    unfolding s by (auto simp: view_ok_def fd_view_def fds_ok_def pid MAX_PROCS_def MAX_FDS_def OFT_SIZE_def)
  moreover have "refs (fd_view (k_slots dup_kernel)) i = (if i = 0 then 1 else 0)" for i
    unfolding s by (simp add: refs_def fd_view_def slot_refs_def pid count_list_0_iff sum_list_replicate)
  moreover have "pids (k_slots dup_kernel) = {1, 2}" "next_pid (k_procs dup_kernel) = 3"
    unfolding s by (auto simp: pids_def pid dup_kernel_def kernel0_def)
  moreover have "oft_inv (k_oft dup_kernel)" "oft_count (k_oft dup_kernel) i = (if i = 0 then 1 else 0)" for i
    by (auto simp: dup_kernel_def oft_inv_def oft_new_def oft_count_def OFT_SIZE_def nth_list_update dest!: subsetD [OF set_update_subset_insert])
  ultimately show ?thesis by (simp add: fd_inv_def fd_inv_plus_def)
qed


lemma dup_call:
  "\<exists>k'. syscall_entry (\<lambda>_. 0) (syscall_init (replicate MAX_SYSCALLS None)) 0x101800 0x2000010 0x202 (18, 0, 0, 0, 0) dup_kernel =
     Some (Sysret 1 0x2000010 0x101800 0x202, k') \<and> oft_count (k_oft k') 0 = 2"
proof -
  let ?k = "dup_kernel\<lparr>k_sys_rsp := 0x101800, k_sys_rip := 0x2000010, k_sys_rflags := 0x202\<rparr>"
  have h: "syscall_init (replicate MAX_SYSCALLS None) ! 18 = Some H_dup"
    by (simp add: syscall_init_def register_all_def register_def MAX_SYSCALLS_def)
  have "process_mut 1 (kernel0 [dup_process, blank_process 2 Ready]) = Some dup_process"
    using kernel0_process [of "[dup_process, blank_process 2 Ready]" dup_process] by (simp add: dup_process_def MAX_PROCS_def)
  then have p: "process_mut 1 ?k = Some dup_process" "k_cur ?k = 1"
    by (simp_all add: dup_kernel_def process_mut_def kernel0_def)
  have fds: "p_fds dup_process = 0 # replicate 15 (- 1)" by (simp add: dup_process_def numeral_eq_Suc)
  have ff: "free_fd (p_fds dup_process) = Some 1"
    unfolding fds free_fd_def MAX_FDS_def by (simp add: upt_conv_Cons)
  let ?k' = "(set_fd 1 0 ?k)\<lparr>k_oft := oft_incref 0 (k_oft ?k)\<rparr>"
  have "sys_dup 0 ?k = Some (1, ?k')" using p ff by (simp add: sys_dup_def cur_fds_def fds MAX_FDS_def)
  moreover have "check_signals_syscall 1 ?k = Some (SigNone, ?k)"
    using p by (simp add: check_signals_syscall_def dup_process_def)
  ultimately have "syscall_handler (\<lambda>_. 0) (syscall_init (replicate MAX_SYSCALLS None)) 18 0 0 0 0 ?k = Some (1, ?k')"
    using h p by (simp add: syscall_handler_def MAX_SYSCALLS_def)
  then have "syscall_entry (\<lambda>_. 0) (syscall_init (replicate MAX_SYSCALLS None)) 0x101800 0x2000010 0x202 (18, 0, 0, 0, 0) dup_kernel =
     Some (Sysret 1 0x2000010 0x101800 0x202, ?k')"
    by (simp add: syscall_entry_def set_fd_def set_process_def upd_slots_def dup_kernel_def kernel0_def)
  moreover have "oft_count (k_oft ?k') 0 = 2"
    by (simp add: dup_kernel_def oft_incref_def oft_new_def oft_count_def OFT_SIZE_def sat_inc_def)
  ultimately show ?thesis by blast
qed

theorem reaches_counts_exact_witness:
  "\<exists>k'. reaches (syscall_init (replicate MAX_SYSCALLS None)) dup_kernel k' \<and> card (holders k' 0) = 2"
proof -
  obtain k' where k': "syscall_entry (\<lambda>_. 0) (syscall_init (replicate MAX_SYSCALLS None)) 0x101800 0x2000010 0x202 (18, 0, 0, 0, 0) dup_kernel =
     Some (Sysret 1 0x2000010 0x101800 0x202, k')" "oft_count (k_oft k') 0 = 2"
    using dup_call by blast
  have "next_pid (k_procs dup_kernel) \<noteq> - 1" by (simp add: dup_kernel_def kernel0_def)
  then have r: "reaches (syscall_init (replicate MAX_SYSCALLS None)) dup_kernel k'"
    by (rule reaches.step [OF reaches.start kstep.call [OF _ k'(1)]])
  then show ?thesis using reaches_counts_exact [OF dup_kernel_inv r, of 0] k'(2) by auto
qed

end
