(* ===== verification/Interrupt_Props.thy ===== *)
theory Interrupt_Props imports Interrupts Kernel_Inv begin

text \<open>The descriptor table as the processor reads it, the interrupt masks, and device interrupts as steps of the
  machine.\<close>

subsection \<open>The descriptor table in memory\<close>

text \<open>A gate decoded from its sixteen bytes: handler, selector, privilege level and gate type, when present.\<close>
definition cpu_gate :: "u8 list \<Rightarrow> (u64 \<times> u16 \<times> u8 \<times> u8) option" where
  "cpu_gate bs =
     (if bit (bs ! 5) 7
      then Some (of_le (take 2 bs @ take 6 (drop 6 bs)), of_le (take 2 (drop 2 bs)), drop_bit 5 (bs ! 5) AND 3, bs ! 5 AND 0xF)
      else None)"

lemma length_entry_bytes [simp]: "length (entry_bytes e) = 16"
  by (simp add: entry_bytes_def)

lemma length_idt_bytes: "length (idt_bytes t) = 16 * length t"
  by (induction t) (simp_all add: idt_bytes_def)

lemma nth_idt_bytes: "v < length t \<Longrightarrow> take 16 (drop (16 * v) (idt_bytes t)) = entry_bytes (t ! v)"
proof (induction t arbitrary: v)
  case (Cons e t)
  show ?case
  proof (cases v)
    case 0 then show ?thesis by (simp add: idt_bytes_def)
  next
    case (Suc w)
    then have "drop (16 * v) (idt_bytes (e # t)) = drop (16 * w) (idt_bytes t)" by (simp add: idt_bytes_def)
    then show ?thesis using Cons Suc by simp
  qed
qed simp

lemma le_bytes_split:
  "le_bytes 2 (ucast h :: u16) @ le_bytes 2 (ucast (drop_bit 16 h) :: u16) @ le_bytes 4 (ucast (drop_bit 32 h) :: u32) = le_bytes 8 (h :: u64)"
  by (simp add: eval_nat_numeral) (intro conjI; rule bit_word_eqI; auto simp: bit_simps)

lemma cpu_gate_handler:
  assumes "dpl < 4"
  shows "cpu_gate (entry_bytes (set_handler h sel dpl)) = Some (h, sel, dpl, 0xE)"
proof -
  have "unat dpl < 4" using assms by (simp add: word_less_nat_alt)
  then have "unat dpl = 0 \<or> unat dpl = 1 \<or> unat dpl = 2 \<or> unat dpl = 3" by linarith
  then have "dpl = 0 \<or> dpl = 1 \<or> dpl = 2 \<or> dpl = 3" by (simp add: word_unat_eq_iff)
  then show ?thesis using le_bytes_split [of h]
    by (elim disjE) (simp_all add: cpu_gate_def entry_bytes_def set_handler_def nth_append)
qed

lemma cpu_gate_missing: "cpu_gate (entry_bytes idt_missing) = None"
  by (simp add: cpu_gate_def entry_bytes_def idt_missing_def nth_append)

lemma fold_idt_set:
  assumes "n + a \<le> 256" "length t = 256" "v < 256"
  shows "fold (\<lambda>i. idt_set (a + i) (h i) s p) [0..<n] t ! v =
    (if a \<le> v \<and> v < a + n then set_handler (h (v - a)) s p else t ! v) \<and>
    length (fold (\<lambda>i. idt_set (a + i) (h i) s p) [0..<n] t) = 256"
  using assms(1)
proof (induction n)
  case (Suc n)
  then show ?case using assms(2,3) by (auto simp: idt_set_def nth_list_update)
qed (use assms in auto)

lemma init_interrupts_nth:
  assumes "v < 256"
  shows "fst (init_interrupts isr irq b (idt_new, d)) ! v =
      (if v < 32 then set_handler (isr v) 8 0 else if v < 48 then set_handler (irq (v - 32)) 8 0 else idt_missing) \<and>
    length (fst (init_interrupts isr irq b (idt_new, d))) = 256"
proof -
  let ?t = "fold (\<lambda>i. idt_set (0 + i) (isr i) 8 0) [0..<32] idt_new"
  have new: "length idt_new = 256" by (simp add: idt_new_def)
  have one: "?t ! v = (if v < 32 then set_handler (isr v) 8 0 else idt_missing)" "length ?t = 256"
    using fold_idt_set [of 32 0 idt_new v isr 8 0] new assms by (simp_all add: idt_new_def)
  have two: "fold (\<lambda>i. idt_set (32 + i) (irq i) 8 0) [0..<16] ?t ! v =
      (if 32 \<le> v \<and> v < 32 + 16 then set_handler (irq (v - 32)) 8 0 else ?t ! v)"
    "length (fold (\<lambda>i. idt_set (32 + i) (irq i) 8 0) [0..<16] ?t) = 256"
    using fold_idt_set [of 16 32 ?t v irq 8 0] one(2) assms by simp_all
  show ?thesis using two one by (simp add: init_interrupts_def Let_def del: upt_rec_numeral)
qed

text \<open>C39. After \<open>init_interrupts\<close> the bytes that \<open>lidt\<close> publishes decode, vector by vector, to a present ring 0
  interrupt gate with the kernel code selector and the address of the vector's own stub for the 32 exceptions and
  the 16 device interrupts, and to no gate for every other vector; the limit covers exactly the table.\<close>
theorem idt_gates:
  assumes "v < 256"
  shows "let t = fst (init_interrupts isr irq b (idt_new, d)) in
    cpu_gate (take 16 (drop (16 * v) (idt_bytes t))) =
      (if v < 32 then Some (isr v, 0x08, 0, 0xE) else if v < 48 then Some (irq (v - 32), 0x08, 0, 0xE) else None) \<and>
    unat (idt_limit t) + 1 = length (idt_bytes t)"
  using init_interrupts_nth [OF assms, of isr irq b d] assms
  by (simp add: Let_def nth_idt_bytes cpu_gate_handler cpu_gate_missing idt_limit_def length_idt_bytes)

theorem idt_gates_witness:
  "let t = fst (init_interrupts (\<lambda>i. 0x100000 + of_nat i * 16) (\<lambda>i. 0xFFFF800000200000 + of_nat i * 16) demo_uart (idt_new, ([], []))) in
   cpu_gate (take 16 (drop 224 (idt_bytes t))) = Some (0x1000E0, 8, 0, 0xE) \<and>
   cpu_gate (take 16 (drop 528 (idt_bytes t))) = Some (0xFFFF800000200010, 8, 0, 0xE) \<and>
   cpu_gate (take 16 (drop 2048 (idt_bytes t))) = None"
  using idt_gates [of 14 "\<lambda>i. 0x100000 + of_nat i * 16" "\<lambda>i. 0xFFFF800000200000 + of_nat i * 16" demo_uart "([], [])"]
    idt_gates [of 33 "\<lambda>i. 0x100000 + of_nat i * 16" "\<lambda>i. 0xFFFF800000200000 + of_nat i * 16" demo_uart "([], [])"]
    idt_gates [of 128 "\<lambda>i. 0x100000 + of_nat i * 16" "\<lambda>i. 0xFFFF800000200000 + of_nat i * 16" demo_uart "([], [])"]
  by (simp add: Let_def)

subsection \<open>The masks\<close>

text \<open>A pair of controllers in operation: the data ports read back and replace the masks \<open>m1\<close> and \<open>m2\<close>.\<close>
definition pic_masks :: "'d bus \<Rightarrow> ('d \<Rightarrow> u8) \<Rightarrow> ('d \<Rightarrow> u8) \<Rightarrow> bool" where
  "pic_masks b m1 m2 \<longleftrightarrow>
     (\<forall>d. case in_b b PIC1_DATA d of (v, d') \<Rightarrow> v = m1 d \<and> m1 d' = m1 d \<and> m2 d' = m2 d) \<and>
     (\<forall>d. case in_b b PIC2_DATA d of (v, d') \<Rightarrow> v = m2 d \<and> m1 d' = m1 d \<and> m2 d' = m2 d) \<and>
     (\<forall>v d. m1 (out_b b PIC1_DATA v d) = v \<and> m2 (out_b b PIC1_DATA v d) = m2 d) \<and>
     (\<forall>v d. m2 (out_b b PIC2_DATA v d) = v \<and> m1 (out_b b PIC2_DATA v d) = m1 d)"

definition masked :: "('d \<Rightarrow> u8) \<Rightarrow> ('d \<Rightarrow> u8) \<Rightarrow> nat \<Rightarrow> 'd \<Rightarrow> bool" where
  "masked m1 m2 i d = (if i < 8 then bit (m1 d) i else bit (m2 d) (i - 8))"

lemma pic_read:
  assumes "pic_masks b m1 m2"
  obtains d1 d2 where "in_b b PIC1_DATA d = (m1 d, d1)" "m1 d1 = m1 d" "m2 d1 = m2 d"
    "in_b b PIC2_DATA d = (m2 d, d2)" "m1 d2 = m1 d" "m2 d2 = m2 d"
proof -
  have "case in_b b PIC1_DATA d of (v, d') \<Rightarrow> v = m1 d \<and> m1 d' = m1 d \<and> m2 d' = m2 d"
    "case in_b b PIC2_DATA d of (v, d') \<Rightarrow> v = m2 d \<and> m1 d' = m1 d \<and> m2 d' = m2 d"
    using assms unfolding pic_masks_def by simp_all
  then show ?thesis
    using that [of "snd (in_b b PIC1_DATA d)" "snd (in_b b PIC2_DATA d)"] by (simp add: split_beta prod_eq_iff)
qed

text \<open>On controllers in operation, \<open>unmask_irq\<close> opens and \<open>mask_irq\<close> closes exactly the line asked for, of the
  sixteen of the two controllers; the other lines keep their state, and a number above fifteen changes none.\<close>
lemma irq_masks:
  assumes "pic_masks b m1 m2" "i < 16"
  shows "masked m1 m2 i (unmask_irq b irq d) = (i \<noteq> unat irq \<and> masked m1 m2 i d) \<and>
    masked m1 m2 i (mask_irq b irq d) = (i = unat irq \<or> masked m1 m2 i d)"
proof -
  obtain d1 d2 where r: "in_b b PIC1_DATA d = (m1 d, d1)" "m1 d1 = m1 d" "m2 d1 = m2 d"
      "in_b b PIC2_DATA d = (m2 d, d2)" "m1 d2 = m1 d" "m2 d2 = m2 d" using pic_read [OF assms(1)] by blast
  have w: "m1 (out_b b PIC1_DATA v d) = v" "m2 (out_b b PIC1_DATA v d) = m2 d"
      "m2 (out_b b PIC2_DATA v d) = v" "m1 (out_b b PIC2_DATA v d) = m1 d" for v d
    using assms(1) by (simp_all add: pic_masks_def)
  consider "unat irq < 8" | "8 \<le> unat irq" "unat irq < 16" "unat (irq - 8) = unat irq - 8" | "16 \<le> unat irq"
    by (cases "8 \<le> unat irq") (fastforce simp: unat_sub word_le_nat_alt)+
  then show ?thesis
    by cases (use assms(2) r w in \<open>auto simp: masked_def unmask_irq_def mask_irq_def word_less_nat_alt bit_simps\<close>)
qed

definition demo_pic :: "(u8 \<times> u8) bus" where
  "demo_pic = \<lparr>in_b = (\<lambda>p (a, c). (if p = PIC1_DATA then a else c, (a, c))),
     out_b = (\<lambda>p v (a, c). if p = PIC1_DATA then (v, c) else if p = PIC2_DATA then (a, v) else (a, c))\<rparr>"

lemma irq_masks_example:
  "\<not> masked fst snd 1 (unmask_irq demo_pic 1 (0xFF, 0xFF)) \<and> masked fst snd 2 (unmask_irq demo_pic 1 (0xFF, 0xFF)) \<and>
   masked fst snd 12 (mask_irq demo_pic 12 (0, 0))"
proof -
  have p: "pic_masks demo_pic fst snd" by (simp add: pic_masks_def demo_pic_def PIC1_DATA_def PIC2_DATA_def)
  show ?thesis using irq_masks [OF p, of 1 1] irq_masks [OF p, of 2 1 "(0xFF, 0xFF)"] irq_masks [OF p, of 12 12]
    by (simp add: masked_def)
qed

subsection \<open>Device interrupts are steps of the machine\<close>

lemma irq_handler_kernel:
  assumes "irq_handler b f (ticks, k, d) = (ticks', k', d')"
  shows "k' = k \<or> (\<exists>st sc. k' = k\<lparr>k_kbd := handle_keyboard st sc (k_kbd k)\<rparr>)"
  using assms by (auto simp: irq_handler_def Let_def split: if_splits prod.splits)

lemma irq_common_reaches:
  assumes "irq_common b rsp (ticks, k, d) = Some (krsp, ticks', k', d')"
  shows "reaches table k k'"
proof -
  obtain t1 k1 d1 where h: "irq_handler b (frame_at rsp k) (ticks, k, d) = (t1, k1, d1)"
    by (cases "irq_handler b (frame_at rsp k) (ticks, k, d)")
  then have s: "scheduler_tick rsp k1 = Some (krsp, k')"
    using assms by (auto simp: irq_common_def Let_def bind_eq_Some_conv)
  from irq_handler_kernel [OF h] have "reaches table k k1"
    by (auto intro: reaches.start reaches.step [OF reaches.start] kstep.keyboard)
  then show ?thesis using reaches.step kstep.timer [OF s] by blast
qed

end
