(* ===== verification/Multiboot.thy ===== *)
theory Multiboot imports Kernel_State Format begin

text \<open>The Multiboot information (\<open>multiboot.rs\<close>): reading the memory map from physical memory, printing it, and
  giving its available regions to the physical page allocator.

  The loops over the map step by the size each entry states, in 32 bits, so a broken map can make them run
  forever: \<^term>\<open>None\<close> is a loop that does not end, or a panic of the allocator.\<close>

definition load32 :: "mem \<Rightarrow> u64 \<Rightarrow> u32" where
  "load32 m a = of_le (read_bytes m a 4)"

definition MBI_PTR_ADDR :: u64 where "MBI_PTR_ADDR = 0x5000"

definition get_mbi_ptr :: "mem \<Rightarrow> u32" where
  "get_mbi_ptr m = load32 m MBI_PTR_ADDR"

definition has_mmap :: "u32 \<Rightarrow> mem \<Rightarrow> bool" where
  "has_mmap mbi m \<longleftrightarrow> mbi \<noteq> 0 \<and> load32 m (ucast mbi) AND push_bit 6 1 \<noteq> 0"

record mmap_entry =
  me_size :: u32
  me_base_low :: u32
  me_base_high :: u32
  me_length_low :: u32
  me_length_high :: u32
  me_type :: u32

definition mmap_entry_at :: "mem \<Rightarrow> u32 \<Rightarrow> mmap_entry" where
  "mmap_entry_at m a = (let w = \<lambda>i. load32 m (ucast a + i) in
     \<lparr>me_size = w 0, me_base_low = w 4, me_base_high = w 8, me_length_low = w 12, me_length_high = w 16, me_type = w 20\<rparr>)"

definition me_base :: "mmap_entry \<Rightarrow> u64" where
  "me_base e = ucast (me_base_low e) OR push_bit 32 (ucast (me_base_high e))"

definition me_length :: "mmap_entry \<Rightarrow> u64" where
  "me_length e = ucast (me_length_low e) OR push_bit 32 (ucast (me_length_high e))"

text \<open>The loop that the three walks share.\<close>
partial_function (option) mmap_loop ::
  "(mmap_entry \<Rightarrow> 's \<Rightarrow> 's option) \<Rightarrow> mem \<Rightarrow> u32 \<Rightarrow> u32 \<Rightarrow> u32 \<Rightarrow> 's \<Rightarrow> 's option" where
  "mmap_loop body m mmap_addr mmap_length offset s =
     (if offset < mmap_length
      then (let e = mmap_entry_at m (mmap_addr + offset) in do {
        s \<leftarrow> body e s;
        mmap_loop body m mmap_addr mmap_length (offset + (me_size e + 4)) s })
      else Some s)"

definition mmap_walk :: "(mmap_entry \<Rightarrow> 's \<Rightarrow> 's option) \<Rightarrow> u32 \<Rightarrow> mem \<Rightarrow> 's \<Rightarrow> 's option" where
  "mmap_walk body mbi m s = mmap_loop body m (load32 m (ucast mbi + 48)) (load32 m (ucast mbi + 44)) 0 s"

definition region_name :: "u32 \<Rightarrow> string" where
  "region_name t = (if t = 1 then ''Available'' else if t = 2 then ''Reserved'' else if t = 3 then ''ACPI reclaim''
     else if t = 4 then ''ACPI NVS'' else ''Bad RAM'')"

definition region_line :: "mmap_entry \<Rightarrow> u8 list" where
  "region_line e = bytes ''  base='' @ hex_buf (ucast (drop_bit 32 (me_base e))) @ bytes ''_'' @ hex_buf (ucast (me_base e)) @
     bytes ''  len='' @ hex_buf (ucast (drop_bit 32 (me_length e))) @ bytes ''_'' @ hex_buf (ucast (me_length e)) @
     bytes ''  '' @ bytes (region_name (me_type e)) @ [0x0A]"

definition print_mmap :: "u32 \<Rightarrow> kernel \<Rightarrow> kernel option" where
  "print_mmap mbi k =
     (if \<not> has_mmap mbi (k_mem k)
      then Some (serial_write (bytes ''VIBIX: No Multiboot memory map available.'' @ [0x0A]) k)
      else mmap_walk (\<lambda>e k. Some (serial_write (region_line e) k)) mbi (k_mem k)
             (serial_write (bytes ''VIBIX: Multiboot memory map:'' @ [0x0A]) k))"

text \<open>The first walk: the base of the first available region and the highest end.\<close>
definition scan_entry :: "mmap_entry \<Rightarrow> u64 option \<times> u64 \<Rightarrow> u64 option \<times> u64" where
  "scan_entry e s = (case s of (first_avail, highest_end) \<Rightarrow>
     if me_type e = 1
     then (case first_avail of None \<Rightarrow> Some (me_base e) | Some b \<Rightarrow> Some b, max highest_end (me_base e + me_length e))
     else (first_avail, highest_end))"

definition release_entry :: "u64 \<Rightarrow> u64 \<Rightarrow> mmap_entry \<Rightarrow> pmm \<Rightarrow> pmm option" where
  "release_entry mem_start mem_end e p =
     (if me_type e = 1
      then let clamp_base = (if me_base e < mem_start then mem_start else me_base e);
               clamp_end = min (me_base e + me_length e) mem_end
           in if clamp_end > clamp_base then init_region clamp_base (clamp_end - clamp_base) p else Some p
      else Some p)"

definition pmm_start :: "u64 \<Rightarrow> u64" where
  "pmm_start b = (let page_base = b AND NOT 0xFFF in if page_base < 0x100000 then 0x100000 else page_base)"

definition apply_mmap_to_pmm :: "u32 \<Rightarrow> mem \<Rightarrow> pmm \<Rightarrow> (bool \<times> pmm) option" where
  "apply_mmap_to_pmm mbi m p =
     (if \<not> has_mmap mbi m then Some (False, p)
      else do {
        (first_avail, highest_end) \<leftarrow> mmap_walk (\<lambda>e s. Some (scan_entry e s)) mbi m (None, 0);
        case first_avail of
          None \<Rightarrow> Some (False, p)
        | Some b \<Rightarrow>
            let mem_start = pmm_start b; mem_end = min highest_end 0x10000000 in do {
              p \<leftarrow> mmap_walk (release_entry mem_start mem_end) mbi m (init_all_used mem_start mem_end p);
              Some (True, p) } })"

subsection \<open>A well-formed map\<close>

text \<open>The entries of a map whose stated sizes stay below 32 bits, from an offset on.\<close>
fun mmap_from :: "mem \<Rightarrow> u32 \<Rightarrow> u32 \<Rightarrow> u32 \<Rightarrow> mmap_entry list \<Rightarrow> bool" where
  "mmap_from m addr len off [] \<longleftrightarrow> len \<le> off"
| "mmap_from m addr len off (e # es) \<longleftrightarrow>
     off < len \<and> mmap_entry_at m (addr + off) = e \<and> mmap_from m addr len (off + (me_size e + 4)) es"

fun fold_opt :: "('a \<Rightarrow> 's \<Rightarrow> 's option) \<Rightarrow> 'a list \<Rightarrow> 's \<Rightarrow> 's option" where
  "fold_opt f [] s = Some s"
| "fold_opt f (x # xs) s = do { s \<leftarrow> f x s; fold_opt f xs s }"

lemma mmap_loop_list:
  "mmap_from m addr len off es \<Longrightarrow> mmap_loop body m addr len off s = fold_opt body es s"
proof (induction es arbitrary: off s)
  case Nil
  then show ?case by (subst mmap_loop.simps) (auto dest: leD)
next
  case (Cons e es)
  then have "mmap_loop body m addr len (off + (me_size e + 4)) = fold_opt body es" by (intro ext) simp
  then show ?case using Cons.prems by (subst mmap_loop.simps) (simp add: Let_def)
qed

lemma fold_opt_total: "fold_opt (\<lambda>e s. Some (f e s)) es s = Some (fold f es s)"
  by (induction es arbitrary: s) simp_all

definition mmap_is :: "u32 \<Rightarrow> mem \<Rightarrow> mmap_entry list \<Rightarrow> bool" where
  "mmap_is mbi m es \<longleftrightarrow> has_mmap mbi m \<and> mmap_from m (load32 m (ucast mbi + 48)) (load32 m (ucast mbi + 44)) 0 es \<and>
     (\<forall>e\<in>set es. me_type e = 1 \<longrightarrow> unat (me_base e) + unat (me_length e) < 2 ^ 63)"

lemma mmap_walk_list: "mmap_is mbi m es \<Longrightarrow> mmap_walk body mbi m s = fold_opt body es s"
  by (simp add: mmap_is_def mmap_walk_def mmap_loop_list)

subsection \<open>The pages that become free\<close>

text \<open>The part of an available region inside the managed range.\<close>
definition clamped :: "u64 \<Rightarrow> u64 \<Rightarrow> mmap_entry \<Rightarrow> (u64 \<times> u64) option" where
  "clamped mem_start mem_end e =
     (let b = max (me_base e) mem_start; c = min (me_base e + me_length e) mem_end in
      if me_type e = 1 \<and> b < c then Some (b, c - b) else None)"

lemma release_entry_clamped:
  "release_entry st en e p = (case clamped st en e of None \<Rightarrow> Some p | Some (b, n) \<Rightarrow> init_region b n p)"
  by (auto simp: release_entry_def clamped_def Let_def max_def not_less)

definition released :: "u64 \<Rightarrow> u64 \<Rightarrow> mmap_entry list \<Rightarrow> pmm \<Rightarrow> nat set" where
  "released st en es p = (\<Union>e\<in>set es. case clamped st en e of None \<Rightarrow> {} | Some (b, n) \<Rightarrow> touched p b n)"

lemma init_region_start: "init_region b n p = Some p' \<Longrightarrow> memory_start p' = memory_start p \<and> total_pages p' = total_pages p"
  by (auto simp: init_region_def Let_def split: if_splits prod.splits)

lemma released_cong: "memory_start p' = memory_start p \<Longrightarrow> released st en es p' = released st en es p"
proof -
  assume "memory_start p' = memory_start p"
  then have t: "touched p' = touched p" by (intro ext) (simp add: touched_def)
  show ?thesis unfolding released_def t ..
qed

lemma release_all:
  assumes "pmm_inv p" "memory_start p = st"
    "\<forall>e\<in>set es. me_type e = 1 \<longrightarrow> unat (me_base e) + unat (me_length e) < 2 ^ 63"
  shows "\<exists>p'. fold_opt (release_entry st en) es p = Some p' \<and> pmm_inv p' \<and> memory_start p' = st \<and>
    total_pages p' = total_pages p \<and> used_pages p' = used_pages p - released st en es p"
  using assms
proof (induction es arbitrary: p)
  case (Cons e es)
  show ?case
  proof (cases "clamped st en e")
    case None
    then show ?thesis using Cons by (auto simp: release_entry_clamped released_def)
  next
    case (Some c)
    then obtain b n where c: "clamped st en e = Some (b, n)" by (cases c) simp
    have e: "me_type e = 1" "st \<le> b" "n \<noteq> 0" "b + n \<le> me_base e + me_length e" "b < b + n"
      using c by (auto simp: clamped_def Let_def min_def max_def split: if_splits)
    have "unat (me_base e + me_length e) < 2 ^ 63" using Cons.prems(3) e(1) by (simp add: unat_plus_if')
    then have "unat (b + n) < 2 ^ 63" using e(4) by (simp add: word_le_nat_alt)
    then have "unat b + unat n < 2 ^ 64" using e(5) unsigned_less [of n, where ?'a = nat]
      by (simp add: unat_plus_if' word_less_nat_alt split: if_splits)
    then have "\<exists>p'. init_region b n p = Some p' \<and> pmm_inv p' \<and> used_pages p' = used_pages p - touched p b n"
      using region_ops_touched [OF Cons.prems(1), of b n] e(2,3) Cons.prems(2) by auto
    then obtain p1 where p1: "init_region b n p = Some p1" "pmm_inv p1" "used_pages p1 = used_pages p - touched p b n" by blast
    note st = init_region_start [OF p1(1)]
    obtain p' where p': "fold_opt (release_entry st en) es p1 = Some p'" "pmm_inv p'" "memory_start p' = st"
        "total_pages p' = total_pages p1" "used_pages p' = used_pages p1 - released st en es p1"
      using Cons.IH [OF p1(2)] st Cons.prems(2,3) by auto
    have "released st en (e # es) p = touched p b n \<union> released st en es p1"
      unfolding released_cong [OF conjunct1 [OF st]] using c by (simp add: released_def)
    then have "used_pages p' = used_pages p - released st en (e # es) p" using p'(5) p1(3) by (simp add: Diff_eq Int_ac)
    moreover have "fold_opt (release_entry st en) (e # es) p = Some p'" using c p1(1) p'(1) by (simp add: release_entry_clamped)
    ultimately show ?thesis using p'(2-4) st by simp
  qed
qed (simp add: released_def)

lemma fold_scan_none:
  "(fst (fold scan_entry es s) = None) = (fst s = None \<and> (\<forall>e\<in>set es. me_type e \<noteq> 1))"
  by (induction es arbitrary: s) (auto simp: scan_entry_def split: option.splits prod.splits)

lemma fold_scan_first:
  "fst (fold scan_entry es s) = (case fst s of Some b \<Rightarrow> Some b | None \<Rightarrow> map_option me_base (find (\<lambda>e. me_type e = 1) es))"
  by (induction es arbitrary: s) (auto simp: scan_entry_def split: option.splits prod.splits)

lemma pmm_start_bounds:
  assumes "unat b < 2 ^ 63"
  shows "0x100000 \<le> pmm_start b" "unat (pmm_start b) < 2 ^ 63" "pmm_start b AND 0xFFF = 0"
proof -
  have "unat (b AND NOT 0xFFF) \<le> unat b" using word_and_le2 [of b "NOT 0xFFF"] by (simp add: word_le_nat_alt)
  then show "unat (pmm_start b) < 2 ^ 63" using assms by (simp add: pmm_start_def Let_def)
  show "0x100000 \<le> pmm_start b" by (simp add: pmm_start_def Let_def not_less)
  have "(b AND NOT 0xFFF) AND 0xFFF = 0" by (simp add: and.assoc)
  then show "pmm_start b AND 0xFFF = 0" by (simp add: pmm_start_def Let_def)
qed

lemma init_all_used_inv:
  assumes "length (pmm_bitmap p) = BITMAP_SIZE" "st \<noteq> 0" "unat st < 2 ^ 63"
  shows "pmm_inv (init_all_used st en p)" "used_pages (init_all_used st en p) = {..<PMM_MAX_PAGES}"
proof -
  have "(0xFF :: u8) = - 1" by simp
  then have "bit (0xFF :: u8) (i mod 8)" for i by (simp only:) simp
  then show "used_pages (init_all_used st en p) = {..<PMM_MAX_PAGES}"
    using assms(1) by (auto simp: init_all_used_def used_pages_def page_used_bit BITMAP_SIZE_def PMM_MAX_PAGES_def)
  show "pmm_inv (init_all_used st en p)"
    using assms by (simp add: pmm_inv_def init_all_used_def capped_pages_def Let_def PMM_MAX_PAGES_def)
qed

text \<open>C19. On a well-formed map with an available region, \<open>apply_mmap_to_pmm\<close> ends, reports success and leaves an
  allocator that starts at a page boundary of at least 1 MiB and whose used pages are all pages except those
  that an available region, cut to the managed range, touches.  With no available region it reports
  failure and leaves the allocator alone.\<close>
theorem mmap_free_pages:
  assumes "mmap_is mbi m es" "length (pmm_bitmap p) = BITMAP_SIZE"
  shows "case find (\<lambda>e. me_type e = 1) es of
      None \<Rightarrow> apply_mmap_to_pmm mbi m p = Some (False, p)
    | Some first \<Rightarrow>
        let st = pmm_start (me_base first); en = min (snd (fold scan_entry es (None, 0))) 0x10000000 in
        \<exists>p'. apply_mmap_to_pmm mbi m p = Some (True, p') \<and> pmm_inv p' \<and> memory_start p' = st \<and>
          0x100000 \<le> st \<and> st AND 0xFFF = 0 \<and> used_pages p' = {..<PMM_MAX_PAGES} - released st en es p'"
proof (cases "find (\<lambda>e. me_type e = 1) es")
  case None
  then show ?thesis using assms(1) fold_scan_first [of es "(None, 0)"]
    by (auto simp: apply_mmap_to_pmm_def mmap_walk_list [OF assms(1)] fold_opt_total mmap_is_def split: prod.split)
next
  case (Some first)
  define st where "st = pmm_start (me_base first)"
  define en where "en = min (snd (fold scan_entry es (None, 0))) (0x10000000 :: u64)"
  have "first \<in> set es" "me_type first = 1" using Some by (auto simp: find_Some_iff)
  then have "unat (me_base first) < 2 ^ 63" using assms(1) by (fastforce simp: mmap_is_def)
  note st = pmm_start_bounds [OF this, folded st_def]
  have "st \<noteq> 0" using st(1) by (auto simp: word_le_nat_alt)
  then have init: "pmm_inv (init_all_used st en p)" "used_pages (init_all_used st en p) = {..<PMM_MAX_PAGES}"
    using init_all_used_inv [OF assms(2) _ st(2)] by simp_all
  obtain p' where p': "fold_opt (release_entry st en) es (init_all_used st en p) = Some p'" "pmm_inv p'" "memory_start p' = st"
      "used_pages p' = {..<PMM_MAX_PAGES} - released st en es (init_all_used st en p)"
    using release_all [OF init(1), of st es en] assms(1) init(2) by (auto simp: init_all_used_def mmap_is_def)
  have "released st en es (init_all_used st en p) = released st en es p'"
    using p'(3) by (intro released_cong) (simp add: init_all_used_def)
  moreover have "apply_mmap_to_pmm mbi m p = Some (True, p')"
    using p'(1) assms(1) Some fold_scan_first [of es "(None, 0)"]
    by (cases "fold scan_entry es (None, 0)")
      (simp add: apply_mmap_to_pmm_def mmap_walk_list [OF assms(1)] fold_opt_total mmap_is_def st_def en_def)
  ultimately show ?thesis using Some p' st by (simp add: Let_def st_def [symmetric] en_def [symmetric])
qed

text \<open>A map of one available region of 1 MiB at 2 MiB, the information at 0x9000.\<close>
definition demo_mbi :: mem where
  "demo_mbi = write_bytes 0x9100 (concat (map (le_bytes 4) [20, 0x200000, 0, 0x100000, 0, 1 :: u32]))
     (write_bytes 0x902C (concat (map (le_bytes 4) [24, 0x9100 :: u32])) (write_bytes 0x9000 (le_bytes 4 (0x40 :: u32)) (\<lambda>_. 0)))"

theorem mmap_free_pages_witness:
  "\<exists>p'. apply_mmap_to_pmm 0x9000 demo_mbi (pmm_new (replicate BITMAP_SIZE 0)) = Some (True, p') \<and> memory_start p' = 0x200000"
proof -
  let ?e = "\<lparr>me_size = 20, me_base_low = 0x200000, me_base_high = 0, me_length_low = 0x100000, me_length_high = 0, me_type = 1\<rparr>"
  have "load32 demo_mbi 0x9000 = 0x40" "load32 demo_mbi 0x902C = 24" "load32 demo_mbi 0x9030 = 0x9100" "mmap_entry_at demo_mbi 0x9100 = ?e"
    by code_simp+
  then have "mmap_is 0x9000 demo_mbi [?e]" by (simp add: mmap_is_def has_mmap_def me_base_def me_length_def)
  from mmap_free_pages [OF this, of "pmm_new (replicate BITMAP_SIZE 0)"] show ?thesis
    by (auto simp: pmm_new_def pmm_start_def me_base_def Let_def)
qed

end
