(* ===== verification/Framebuffer.thy ===== *)
theory Framebuffer imports Paging Format begin

text \<open>The framebuffer driver (\<open>fb.rs\<close>): the probe of the Bochs VBE device and of its PCI base
  address, and the drawing primitives with the built-in font.

  The device is not part of the sources: \<open>wr\<close> and \<open>rd\<close> are the writes and reads of its
  registers on a device state, \<open>pci\<close> the reads of PCI configuration space.  The linear
  framebuffer is mapped at its physical address, so a pixel is stored at that address.\<close>

definition VBE_REG_ID :: u16 where "VBE_REG_ID = 0"
definition VBE_REG_XRES :: u16 where "VBE_REG_XRES = 1"
definition VBE_REG_YRES :: u16 where "VBE_REG_YRES = 2"
definition VBE_REG_BPP :: u16 where "VBE_REG_BPP = 3"
definition VBE_REG_ENABLE :: u16 where "VBE_REG_ENABLE = 4"
definition VBE_ID5 :: u16 where "VBE_ID5 = 0xB0C5"
definition VBE_ENABLE_FLAG :: u16 where "VBE_ENABLE_FLAG = 0x01"
definition VBE_LFB_FLAG :: u16 where "VBE_LFB_FLAG = 0x40"
definition VBE_NOCLEARMEM_FLAG :: u16 where "VBE_NOCLEARMEM_FLAG = 0x80"

record framebuffer =
  fb_address :: u64
  fb_pitch :: u32
  fb_width :: u32
  fb_height :: u32
  fb_bpp :: u8

definition pci_config_addr :: "u8 \<Rightarrow> u8 \<Rightarrow> u8 \<Rightarrow> u8 \<Rightarrow> u32" where
  "pci_config_addr bus dev func reg =
     0x80000000 OR push_bit 16 (ucast bus) OR push_bit 11 (ucast dev) OR push_bit 8 (ucast func) OR (ucast reg AND 0xFC)"

text \<open>The dash and the multiplication sign of the messages in UTF-8.\<close>
definition DASH :: "u8 list" where "DASH = [0xE2, 0x80, 0x94]"
definition TIMES :: "u8 list" where "TIMES = [0xC3, 0x97]"

definition vbe_status :: "u16 \<Rightarrow> u16 \<Rightarrow> u16 \<Rightarrow> u16 \<Rightarrow> u8 list" where
  "vbe_status x y b e = bytes ''VIBIX: fb: VBE status '' @ DASH @ bytes '' '' @ fmt_dec (unat x) @ TIMES @
     fmt_dec (unat y) @ TIMES @ fmt_dec (unat b) @ bytes '' enable=0x'' @ fmt_hex (unat e) @ [0x0A]"

definition init_vbe :: "(u16 \<Rightarrow> u16 \<Rightarrow> 'd \<Rightarrow> 'd) \<Rightarrow> (u16 \<Rightarrow> 'd \<Rightarrow> u16) \<Rightarrow> (u32 \<Rightarrow> u32) \<Rightarrow> 'd \<Rightarrow> kernel
    \<Rightarrow> (framebuffer option \<times> 'd \<times> kernel) option" where
  "init_vbe wr rd pci d k =
     (let orig_id = rd VBE_REG_ID d;
          d = wr VBE_REG_ID VBE_ID5 d;
          probe = rd VBE_REG_ID d;
          d = wr VBE_REG_ID orig_id d
      in if probe < VBE_ID5
         then Some (None, d, serial_write (bytes ''VIBIX: fb: Bochs VBE not detected.'' @ [0x0A]) k)
         else let k = serial_write (bytes ''VIBIX: fb: Bochs VBE detected '' @ DASH @ bytes '' setting 1024'' @ TIMES @
                        bytes ''768'' @ TIMES @ bytes ''32.'' @ [0x0A]) k;
                  d = wr VBE_REG_ENABLE 0 d;
                  d = wr VBE_REG_XRES 1024 d;
                  d = wr VBE_REG_YRES 768 d;
                  d = wr VBE_REG_BPP 32 d;
                  d = wr VBE_REG_ENABLE (VBE_ENABLE_FLAG OR VBE_LFB_FLAG OR VBE_NOCLEARMEM_FLAG) d;
                  k = serial_write (vbe_status (rd VBE_REG_XRES d) (rd VBE_REG_YRES d) (rd VBE_REG_BPP d)
                        (rd VBE_REG_ENABLE d)) k;
                  fb_addr = ucast (pci (pci_config_addr 0 2 0 0x10) AND 0xFFFFFFF0) :: u64
              in if fb_addr = 0
                 then Some (None, d, serial_write (bytes ''VIBIX: fb: VGA BAR0 is 0 '' @ DASH @ bytes '' no LFB.'' @ [0x0A]) k)
                 else let k = serial_write (bytes ''VIBIX: Framebuffer: 1024 '' @ TIMES @ bytes '' 768 @ 32 bpp, addr '' @
                            fmt_hex_pad 8 (unat fb_addr) @ [0x0A]) k
                      in do {
                        k \<leftarrow> map_range_2m fb_addr fb_addr (4096 * 768) PAGE_KERNEL_HUGE k;
                        Some (Some \<lparr>fb_address = fb_addr, fb_pitch = 4096, fb_width = 1024, fb_height = 768, fb_bpp = 32\<rparr>,
                              d, k) })"

definition fb_init :: "(u16 \<Rightarrow> u16 \<Rightarrow> 'd \<Rightarrow> 'd) \<Rightarrow> (u16 \<Rightarrow> 'd \<Rightarrow> u16) \<Rightarrow> (u32 \<Rightarrow> u32) \<Rightarrow> 'd \<Rightarrow> kernel
    \<Rightarrow> (framebuffer option \<times> 'd \<times> kernel) option" where
  "fb_init wr rd pci d k = do {
     (fb, d, k) \<leftarrow> init_vbe wr rd pci d k;
     Some (fb, d, case fb of Some _ \<Rightarrow> k
                  | None \<Rightarrow> serial_write (bytes ''VIBIX: No framebuffer available.'' @ [0x0A]) k) }"

subsection \<open>Drawing\<close>

definition FONT8X16 :: "u8 list list" where
  "FONT8X16 = [
     [0, 0, 0, 0, 0, 0, 0, 0, 0, 0, 0, 0, 0, 0, 0, 0],
     [0, 0, 0x18, 0x18, 0x18, 0x18, 0x18, 0x18, 0x18, 0, 0x18, 0x18, 0, 0, 0, 0],
     [0, 0, 0x66, 0x66, 0x66, 0x66, 0, 0, 0, 0, 0, 0, 0, 0, 0, 0],
     [0, 0, 0, 0x24, 0x24, 0x7E, 0x24, 0x24, 0x7E, 0x24, 0x24, 0, 0, 0, 0, 0],
     [0, 0, 8, 0x3E, 0x49, 0x48, 0x3E, 9, 9, 0x4B, 0x3E, 8, 0, 0, 0, 0],
     [0, 0, 0, 0x31, 0x4A, 0x4A, 0x34, 8, 8, 0x2C, 0x52, 0x52, 0x4C, 0, 0, 0],
     [0, 0, 0, 0x1C, 0x22, 0x22, 0x14, 0x18, 0x29, 0x45, 0x42, 0x39, 0, 0, 0, 0],
     [0, 0, 0x18, 0x18, 0x18, 0x18, 0, 0, 0, 0, 0, 0, 0, 0, 0, 0],
     [0, 0, 4, 8, 8, 0x10, 0x10, 0x10, 0x10, 0x10, 8, 8, 4, 0, 0, 0],
     [0, 0, 0x20, 0x10, 0x10, 8, 8, 8, 8, 8, 0x10, 0x10, 0x20, 0, 0, 0],
     [0, 0, 0, 0, 8, 0x49, 0x2A, 0x1C, 0x2A, 0x49, 8, 0, 0, 0, 0, 0],
     [0, 0, 0, 0, 8, 8, 8, 0x7F, 8, 8, 8, 0, 0, 0, 0, 0],
     [0, 0, 0, 0, 0, 0, 0, 0, 0, 0x18, 0x18, 0x18, 8, 0, 0, 0],
     [0, 0, 0, 0, 0, 0, 0, 0x7E, 0, 0, 0, 0, 0, 0, 0, 0],
     [0, 0, 0, 0, 0, 0, 0, 0, 0, 0x18, 0x18, 0x18, 0, 0, 0, 0],
     [0, 0, 0, 2, 4, 4, 8, 0x10, 0x20, 0x20, 0x40, 0, 0, 0, 0, 0],
     [0, 0, 0x3C, 0x42, 0x46, 0x4A, 0x52, 0x62, 0x42, 0x42, 0x3C, 0, 0, 0, 0, 0],
     [0, 0, 8, 0x18, 0x28, 8, 8, 8, 8, 8, 0x3E, 0, 0, 0, 0, 0],
     [0, 0, 0x3C, 0x42, 0x42, 2, 4, 8, 0x10, 0x20, 0x7E, 0, 0, 0, 0, 0],
     [0, 0, 0x3C, 0x42, 0x42, 2, 0x1C, 2, 0x42, 0x42, 0x3C, 0, 0, 0, 0, 0],
     [0, 0, 4, 0x0C, 0x14, 0x24, 0x44, 0x7E, 4, 4, 4, 0, 0, 0, 0, 0],
     [0, 0, 0x7E, 0x40, 0x40, 0x5C, 0x62, 2, 2, 0x42, 0x3C, 0, 0, 0, 0, 0],
     [0, 0, 0x1C, 0x20, 0x40, 0x5C, 0x62, 0x42, 0x42, 0x42, 0x3C, 0, 0, 0, 0, 0],
     [0, 0, 0x7E, 2, 4, 8, 8, 0x10, 0x10, 0x10, 0x10, 0, 0, 0, 0, 0],
     [0, 0, 0x3C, 0x42, 0x42, 0x42, 0x3C, 0x42, 0x42, 0x42, 0x3C, 0, 0, 0, 0, 0],
     [0, 0, 0x3C, 0x42, 0x42, 0x42, 0x3E, 2, 2, 4, 0x38, 0, 0, 0, 0, 0],
     [0, 0, 0, 0, 0x18, 0x18, 0, 0, 0, 0x18, 0x18, 0, 0, 0, 0, 0],
     [0, 0, 0, 0, 0x18, 0x18, 0, 0, 0, 0x18, 0x18, 8, 0, 0, 0, 0],
     [0, 0, 2, 4, 8, 0x10, 0x20, 0x10, 8, 4, 2, 0, 0, 0, 0, 0],
     [0, 0, 0, 0, 0, 0x7E, 0, 0, 0x7E, 0, 0, 0, 0, 0, 0, 0],
     [0, 0, 0x40, 0x20, 0x10, 8, 4, 8, 0x10, 0x20, 0x40, 0, 0, 0, 0, 0],
     [0, 0, 0x3C, 0x42, 0x42, 2, 4, 8, 8, 0, 8, 8, 0, 0, 0, 0],
     [0, 0, 0x3C, 0x42, 0x42, 0x4E, 0x52, 0x4E, 0x40, 0x42, 0x3C, 0, 0, 0, 0, 0],
     [0, 0, 0x18, 0x24, 0x42, 0x42, 0x7E, 0x42, 0x42, 0x42, 0x42, 0, 0, 0, 0, 0],
     [0, 0, 0x7C, 0x42, 0x42, 0x42, 0x7C, 0x42, 0x42, 0x42, 0x7C, 0, 0, 0, 0, 0],
     [0, 0, 0x3C, 0x42, 0x40, 0x40, 0x40, 0x40, 0x40, 0x42, 0x3C, 0, 0, 0, 0, 0],
     [0, 0, 0x78, 0x44, 0x42, 0x42, 0x42, 0x42, 0x42, 0x44, 0x78, 0, 0, 0, 0, 0],
     [0, 0, 0x7E, 0x40, 0x40, 0x40, 0x78, 0x40, 0x40, 0x40, 0x7E, 0, 0, 0, 0, 0],
     [0, 0, 0x7E, 0x40, 0x40, 0x40, 0x78, 0x40, 0x40, 0x40, 0x40, 0, 0, 0, 0, 0],
     [0, 0, 0x3C, 0x42, 0x40, 0x40, 0x4E, 0x42, 0x42, 0x46, 0x3A, 0, 0, 0, 0, 0],
     [0, 0, 0x42, 0x42, 0x42, 0x42, 0x7E, 0x42, 0x42, 0x42, 0x42, 0, 0, 0, 0, 0],
     [0, 0, 0x3E, 8, 8, 8, 8, 8, 8, 8, 0x3E, 0, 0, 0, 0, 0],
     [0, 0, 0x1F, 4, 4, 4, 4, 4, 0x44, 0x44, 0x38, 0, 0, 0, 0, 0],
     [0, 0, 0x42, 0x44, 0x48, 0x50, 0x60, 0x50, 0x48, 0x44, 0x42, 0, 0, 0, 0, 0],
     [0, 0, 0x40, 0x40, 0x40, 0x40, 0x40, 0x40, 0x40, 0x40, 0x7E, 0, 0, 0, 0, 0],
     [0, 0, 0x42, 0x66, 0x5A, 0x5A, 0x42, 0x42, 0x42, 0x42, 0x42, 0, 0, 0, 0, 0],
     [0, 0, 0x42, 0x62, 0x52, 0x4A, 0x46, 0x42, 0x42, 0x42, 0x42, 0, 0, 0, 0, 0],
     [0, 0, 0x3C, 0x42, 0x42, 0x42, 0x42, 0x42, 0x42, 0x42, 0x3C, 0, 0, 0, 0, 0],
     [0, 0, 0x7C, 0x42, 0x42, 0x42, 0x7C, 0x40, 0x40, 0x40, 0x40, 0, 0, 0, 0, 0],
     [0, 0, 0x3C, 0x42, 0x42, 0x42, 0x42, 0x4A, 0x44, 0x42, 0x3D, 0, 0, 0, 0, 0],
     [0, 0, 0x7C, 0x42, 0x42, 0x42, 0x7C, 0x48, 0x44, 0x42, 0x42, 0, 0, 0, 0, 0],
     [0, 0, 0x3C, 0x42, 0x40, 0x30, 0x0C, 2, 0x42, 0x42, 0x3C, 0, 0, 0, 0, 0],
     [0, 0, 0x7F, 8, 8, 8, 8, 8, 8, 8, 8, 0, 0, 0, 0, 0],
     [0, 0, 0x42, 0x42, 0x42, 0x42, 0x42, 0x42, 0x42, 0x42, 0x3C, 0, 0, 0, 0, 0],
     [0, 0, 0x42, 0x42, 0x42, 0x42, 0x42, 0x42, 0x24, 0x18, 0, 0, 0, 0, 0, 0],
     [0, 0, 0x42, 0x42, 0x42, 0x42, 0x42, 0x5A, 0x5A, 0x66, 0x42, 0, 0, 0, 0, 0],
     [0, 0, 0x42, 0x42, 0x24, 0x18, 0x18, 0x24, 0x42, 0x42, 0x42, 0, 0, 0, 0, 0],
     [0, 0, 0x41, 0x22, 0x14, 8, 8, 8, 8, 8, 8, 0, 0, 0, 0, 0],
     [0, 0, 0x7E, 2, 4, 8, 0x10, 0x20, 0x40, 0x40, 0x7E, 0, 0, 0, 0, 0],
     [0, 0, 0x1E, 0x10, 0x10, 0x10, 0x10, 0x10, 0x10, 0x10, 0x1E, 0, 0, 0, 0, 0],
     [0, 0, 0, 0x40, 0x20, 0x20, 0x10, 8, 4, 4, 2, 0, 0, 0, 0, 0],
     [0, 0, 0x78, 8, 8, 8, 8, 8, 8, 8, 0x78, 0, 0, 0, 0, 0],
     [0, 0, 8, 0x14, 0x22, 0, 0, 0, 0, 0, 0, 0, 0, 0, 0, 0],
     [0, 0, 0, 0, 0, 0, 0, 0, 0, 0, 0, 0x7F, 0, 0, 0, 0],
     [0, 0, 0x30, 0x18, 0x0C, 0, 0, 0, 0, 0, 0, 0, 0, 0, 0, 0],
     [0, 0, 0, 0, 0x3C, 2, 0x3E, 0x42, 0x46, 0x3A, 0, 0, 0, 0, 0, 0],
     [0, 0, 0x40, 0x40, 0x5C, 0x62, 0x42, 0x42, 0x42, 0x62, 0x5C, 0, 0, 0, 0, 0],
     [0, 0, 0, 0, 0x3C, 0x42, 0x40, 0x40, 0x42, 0x3C, 0, 0, 0, 0, 0, 0],
     [0, 0, 2, 2, 0x3A, 0x46, 0x42, 0x42, 0x42, 0x46, 0x3A, 0, 0, 0, 0, 0],
     [0, 0, 0, 0, 0x3C, 0x42, 0x7E, 0x40, 0x42, 0x3C, 0, 0, 0, 0, 0, 0],
     [0, 0, 0x0C, 0x12, 0x10, 0x10, 0x7C, 0x10, 0x10, 0x10, 0x10, 0, 0, 0, 0, 0],
     [0, 0, 0, 0x3A, 0x46, 0x42, 0x42, 0x46, 0x3A, 2, 0x42, 0x3C, 0, 0, 0, 0],
     [0, 0, 0x40, 0x40, 0x5C, 0x62, 0x42, 0x42, 0x42, 0x42, 0x42, 0, 0, 0, 0, 0],
     [0, 0, 8, 0, 0x18, 8, 8, 8, 8, 8, 0x3E, 0, 0, 0, 0, 0],
     [0, 0, 4, 0, 0x0C, 4, 4, 4, 4, 4, 0x44, 0x44, 0x38, 0, 0, 0],
     [0, 0, 0x40, 0x40, 0x42, 0x44, 0x48, 0x70, 0x48, 0x44, 0x42, 0, 0, 0, 0, 0],
     [0, 0, 0x18, 8, 8, 8, 8, 8, 8, 8, 0x3E, 0, 0, 0, 0, 0],
     [0, 0, 0, 0, 0x76, 0x49, 0x49, 0x49, 0x49, 0x49, 0, 0, 0, 0, 0, 0],
     [0, 0, 0, 0, 0x5C, 0x62, 0x42, 0x42, 0x42, 0x42, 0, 0, 0, 0, 0, 0],
     [0, 0, 0, 0, 0x3C, 0x42, 0x42, 0x42, 0x42, 0x3C, 0, 0, 0, 0, 0, 0],
     [0, 0, 0, 0, 0x5C, 0x62, 0x42, 0x42, 0x62, 0x5C, 0x40, 0x40, 0x40, 0, 0, 0],
     [0, 0, 0, 0, 0x3A, 0x46, 0x42, 0x42, 0x46, 0x3A, 2, 2, 2, 0, 0, 0],
     [0, 0, 0, 0, 0x5C, 0x62, 0x40, 0x40, 0x40, 0x40, 0, 0, 0, 0, 0, 0],
     [0, 0, 0, 0, 0x3E, 0x40, 0x3C, 2, 0x42, 0x3C, 0, 0, 0, 0, 0, 0],
     [0, 0, 0x10, 0x10, 0x7C, 0x10, 0x10, 0x10, 0x10, 0x12, 0x0C, 0, 0, 0, 0, 0],
     [0, 0, 0, 0, 0x42, 0x42, 0x42, 0x42, 0x46, 0x3A, 0, 0, 0, 0, 0, 0],
     [0, 0, 0, 0, 0x42, 0x42, 0x42, 0x42, 0x24, 0x18, 0, 0, 0, 0, 0, 0],
     [0, 0, 0, 0, 0x42, 0x42, 0x42, 0x49, 0x49, 0x36, 0, 0, 0, 0, 0, 0],
     [0, 0, 0, 0, 0x42, 0x24, 0x18, 0x18, 0x24, 0x42, 0, 0, 0, 0, 0, 0],
     [0, 0, 0, 0, 0x42, 0x42, 0x42, 0x46, 0x3A, 2, 0x42, 0x3C, 0, 0, 0, 0],
     [0, 0, 0, 0, 0x7E, 4, 8, 0x10, 0x20, 0x7E, 0, 0, 0, 0, 0, 0],
     [0, 0, 6, 8, 8, 8, 0x30, 8, 8, 8, 6, 0, 0, 0, 0, 0],
     [0, 0, 8, 8, 8, 8, 8, 8, 8, 8, 8, 0, 0, 0, 0, 0],
     [0, 0, 0x60, 0x10, 0x10, 0x10, 0x0C, 0x10, 0x10, 0x10, 0x60, 0, 0, 0, 0, 0],
     [0, 0, 0, 0, 0, 0, 0x30, 0x49, 6, 0, 0, 0, 0, 0, 0, 0]]"

definition pixel_addr :: "framebuffer \<Rightarrow> nat \<Rightarrow> nat \<Rightarrow> u64" where
  "pixel_addr fb x y = fb_address fb + of_nat y * ucast (fb_pitch fb) + of_nat x * 4"

definition store32 :: "u64 \<Rightarrow> u32 \<Rightarrow> mem \<Rightarrow> mem" where
  "store32 a v m = write_bytes a (le_bytes 4 v) m"

definition plot_pixel :: "framebuffer \<Rightarrow> u32 \<Rightarrow> u32 \<Rightarrow> u32 \<Rightarrow> mem \<Rightarrow> mem" where
  "plot_pixel fb x y colour m =
     (if x \<ge> fb_width fb \<or> y \<ge> fb_height fb then m
      else store32 (pixel_addr fb (unat x) (unat y)) colour m)"

definition sat_pred :: "u32 \<Rightarrow> u32" where
  "sat_pred x = (if x = 0 then 0 else x - 1)"

text \<open>The inclusive bounds of the loops of \<open>fill_rect\<close>.\<close>
definition clamp_range :: "u32 \<Rightarrow> u32 \<Rightarrow> u32 \<Rightarrow> u32 \<times> u32" where
  "clamp_range lim a b =
     (let lo = min a (sat_pred lim) in (lo, max (min b (sat_pred lim)) lo))"

definition fill_rect :: "framebuffer \<Rightarrow> u32 \<Rightarrow> u32 \<Rightarrow> u32 \<Rightarrow> u32 \<Rightarrow> u32 \<Rightarrow> mem \<Rightarrow> mem" where
  "fill_rect fb x1 y1 x2 y2 colour m =
     (let (x1, x2) = clamp_range (fb_width fb) x1 x2; (y1, y2) = clamp_range (fb_height fb) y1 y2 in
      fold (\<lambda>y. fold (\<lambda>x. store32 (pixel_addr fb x y) colour) [unat x1..<Suc (unat x2)])
        [unat y1..<Suc (unat y2)] m)"

text \<open>A Rust \<open>char\<close> is its code point.\<close>
definition draw_char :: "framebuffer \<Rightarrow> u32 \<Rightarrow> u32 \<Rightarrow> u32 \<Rightarrow> u32 \<Rightarrow> u32 option \<Rightarrow> mem \<Rightarrow> mem" where
  "draw_char fb x y c colour bg m =
     (let idx = unat (ucast c - 0x20 :: u64) in
      if idx \<ge> length FONT8X16 then m
      else fold (\<lambda>row. let row_bits = FONT8X16 ! idx ! row in
             fold (\<lambda>col m.
               let px = x + of_nat col; py = y + of_nat row in
               if px \<ge> fb_width fb \<or> py \<ge> fb_height fb then m
               else if row_bits AND drop_bit col 0x80 \<noteq> 0 then plot_pixel fb px py colour m
               else case bg of Some b \<Rightarrow> plot_pixel fb px py b m | None \<Rightarrow> m) [0..<8]) [0..<16] m)"

fun draw_string :: "framebuffer \<Rightarrow> u32 \<Rightarrow> u32 \<Rightarrow> u32 list \<Rightarrow> u32 \<Rightarrow> u32 option \<Rightarrow> mem \<Rightarrow> mem" where
  "draw_string fb cx y [] colour bg m = m"
| "draw_string fb cx y (c # cs) colour bg m =
     (let m = draw_char fb cx y c colour bg m; cx = cx + 9 in
      if cx + 8 \<ge> fb_width fb then m else draw_string fb cx y cs colour bg m)"

definition fb_clear :: "framebuffer \<Rightarrow> u32 \<Rightarrow> mem \<Rightarrow> mem" where
  "fb_clear fb colour m = fill_rect fb 0 0 (fb_width fb - 1) (fb_height fb - 1) colour m"

end
