(* ===== verification/Ps2.thy ===== *)
theory Ps2 imports Serial_Port begin

text \<open>The initialisation of the PS/2 controller and keyboard (\<open>keyboard.rs\<close>, \<open>init\<close>): the bounded waits, the
  handshake and its early returns, on the ports of a device that is not part of the sources.\<close>

definition DATA_PORT :: u16 where "DATA_PORT = 0x60"
definition STATUS_PORT :: u16 where "STATUS_PORT = 0x64"
definition STATUS_OUTPUT_FULL :: u8 where "STATUS_OUTPUT_FULL = 0x01"
definition STATUS_INPUT_FULL :: u8 where "STATUS_INPUT_FULL = 0x02"
definition WAIT_TIMEOUT :: nat where "WAIT_TIMEOUT = 100000"

text \<open>Polls the status register until the condition holds or the count is used up.\<close>
fun wait_status :: "'d bus \<Rightarrow> (u8 \<Rightarrow> bool) \<Rightarrow> nat \<Rightarrow> 'd \<Rightarrow> 'd" where
  "wait_status b done_cond 0 d = d"
| "wait_status b done_cond (Suc n) d =
     (let (s, d) = in_b b STATUS_PORT d in if done_cond s then d else wait_status b done_cond n d)"

definition wait_write :: "'d bus \<Rightarrow> 'd \<Rightarrow> 'd" where
  "wait_write b d = wait_status b (\<lambda>s. s AND STATUS_INPUT_FULL = 0) WAIT_TIMEOUT d"

definition wait_read :: "'d bus \<Rightarrow> 'd \<Rightarrow> 'd" where
  "wait_read b d = wait_status b (\<lambda>s. s AND STATUS_OUTPUT_FULL \<noteq> 0) WAIT_TIMEOUT d"

fun flush_output :: "'d bus \<Rightarrow> nat \<Rightarrow> 'd \<Rightarrow> 'd" where
  "flush_output b 0 d = d"
| "flush_output b (Suc n) d =
     (let (s, d) = in_b b STATUS_PORT d in
      if s AND STATUS_OUTPUT_FULL = 0 then d else flush_output b n (snd (in_b b DATA_PORT d)))"

definition ps2_command :: "'d bus \<Rightarrow> u16 \<Rightarrow> u8 \<Rightarrow> 'd \<Rightarrow> 'd" where
  "ps2_command b port v d = out_b b port v (wait_write b d)"

definition ps2_answer :: "'d bus \<Rightarrow> 'd \<Rightarrow> u8 \<times> 'd" where
  "ps2_answer b d = in_b b DATA_PORT (wait_read b d)"

definition ps2_scanning :: "'d bus \<Rightarrow> 'd \<Rightarrow> 'd" where
  "ps2_scanning b d = snd (ps2_answer b (ps2_command b DATA_PORT 0xF4 d))"

definition ps2_reset :: "'d bus \<Rightarrow> 'd \<Rightarrow> 'd" where
  "ps2_reset b d =
     (let (resp, d) = ps2_answer b (ps2_command b DATA_PORT 0xFF d) in
      if resp = 0xFA
      then let (bat, d) = ps2_answer b d in if bat \<noteq> 0xAA then d else ps2_scanning b d
      else if resp \<noteq> 0xAA then d else ps2_scanning b d)"

definition keyboard_init :: "'d bus \<Rightarrow> 'd \<Rightarrow> 'd" where
  "keyboard_init b d =
     (let d = ps2_command b STATUS_PORT 0xA7 (ps2_command b STATUS_PORT 0xAD d);
          d = flush_output b WAIT_TIMEOUT d;
          (r, d) = ps2_answer b (ps2_command b STATUS_PORT 0xAA d)
      in if r \<noteq> 0x55 then d
         else ps2_reset b (ps2_command b DATA_PORT 0x47 (ps2_command b STATUS_PORT 0x60 d)))"

subsection \<open>What the handshake writes\<close>

text \<open>A view \<open>log\<close> of the device that records the port writes in order.\<close>
definition logs_writes :: "'d bus \<Rightarrow> ('d \<Rightarrow> (u16 \<times> u8) list) \<Rightarrow> bool" where
  "logs_writes b log \<longleftrightarrow> (\<forall>p d. log (snd (in_b b p d)) = log d) \<and> (\<forall>p v d. log (out_b b p v d) = log d @ [(p, v)])"

lemma log_wait_status: "logs_writes b log \<Longrightarrow> log (wait_status b c n d) = log d"
  by (induction n arbitrary: d) (auto simp: logs_writes_def split_beta)

lemma log_flush: "logs_writes b log \<Longrightarrow> log (flush_output b n d) = log d"
  by (induction n arbitrary: d) (auto simp: logs_writes_def split_beta)

lemma log_command: "logs_writes b log \<Longrightarrow> log (ps2_command b p v d) = log d @ [(p, v)]"
  using log_wait_status by (simp add: ps2_command_def wait_write_def logs_writes_def)

lemma log_answer: "logs_writes b log \<Longrightarrow> log (snd (ps2_answer b d)) = log d"
  using log_wait_status by (simp add: ps2_answer_def wait_read_def logs_writes_def)

lemma log_scanning: "logs_writes b log \<Longrightarrow> log (ps2_scanning b d) = log d @ [(DATA_PORT, 0xF4)]"
  by (simp add: ps2_scanning_def log_answer log_command)

definition HANDSHAKE :: "(u16 \<times> u8) list" where
  "HANDSHAKE = [(STATUS_PORT, 0xAD), (STATUS_PORT, 0xA7), (STATUS_PORT, 0xAA), (STATUS_PORT, 0x60), (DATA_PORT, 0x47),
     (DATA_PORT, 0xFF), (DATA_PORT, 0xF4)]"

text \<open>The answers of the device to the controller test, to the keyboard reset and to the wait for the
  keyboard's own test.\<close>
definition test_answer :: "'d bus \<Rightarrow> 'd \<Rightarrow> u8 \<times> 'd" where
  "test_answer b d = ps2_answer b (ps2_command b STATUS_PORT 0xAA
     (flush_output b WAIT_TIMEOUT (ps2_command b STATUS_PORT 0xA7 (ps2_command b STATUS_PORT 0xAD d))))"

definition reset_answer :: "'d bus \<Rightarrow> 'd \<Rightarrow> u8 \<times> 'd" where
  "reset_answer b d = ps2_answer b (ps2_command b DATA_PORT 0xFF
     (ps2_command b DATA_PORT 0x47 (ps2_command b STATUS_PORT 0x60 (snd (test_answer b d)))))"

definition keyboard_alive :: "'d bus \<Rightarrow> 'd \<Rightarrow> bool" where
  "keyboard_alive b d \<longleftrightarrow> fst (reset_answer b d) = 0xAA \<or>
     fst (reset_answer b d) = 0xFA \<and> fst (ps2_answer b (snd (reset_answer b d))) = 0xAA"

lemma log_test: "logs_writes b log \<Longrightarrow> log (snd (test_answer b d)) = log d @ take 3 HANDSHAKE"
  by (simp add: test_answer_def HANDSHAKE_def log_answer log_command log_flush)

lemma log_reset: "logs_writes b log \<Longrightarrow> log (snd (reset_answer b d)) = log d @ take 6 HANDSHAKE"
  by (simp add: reset_answer_def log_answer log_command log_test) (simp add: HANDSHAKE_def)

text \<open>C38. On any device the initialisation ends, its port writes are a prefix of the fixed command sequence, and a
  wrong answer stops it: the configuration byte and the keyboard reset are written exactly when the controller
  test answered 0x55, and scanning is enabled exactly when the keyboard then passed its own test.\<close>
theorem keyboard_init_writes:
  assumes "logs_writes b log"
  shows "log (keyboard_init b d) = log d @ take
    (if fst (test_answer b d) \<noteq> 0x55 then 3 else if keyboard_alive b d then 7 else 6) HANDSHAKE"
proof -
  obtain r d1 where t: "test_answer b d = (r, d1)" by fastforce
  obtain q d2 where q: "reset_answer b d = (q, d2)" by fastforce
  obtain u d3 where u: "ps2_answer b d2 = (u, d3)" by fastforce
  have init: "keyboard_init b d = (if r \<noteq> 0x55 then d1 else
      if q = 0xFA then (if u \<noteq> 0xAA then d3 else ps2_scanning b d3)
      else if q \<noteq> 0xAA then d2 else ps2_scanning b d2)"
    using t q u by (simp add: keyboard_init_def test_answer_def reset_answer_def ps2_reset_def Let_def)
  have "log d1 = log d @ take 3 HANDSHAKE" "log d2 = log d @ take 6 HANDSHAKE" "log d3 = log d2"
    using log_test [OF assms, of d] log_reset [OF assms, of d] log_answer [OF assms, of d2] t q u by simp_all
  moreover have "take 7 HANDSHAKE = take 6 HANDSHAKE @ [(DATA_PORT, 0xF4)]" by (simp add: HANDSHAKE_def)
  ultimately show ?thesis using t q u by (simp add: init keyboard_alive_def log_scanning [OF assms])
qed

text \<open>A device with a script of answers, ready to be read after a command that has an answer.\<close>
definition scripted :: "(bool \<times> u8 list \<times> (u16 \<times> u8) list) bus" where
  "scripted = \<lparr>in_b = (\<lambda>p (full, as, l). if p = DATA_PORT then (hd as, (False, tl as, l)) else (if full then 1 else 0, (full, as, l))),
     out_b = (\<lambda>p v (full, as, l). (v \<in> {0xAA, 0xFF, 0xF4}, as, l @ [(p, v)]))\<rparr>"

lemma scripted_step:
  "0 < n \<Longrightarrow> wait_status scripted (\<lambda>s. s AND STATUS_INPUT_FULL = 0) n (full, as, l) = (full, as, l)"
  "0 < n \<Longrightarrow> wait_status scripted (\<lambda>s. s AND STATUS_OUTPUT_FULL \<noteq> 0) n (True, as, l) = (True, as, l)"
  "0 < n \<Longrightarrow> flush_output scripted n (False, as, l) = (False, as, l)"
  "in_b scripted DATA_PORT (full, a # as, l) = (a, (False, as, l))"
  "out_b scripted p v (full, as, l) = (v \<in> {0xAA, 0xFF, 0xF4}, as, l @ [(p, v)])"
  "0 < WAIT_TIMEOUT"
  by (cases n; simp add: scripted_def STATUS_INPUT_FULL_def STATUS_OUTPUT_FULL_def STATUS_PORT_def DATA_PORT_def WAIT_TIMEOUT_def)+

lemmas scripted_eval = scripted_step test_answer_def reset_answer_def keyboard_alive_def ps2_answer_def ps2_command_def
  wait_write_def wait_read_def

theorem keyboard_init_writes_witness:
  "snd (snd (keyboard_init scripted (False, [0xFC], []))) = take 3 HANDSHAKE \<and>
   snd (snd (keyboard_init scripted (False, [0x55, 0xAA, 0xFA], []))) = HANDSHAKE"
proof -
  have l: "logs_writes scripted (snd \<circ> snd)" by (simp add: logs_writes_def scripted_def split_beta)
  have "fst (test_answer scripted (False, [0xFC], [])) \<noteq> 0x55"
    "fst (test_answer scripted (False, [0x55, 0xAA, 0xFA], [])) = 0x55"
    "keyboard_alive scripted (False, [0x55, 0xAA, 0xFA], [])"
    by (simp_all add: scripted_eval)
  moreover have "take 7 HANDSHAKE = HANDSHAKE" by (simp add: HANDSHAKE_def)
  ultimately show ?thesis using keyboard_init_writes [OF l] by simp
qed

end
