(* ===== verification/Gdt.thy ===== *)
theory Gdt imports Process begin

text \<open>Segmentation and the system call registers (\<open>gdt.rs\<close>): the descriptor table, the task state segment with the
  stack pointer for ring 0, and the machine registers that \<open>syscall\<close> and \<open>sysret\<close> use.  The addresses of
  the table and of the segment are the linker's, and parameters here; a machine register is read and written by
  its number.\<close>

definition seg_entry :: "u8 \<Rightarrow> u8 \<Rightarrow> u64" where
  "seg_entry access fl = push_bit 48 (ucast fl) OR push_bit 40 (ucast access)"

definition GDT_NULL :: u64 where "GDT_NULL = 0"
definition GDT_KERNEL_CODE :: u64 where "GDT_KERNEL_CODE = seg_entry 0x9A 0x20"
definition GDT_KERNEL_DATA :: u64 where "GDT_KERNEL_DATA = seg_entry 0x92 0x00"
definition GDT_USER_DATA :: u64 where "GDT_USER_DATA = seg_entry 0xF2 0x00"
definition GDT_USER_CODE :: u64 where "GDT_USER_CODE = seg_entry 0xFA 0x20"
definition GDT_SYSRET_CODE :: u64 where "GDT_SYSRET_CODE = seg_entry 0xFA 0x20"
definition GDT_SYSRET_DATA :: u64 where "GDT_SYSRET_DATA = seg_entry 0xF2 0x00"

definition KERNEL_CS :: u16 where "KERNEL_CS = push_bit 3 1"
definition KERNEL_DS :: u16 where "KERNEL_DS = push_bit 3 2"
definition USER_DS :: u16 where "USER_DS = push_bit 3 3"
definition USER_CS :: u16 where "USER_CS = push_bit 3 4"
definition USER_DS_RPL3 :: u16 where "USER_DS_RPL3 = USER_DS OR 3"
definition USER_CS_RPL3 :: u16 where "USER_CS_RPL3 = USER_CS OR 3"
definition SYSRET_CS :: u16 where "SYSRET_CS = push_bit 3 5"
definition SYSRET_DS :: u16 where "SYSRET_DS = push_bit 3 6"

text \<open>The packed task state segment; \<open>tss_ist\<close> holds the seven interrupt stack pointers.\<close>
record tss =
  tss_reserved0 :: u32
  tss_rsp0 :: u64
  tss_rsp1 :: u64
  tss_rsp2 :: u64
  tss_reserved1 :: u64
  tss_ist :: "u64 list"
  tss_reserved2 :: u64
  tss_iomap_base :: u16

definition tss_new :: tss where
  "tss_new = \<lparr>tss_reserved0 = 0, tss_rsp0 = 0, tss_rsp1 = 0, tss_rsp2 = 0, tss_reserved1 = 0, tss_ist = replicate 7 0,
     tss_reserved2 = 0, tss_iomap_base = 0\<rparr>"

definition tss_bytes :: "tss \<Rightarrow> u8 list" where
  "tss_bytes t = le_bytes 4 (tss_reserved0 t) @ le_bytes 8 (tss_rsp0 t) @ le_bytes 8 (tss_rsp1 t) @ le_bytes 8 (tss_rsp2 t) @
     le_bytes 8 (tss_reserved1 t) @ concat (map (le_bytes 8) (tss_ist t)) @ le_bytes 8 (tss_reserved2 t) @
     le_bytes 2 (tss_iomap_base t)"

definition tss_descriptor :: "u64 \<Rightarrow> u32 \<Rightarrow> u64 \<times> u64" where
  "tss_descriptor tss_addr sz =
     (let limit = sz - 1;
          low = (ucast limit AND 0xFFFF) OR push_bit 16 (tss_addr AND 0xFFFFFF) OR push_bit 32 (tss_addr AND 0xFF000000) OR
            push_bit 40 0x89 OR push_bit 48 (ucast (drop_bit 16 limit) AND 0xF)
      in (low, drop_bit 32 tss_addr))"

type_synonym gdt = "u64 list"

definition gdt_new :: gdt where
  "gdt_new = [GDT_NULL, GDT_KERNEL_CODE, GDT_KERNEL_DATA, GDT_USER_DATA, GDT_USER_CODE, GDT_SYSRET_CODE, GDT_SYSRET_DATA, 0, 0]"

definition install_tss :: "u64 \<Rightarrow> tss \<Rightarrow> gdt \<Rightarrow> gdt" where
  "install_tss tss_addr t g =
     (let (low, high) = tss_descriptor tss_addr (of_nat (length (tss_bytes t))) in g[7 := low, 8 := high])"

definition set_rsp0 :: "u64 \<Rightarrow> tss \<Rightarrow> tss" where
  "set_rsp0 v t = t\<lparr>tss_rsp0 := v\<rparr>"

text \<open>The registers that the initialisation loads.\<close>
record cpu =
  gdtr_limit :: u16
  gdtr_base :: u64
  cpu_cs :: u16
  cpu_ds :: u16
  cpu_es :: u16
  cpu_ss :: u16
  cpu_tr :: u16
  msr :: "u32 \<Rightarrow> u64"

definition IA32_EFER :: u32 where "IA32_EFER = 0xC0000080"
definition IA32_STAR :: u32 where "IA32_STAR = 0xC0000081"
definition IA32_LSTAR :: u32 where "IA32_LSTAR = 0xC0000082"
definition IA32_FMASK :: u32 where "IA32_FMASK = 0xC0000084"

definition load_gdt :: "u64 \<Rightarrow> gdt \<Rightarrow> cpu \<Rightarrow> cpu" where
  "load_gdt base g c = c\<lparr>gdtr_limit := of_nat (8 * length g) - 1, gdtr_base := base, cpu_cs := KERNEL_CS,
     cpu_ds := KERNEL_DS, cpu_es := KERNEL_DS, cpu_ss := KERNEL_DS\<rparr>"

definition load_tss :: "cpu \<Rightarrow> cpu" where
  "load_tss c = c\<lparr>cpu_tr := 0x38\<rparr>"

definition wrmsr :: "u32 \<Rightarrow> u64 \<Rightarrow> cpu \<Rightarrow> cpu" where
  "wrmsr r v c = c\<lparr>msr := (msr c)(r := v)\<rparr>"

definition setup_syscall_msrs :: "u64 \<Rightarrow> cpu \<Rightarrow> cpu" where
  "setup_syscall_msrs syscall_entry c =
     (let star = push_bit 48 0x13 OR push_bit 32 (ucast KERNEL_CS) in
      wrmsr IA32_FMASK 0x200 (wrmsr IA32_LSTAR syscall_entry (wrmsr IA32_STAR star c)))"

definition gdt_init :: "u64 \<Rightarrow> u64 \<Rightarrow> u64 \<Rightarrow> u64 \<Rightarrow> gdt \<times> tss \<times> cpu \<Rightarrow> gdt \<times> tss \<times> cpu" where
  "gdt_init gdt_addr tss_addr stack_top syscall_entry s = (case s of (g, t, c) \<Rightarrow>
     let t = set_rsp0 stack_top t;
         g = install_tss tss_addr t g;
         c = load_tss (load_gdt gdt_addr g c);
         c = (if syscall_entry \<noteq> 0
              then let c = setup_syscall_msrs syscall_entry c in wrmsr IA32_EFER (msr c IA32_EFER OR 1) c
              else c)
     in (g, t, c))"

subsection \<open>Descriptors as the processor reads them\<close>

datatype descriptor =
    Code_Segment (dpl: nat) (long_mode: bool)
  | Data_Segment (dpl: nat) (writable: bool)
  | Task_State (tss_base: u64) (tss_limit: u32)
  | Not_Present

definition desc_dpl :: "u64 \<Rightarrow> nat" where
  "desc_dpl d = unat (drop_bit 45 d AND 3)"

definition descriptor_at :: "gdt \<Rightarrow> u16 \<Rightarrow> descriptor" where
  "descriptor_at g sel =
     (let i = unat (drop_bit 3 sel); d = g ! i in
      if \<not> bit d 47 then Not_Present
      else if bit d 44
      then if bit d 43 then Code_Segment (desc_dpl d) (bit d 53) else Data_Segment (desc_dpl d) (bit d 41)
      else if drop_bit 40 d AND 0xF = 9
      then Task_State ((drop_bit 16 d AND 0xFFFFFF) OR push_bit 24 (drop_bit 56 d AND 0xFF) OR push_bit 32 (g ! (i + 1)))
             (ucast (d AND 0xFFFF) OR push_bit 16 (ucast (drop_bit 48 d AND 0xF)))
      else Not_Present)"

text \<open>The selectors \<open>syscall\<close> and 64-bit \<open>sysret\<close> load, from the architecture manual.\<close>
definition syscall_selectors :: "u64 \<Rightarrow> u16 \<times> u16" where
  "syscall_selectors star = (let s = ucast (drop_bit 32 star) in (s AND 0xFFFC, s + 8))"

definition sysret_selectors :: "u64 \<Rightarrow> u16 \<times> u16" where
  "sysret_selectors star = (let s = ucast (drop_bit 48 star) in ((s + 16) OR 3, (s + 8) OR 3))"

text \<open>The fields of a task state descriptor do not overlap.\<close>
lemma tss_low_bit:
  "bit (fst (tss_descriptor a n)) i \<longleftrightarrow>
     (if i < 16 then bit (n - 1) i else if i < 40 then bit a (i - 16) else if i < 48 then bit (0x89 :: u64) (i - 40)
      else if i < 52 then bit (n - 1) (i - 32) else if i < 56 then False else i < 64 \<and> bit a (i - 32))"
proof -
  have m: "(0xFFFF :: u64) = mask 16" "(0xFFFFFF :: u64) = mask 24" "(0xFF000000 :: u64) = push_bit 24 (mask 8)" "(0xF :: u64) = mask 4"
    by (simp_all add: mask_eq_exp_minus_1)
  have "(0x89 :: u64) = take_bit 8 0x89" by simp
  then have c: "bit (0x89 :: u64) j \<longleftrightarrow> j < 8 \<and> bit (0x89 :: u64) j" for j by (metis bit_take_bit_iff)
  have "\<not> bit (0x89 :: u64) (i - 40)" if "48 \<le> i"
  proof -
    have "\<not> i - 40 < 8" using that by simp
    then show ?thesis using c by blast
  qed
  moreover have "bit (n - 1) j \<Longrightarrow> j < 32" for j using bit_imp_le_length [of "n - 1" j] by simp
  moreover have "bit a j \<Longrightarrow> j < 64" for j using bit_imp_le_length [of a j] by simp
  ultimately show ?thesis
    unfolding tss_descriptor_def Let_def fst_conv m
    by (auto simp: bit_simps not_less simp del: push_bit_numeral)
qed

lemma tss_high_bit: "bit (snd (tss_descriptor a n)) i \<longleftrightarrow> bit a (i + 32)"
  by (simp add: tss_descriptor_def Let_def bit_simps ac_simps)

lemma tss_descriptor_fields:
  fixes d :: u64
  assumes "d = fst (tss_descriptor a n)" "n - 1 < 0x100000"
  shows "(drop_bit 16 d AND 0xFFFFFF) OR push_bit 24 (drop_bit 56 d AND 0xFF) OR push_bit 32 (snd (tss_descriptor a n)) = a"
    and "ucast (d AND 0xFFFF) OR push_bit 16 (ucast (drop_bit 48 d AND 0xF)) = n - 1"
    and "drop_bit 40 d AND 0xF = 9" "bit d 47" "\<not> bit d 44"
proof -
  note b = tss_low_bit [of a n, folded assms(1)]
  have m: "(0xFFFF :: u64) = mask 16" "(0xFFFFFF :: u64) = mask 24" "(0xFF :: u64) = mask 8" "(0xF :: u64) = mask 4"
    by (simp_all add: mask_eq_exp_minus_1)
  show "(drop_bit 16 d AND 0xFFFFFF) OR push_bit 24 (drop_bit 56 d AND 0xFF) OR push_bit 32 (snd (tss_descriptor a n)) = a"
    unfolding m
  proof (rule bit_word_eqI)
    fix i assume "i < LENGTH(64)"
    then show "bit ((drop_bit 16 d AND mask 24) OR push_bit 24 (drop_bit 56 d AND mask 8) OR push_bit 32 (snd (tss_descriptor a n))) i = bit a i"
      by (cases "i < 32") (auto simp: bit_simps b tss_high_bit)
  qed
  have "take_bit 20 (n - 1) = n - 1" using assms(2)
    by (simp add: word_unat_eq_iff unsigned_take_bit_eq take_bit_nat_eq_self word_less_nat_alt)
  then have n: "bit (n - 1) i \<Longrightarrow> i < 20" for i by (metis bit_take_bit_iff)
  show "ucast (d AND 0xFFFF) OR push_bit 16 (ucast (drop_bit 48 d AND 0xF)) = n - 1"
    unfolding m by (rule bit_word_eqI) (auto simp: bit_simps b dest: n)
  show "bit d 47" "\<not> bit d 44" by (simp_all add: b)
  have "drop_bit 40 d AND 0xF = 0x89 AND 0xF" unfolding m
    by (rule bit_word_eqI) (auto simp: bit_simps b)
  then show "drop_bit 40 d AND 0xF = 9" by simp
qed

lemma length_tss_bytes: "length (tss_ist t) = 7 \<Longrightarrow> length (tss_bytes t) = 102"
proof -
  assume "length (tss_ist t) = 7"
  moreover have "length (concat (map (le_bytes 8) (xs :: u64 list))) = 8 * length xs" for xs
    by (induction xs) simp_all
  ultimately show ?thesis by (simp add: tss_bytes_def)
qed


definition demo_cpu :: cpu where
  "demo_cpu = \<lparr>gdtr_limit = 0, gdtr_base = 0, cpu_cs = 0, cpu_ds = 0, cpu_es = 0, cpu_ss = 0, cpu_tr = 0, msr = (\<lambda>_. 0x500)\<rparr>"


end
