(* ===== verification/Boot.thy ===== *)
theory Boot imports Syscall Multiboot Framebuffer Interrupts Ps2 Gdt begin

text \<open>The start of the kernel (\<open>lib.rs\<close>): the self tests of the allocators and of the page tables, the whole of
  \<open>kernel_main\<close> in the order of the source, the panic message and the dump of a return frame.

  The devices are the ports of a \<open>bus\<close>, the registers of the display adapter and PCI configuration space; the
  linker's addresses and the embedded archive are a record.  Between \<open>sti\<close> and the first process the timer finds
  no current process and returns to the interrupted code, so the sequence is modelled without it.\<close>

subsection \<open>Self tests and statistics\<close>

definition pmm_test_k :: "kernel \<Rightarrow> kernel" where
  "pmm_test_k k = (let (v, p) = pmm_test (k_pmm k) in
     serial_write (bytes (case v of TestFailedAllocation \<Rightarrow> ''PMM: Test failed (allocation).''
       | TestFailedReallocation \<Rightarrow> ''PMM: Test failed (reallocation).'' | TestPassed \<Rightarrow> ''PMM: Test passed.'') @ [0x0A])
       (k\<lparr>k_pmm := p\<rparr>))"

fun dec_fill :: "nat \<Rightarrow> u8 list \<Rightarrow> u8 list" where
  "dec_fill v buf = (if v > 0 then dec_fill (v div 10) ((0x30 + of_nat (v mod 10)) # buf) else buf)"

declare dec_fill.simps [simp del]

definition write_dec :: "nat \<Rightarrow> u8 list" where
  "write_dec v = (if v = 0 then [0x30] else dec_fill v [])"

text \<open>The leading zeros are dropped, down to the last digit.\<close>
fun trim_zeros :: "u8 list \<Rightarrow> u8 list" where
  "trim_zeros (b # c # bs) = (if b = 0x30 then trim_zeros (c # bs) else b # c # bs)"
| "trim_zeros bs = bs"

definition write_hex :: "u64 \<Rightarrow> u8 list" where
  "write_hex v = trim_zeros (map (\<lambda>i. let nibble = unat (drop_bit (60 - 4 * i) v AND 0xF) in
     if nibble < 10 then 0x30 + of_nat nibble else 0x61 + of_nat nibble - 10) [0..<16])"

definition dump_stats :: "kernel \<Rightarrow> kernel option" where
  "dump_stats k = (let h = k_heap k; all = heap_high h - heap_low h in do {
     free_bytes \<leftarrow> compute_free_bytes h;
     count \<leftarrow> count_from (hdr h) 0 (kfree_list h);
     Some (serial_write (bytes ''KMM: Heap 0x'' @ write_hex (heap_low h) @ bytes ''-0x'' @ write_hex (heap_high h) @
       bytes '' (total '' @ write_dec (unat all) @ bytes '' bytes)'' @ [0x0A] @
       bytes ''KMM: Used '' @ write_dec (unat (all - free_bytes)) @ bytes '' / Free '' @ write_dec (unat free_bytes) @
       bytes '' bytes'' @ [0x0A] @ bytes ''KMM: Free-list entries: '' @ write_dec count @ [0x0A]) k) })"

definition kmm_init_k :: "kernel \<Rightarrow> kernel" where
  "kmm_init_k k = (let (p, h) = kmm_init (k_pmm k) (k_heap k) in k\<lparr>k_pmm := p, k_heap := h\<rparr>)"

definition kmm_test :: "kernel \<Rightarrow> kernel option" where
  "kmm_test k = do {
     (p1, k) \<leftarrow> k_malloc 32 k;
     (p2, k) \<leftarrow> k_malloc 64 k;
     (p3, k) \<leftarrow> k_malloc 128 k;
     if p1 = 0 \<or> p2 = 0 \<or> p3 = 0
     then Some (serial_write (bytes ''KMM: Test FAILED '' @ DASH @ bytes '' allocation returned null.'' @ [0x0A]) k)
     else do {
       let k = kstore p3 0x0F0F0F0FF0F0F0F0 (kstore p2 0x123456789ABCDEF0 (kstore p1 0xDEADBEEFCAFEBABE k));
       k \<leftarrow> k_free p2 k;
       (p4, k) \<leftarrow> k_malloc 64 k;
       let k = serial_write ((if p4 = p2 then bytes ''KMM: Test OK '' @ DASH @ bytes '' freed block reused.''
                 else bytes ''KMM: Test FAILED '' @ DASH @ bytes '' reuse address mismatch.'') @ [0x0A]) k;
       k \<leftarrow> k_free p1 k;
       k \<leftarrow> k_free p3 k;
       k \<leftarrow> k_free p4 k;
       count \<leftarrow> count_from (hdr (k_heap k)) 0 (kfree_list (k_heap k));
       Some (serial_write (if count = 1 then bytes ''KMM: Coalescing OK '' @ DASH @ bytes '' single free block.'' @ [0x0A]
         else bytes ''KMM: Coalescing WARNING '' @ DASH @ bytes '' '' @ write_dec count @ bytes '' free blocks (expected 1).'' @ [0x0A]) k) } }"

definition paging_test :: "kernel \<Rightarrow> kernel option" where
  "paging_test k = (let (phys, k) = page_alloc k in
     if phys = 0 then Some (serial_write (bytes ''PAGING: Test failed (alloc).'' @ [0x0A]) k)
     else do {
       let vaddr = 0x20000000;
       k \<leftarrow> map_4k vaddr phys PAGE_KERNEL k;
       k \<leftarrow> user_store vaddr (le_bytes 8 (0xDEADBEEFCAFEF00D :: u64)) k;
       verdict \<leftarrow> (if translate vaddr k = Some phys
         then do { bs \<leftarrow> user_load vaddr 8 k;
                   Some (if of_le bs = (0xDEADBEEFCAFEF00D :: u64) then ''PAGING: Test passed.'' else ''PAGING: Test failed (value mismatch).'') }
         else Some ''PAGING: Test failed (translate).'');
       let k = serial_write (bytes verdict @ [0x0A]) k;
       Some (page_free phys (snd (unmap vaddr k))) })"

subsection \<open>Boot\<close>

text \<open>What the linker and the build fix.\<close>
record layout =
  kernel_end :: u64
  isr_stub :: "nat \<Rightarrow> u64"
  irq_stub :: "nat \<Rightarrow> u64"
  gdt_at :: u64
  tss_at :: u64
  stack_top :: u64
  syscall_entry_at :: u64
  idle_entry :: u64
  archive :: "u8 list"

record 'd display =
  vbe_out :: "u16 \<Rightarrow> u16 \<Rightarrow> 'd \<Rightarrow> 'd"
  vbe_in :: "u16 \<Rightarrow> 'd \<Rightarrow> u16"
  pci_in :: "u32 \<Rightarrow> u32"

record 'd machine =
  m_kernel :: kernel
  m_idt :: idt
  m_gdt :: gdt
  m_tss :: tss
  m_cpu :: cpu
  m_table :: syscall_table
  m_if :: bool
  m_dev :: 'd

definition say :: "u8 list \<Rightarrow> 'd machine \<Rightarrow> 'd machine" where
  "say msg m = m\<lparr>m_kernel := serial_write (msg @ [0x0A]) (m_kernel m)\<rparr>"

definition banner :: "u8 list" where
  "banner = [0x0A] @ RULE_LINE @ bytes ''  VIBIX '' @ DASH @ bytes '' UNIXoid Kernel (Rust Port)'' @ [0x0A] @ RULE_LINE @ [0x0A] @
     bytes ''VIBIX: Kernel alive!''"

text \<open>The physical memory: from the Multiboot map, or the fixed range without one.\<close>
definition boot_memory :: "kernel \<Rightarrow> kernel option" where
  "boot_memory k = (let mbi = get_mbi_ptr (k_mem k) in do {
     (ok, p) \<leftarrow> (if mbi \<noteq> 0 then apply_mmap_to_pmm mbi (k_mem k) (k_pmm k) else Some (False, k_pmm k));
     if ok then print_mmap mbi (k\<lparr>k_pmm := p\<rparr>)
     else let k = serial_write (bytes ''VIBIX: No Multiboot mmap '' @ DASH @ bytes '' using hardcoded range.'' @ [0x0A]) k
          in Some (k\<lparr>k_pmm := pmm_init 0x100000 0x10000000 p\<rparr>) })"

definition sat_sub :: "u64 \<Rightarrow> u64 \<Rightarrow> u64" where
  "sat_sub a b = (if a < b then 0 else a - b)"

definition reserve_kernel :: "u64 \<Rightarrow> kernel \<Rightarrow> kernel option" where
  "reserve_kernel image_end k = do {
     let kend = sat_add image_end 0xFFF AND NOT 0xFFF;
     p \<leftarrow> reserve 0x200000 (max (sat_sub kend 0x200000) 0x80000) (k_pmm k);
     Some (k\<lparr>k_pmm := p\<rparr>) }"

text \<open>The code points of a string literal.\<close>
definition chars :: "string \<Rightarrow> u32 list" where
  "chars s = map of_char s"

definition boot_colours :: "u32 list" where
  "boot_colours = [0xFF0000, 0x00FF00, 0x0000FF, 0xFFFF00, 0xFF00FF, 0x00FFFF]"

definition boot_graphics :: "framebuffer \<Rightarrow> mem \<Rightarrow> mem" where
  "boot_graphics fb m =
     (let m = fb_clear fb 0x00101A m;
          m = draw_string fb 24 20 (chars ''VIBIX'') 0x00FFAA (Some 0x00101A) m;
          m = draw_string fb 24 40 (chars ''UNIXoid Kernel (Rust Port)'') 0x888888 (Some 0x00101A) m;
          m = draw_string fb 24 60 (chars ''VBE Framebuffer'') 0xAAAAAA (Some 0x00101A) m;
          bar_w = fb_width fb div 6
      in fold (\<lambda>i. fill_rect fb (of_nat i * bar_w) (fb_height fb - 32) ((of_nat i + 1) * bar_w - 1) (fb_height fb - 1)
           (boot_colours ! i)) [0..<6] m)"

definition boot_display :: "'d display \<Rightarrow> 'd machine \<Rightarrow> 'd machine option" where
  "boot_display disp m = do {
     (fb, d, k) \<leftarrow> fb_init (vbe_out disp) (vbe_in disp) (pci_in disp) (m_dev m) (m_kernel m);
     let m = m\<lparr>m_dev := d, m_kernel := k\<rparr>;
     Some (case fb of
         Some fb \<Rightarrow> say (bytes ''VIBIX: Framebuffer initialised.'') (m\<lparr>m_kernel := k\<lparr>k_mem := boot_graphics fb (k_mem k)\<rparr>\<rparr>)
       | None \<Rightarrow> say (bytes ''VIBIX: No framebuffer '' @ DASH @ bytes '' continuing with serial only.'') m) }"

definition boot_interrupts :: "layout \<Rightarrow> 'd bus \<Rightarrow> 'd machine \<Rightarrow> 'd machine" where
  "boot_interrupts L b m =
     (let m = say (bytes ''VIBIX: Initialising interrupts...'') m;
          (t, d) = init_interrupts (isr_stub L) (irq_stub L) b (m_idt m, m_dev m);
          m = say (bytes ''VIBIX: IDT loaded, PIC remapped.'') (m\<lparr>m_idt := t, m_dev := d\<rparr>);
          m = say (bytes ''VIBIX: PIT timer initialised at 100 Hz.'') (m\<lparr>m_dev := pit_init b (m_dev m)\<rparr>);
          m = say (bytes ''VIBIX: PS/2 keyboard ready.'') (m\<lparr>m_dev := keyboard_init b (m_dev m)\<rparr>);
          m = say (bytes ''VIBIX: Keyboard IRQ unmasked -- PS/2 input active.'') (m\<lparr>m_dev := unmask_irq b 1 (m_dev m)\<rparr>)
      in say (bytes ''VIBIX: Timer IRQ unmasked.'') (m\<lparr>m_dev := unmask_irq b 0 (m_dev m)\<rparr>))"

definition boot_segments :: "layout \<Rightarrow> 'd machine \<Rightarrow> 'd machine" where
  "boot_segments L m =
     (let m = say (bytes ''VIBIX: Loading GDT/TSS and enabling SYSCALL.'') m;
          (g, t, c) = gdt_init (gdt_at L) (tss_at L) (stack_top L) (syscall_entry_at L) (m_gdt m, m_tss m, m_cpu m)
      in m\<lparr>m_gdt := g, m_tss := t, m_cpu := c, m_kernel := (m_kernel m)\<lparr>k_rsp0 := tss_rsp0 t\<rparr>,
           m_table := syscall_init (m_table m)\<rparr>)"

text \<open>The result is the stack pointer of the first process's frame and the machine as it starts to run.\<close>
definition kernel_main :: "layout \<Rightarrow> 'd bus \<Rightarrow> 'd display \<Rightarrow> 'd machine \<Rightarrow> (u64 \<times> 'd machine) option" where
  "kernel_main L b disp m = do {
     let m = say banner (m\<lparr>m_dev := snd (serial_init b (False, m_dev m))\<rparr>);
     k \<leftarrow> boot_memory (m_kernel m);
     k \<leftarrow> reserve_kernel (kernel_end L) k;
     k \<leftarrow> kmm_test (kmm_init_k (pmm_test_k k));
     k \<leftarrow> paging_test k;
     k \<leftarrow> extend_kernel_identity 0x2000000 k;
     m \<leftarrow> boot_display disp (m\<lparr>m_kernel := k\<rparr>);
     let m = boot_segments L (boot_interrupts L b m);
     let m = say (bytes ''VIBIX: Initialising VFS...'') m;
     k \<leftarrow> vfs_init (archive L) (m_kernel m);
     let m = say (bytes ''VIBIX: VFS ready.'') (m\<lparr>m_kernel := k, m_table := vfs_register (m_table m)\<rparr>);
     let m = say (bytes ''VIBIX: Enabling interrupts.'') m;
     let m = say (bytes ''VIBIX: Boot sequence complete '' @ DASH @ bytes '' spawning PID 1.'') (m\<lparr>m_if := True\<rparr>);
     (init_slot, k) \<leftarrow> spawn_init (idle_entry L) (m_kernel m);
     let m = say (bytes ''VIBIX: Created PID 1 (init).'') (m\<lparr>m_kernel := k\<rparr>);
     let m = say (bytes ''VIBIX: Starting scheduler...'') m;
     (krsp, k) \<leftarrow> start_scheduler init_slot (m_kernel m);
     Some (krsp, m\<lparr>m_kernel := k\<rparr>) }"

subsection \<open>Panic and debugging output\<close>

definition panic_message :: "u8 list option \<Rightarrow> u8 list" where
  "panic_message msg = bytes ''VIBIX: PANIC: '' @ (case msg of Some s \<Rightarrow> s @ [0x0A] | None \<Rightarrow> bytes ''<non-string panic message>'' @ [0x0A])"

text \<open>The state in which a panic halts.\<close>
definition panic :: "u8 list option \<Rightarrow> kernel \<Rightarrow> kernel" where
  "panic msg k = serial_write (panic_message msg) k"

definition hex_out :: "string \<Rightarrow> u64 \<Rightarrow> u8 list" where
  "hex_out label v = bytes label @ hex_out_buf v"

text \<open>The line of the debug build before \<open>iretq\<close>; \<open>rsp\<close> points at the saved instruction pointer.\<close>
definition debug_iretq_ss :: "u64 \<Rightarrow> u64 \<Rightarrow> kernel \<Rightarrow> kernel" where
  "debug_iretq_ss rsp path k = serial_write (
     hex_out ''DBG iretq_pre: path='' path @ hex_out '' RSP='' rsp @ [0x0A] @
     hex_out ''  RIP='' (kload rsp k) @ hex_out '' CS='' (kload (rsp + 8) k) @ hex_out '' RFLAGS='' (kload (rsp + 16) k) @
     hex_out '' userRSP='' (kload (rsp + 24) k) @ [0x0A] @
     hex_out ''  SS='' (kload (rsp + 32) k) @ hex_out '' int='' (kload (rsp - 16) k) @ hex_out '' err='' (kload (rsp - 8) k) @
     hex_out '' RAX='' (kload (rsp - 136) k) @ hex_out '' RCX='' (kload (rsp - 128) k) @ [0x0A]) k"

end
