(* ===== verification/Evidence.thy ===== *)
theory Evidence imports Interrupts Elf begin

text \<open>The scheduler evidence of the debug build (\<open>scheduler_evidence.rs\<close>): the executable intervals of an ELF
  image, the one probe target, and the records made when the target is switched out, switched in and
  interrupted in user mode.  The interval table is the fixed array of the source with its count; an
  operation returns the new target and the line it writes to the serial port.\<close>

definition REQUIRED_ROUND_TRIPS :: u64 where "REQUIRED_ROUND_TRIPS = 3"
definition MAX_EXEC_INTERVALS :: nat where "MAX_EXEC_INTERVALS = 64"

record exec_interval =
  iv_lo :: u64
  iv_hi :: u64

definition EMPTY_INTERVAL :: exec_interval where
  "EMPTY_INTERVAL = \<lparr>iv_lo = 0, iv_hi = 0\<rparr>"

record target =
  t_active :: bool
  t_invalid :: bool
  t_pid :: u64
  t_cr3 :: u64
  t_intervals :: "exec_interval list"
  t_count :: nat
  t_entry :: u64
  t_sequence :: u64
  t_round_trips :: u64
  t_saw_user_return :: bool
  t_saw_switch_out :: bool

definition EMPTY_TARGET :: target where
  "EMPTY_TARGET = \<lparr>t_active = False, t_invalid = False, t_pid = 0, t_cr3 = 0,
     t_intervals = replicate MAX_EXEC_INTERVALS EMPTY_INTERVAL, t_count = 0, t_entry = 0, t_sequence = 0,
     t_round_trips = 0, t_saw_user_return = False, t_saw_switch_out = False\<rparr>"

subsection \<open>Executable intervals\<close>

definition get_bytes :: "u8 list \<Rightarrow> u64 \<Rightarrow> u64 \<Rightarrow> u8 list option" where
  "get_bytes data off n = do {
     e \<leftarrow> checked_add off n;
     if unat e \<le> length data then Some (take (unat n) (drop (unat off) data)) else None }"

definition read_u16 :: "u8 list \<Rightarrow> u64 \<Rightarrow> u16 option" where
  "read_u16 data off = map_option of_le (get_bytes data off 2)"

definition read_u32 :: "u8 list \<Rightarrow> u64 \<Rightarrow> u32 option" where
  "read_u32 data off = map_option of_le (get_bytes data off 4)"

definition read_u64 :: "u8 list \<Rightarrow> u64 \<Rightarrow> u64 option" where
  "read_u64 data off = map_option of_le (get_bytes data off 8)"

datatype interval_error = IvMalformed | IvCapacity

type_synonym intervals = "exec_interval list \<times> nat"

definition or_malformed :: "'a option \<Rightarrow> interval_error + 'a" where
  "or_malformed x = (case x of Some v \<Rightarrow> Inr v | None \<Rightarrow> Inl IvMalformed)"

function iv_first :: "exec_interval list \<Rightarrow> nat \<Rightarrow> u64 \<Rightarrow> nat \<Rightarrow> nat" where
  "iv_first a count lo first =
     (if first < count \<and> iv_hi (a ! first) < lo then iv_first a count lo (first + 1) else first)"
  by pat_completeness auto
termination by (relation "measure (\<lambda>(a, count, lo, first). count - first)") auto

function iv_merge :: "exec_interval list \<Rightarrow> nat \<Rightarrow> u64 \<Rightarrow> u64 \<Rightarrow> nat \<Rightarrow> u64 \<times> u64 \<times> nat" where
  "iv_merge a count lo hi final =
     (if final < count \<and> iv_lo (a ! final) \<le> hi
      then iv_merge a count (min lo (iv_lo (a ! final))) (max hi (iv_hi (a ! final))) (final + 1)
      else (lo, hi, final))"
  by pat_completeness auto
termination by (relation "measure (\<lambda>(a, count, lo, hi, final). count - final)") auto

declare iv_first.simps [simp del] iv_merge.simps [simp del]

definition iv_insert :: "u64 \<Rightarrow> u64 \<Rightarrow> intervals \<Rightarrow> interval_error + intervals" where
  "iv_insert vaddr end s = (case s of (a, count) \<Rightarrow>
     let first = iv_first a count vaddr 0;
         (lo, hi, final) = iv_merge a count vaddr end first
     in if first = final
        then if count = MAX_EXEC_INTERVALS then Inl IvCapacity
             else let a = fold (\<lambda>i a. a[i + 1 := a ! i]) (rev [first..<count]) a
                  in Inr (a[first := \<lparr>iv_lo = lo, iv_hi = hi\<rparr>], count + 1)
        else let a = a[first := \<lparr>iv_lo = lo, iv_hi = hi\<rparr>];
                 removed = final - first - 1
             in Inr (fold (\<lambda>i a. a[i - removed := a ! i]) [final..<count] a, count - removed))"

text \<open>One program header: \<^term>\<open>None\<close> when it is skipped.\<close>
definition header_range :: "u8 list \<Rightarrow> u64 \<Rightarrow> u64 \<Rightarrow> nat \<Rightarrow> interval_error + (u64 \<times> u64) option" where
  "header_range data phoff phentsize index =
     or_malformed (do {
       offset \<leftarrow> checked_add phoff (of_nat index * phentsize);
       p_type \<leftarrow> read_u32 data offset;
       o4 \<leftarrow> checked_add offset 4;
       p_flags \<leftarrow> read_u32 data o4;
       if p_type \<noteq> PT_LOAD \<or> p_flags AND PF_X = 0 then Some None
       else do {
         o16 \<leftarrow> checked_add offset 16;
         vaddr \<leftarrow> read_u64 data o16;
         o40 \<leftarrow> checked_add offset 40;
         memsz \<leftarrow> read_u64 data o40;
         end \<leftarrow> checked_add vaddr memsz;
         if memsz = 0 \<or> end \<le> vaddr then Some None else Some (Some (vaddr, end)) } })"

fun collect_ranges :: "u8 list \<Rightarrow> u64 \<Rightarrow> u64 \<Rightarrow> nat list \<Rightarrow> intervals \<Rightarrow> interval_error + intervals" where
  "collect_ranges data phoff phentsize [] s = Inr s"
| "collect_ranges data phoff phentsize (i # is) s =
     (case header_range data phoff phentsize i of
        Inl e \<Rightarrow> Inl e
      | Inr None \<Rightarrow> collect_ranges data phoff phentsize is s
      | Inr (Some (lo, hi)) \<Rightarrow>
          (case iv_insert lo hi s of
             Inl e \<Rightarrow> Inl e
           | Inr s \<Rightarrow> collect_ranges data phoff phentsize is s))"

definition executable_intervals :: "u8 list \<Rightarrow> interval_error + intervals" where
  "executable_intervals data =
     (if length data < 64 \<or> take 4 data \<noteq> ELF_MAGIC \<or> data ! 4 \<noteq> 2 then Inl IvMalformed
      else case (read_u64 data 32, read_u16 data 54, read_u16 data 56) of
        (Some phoff, Some phentsize, Some phnum) \<Rightarrow>
          if phentsize < 56 then Inl IvMalformed
          else (case collect_ranges data phoff (ucast phentsize) [0..<unat phnum] (replicate MAX_EXEC_INTERVALS EMPTY_INTERVAL, 0) of
                  Inl e \<Rightarrow> Inl e
                | Inr (a, count) \<Rightarrow> if count = 0 then Inl IvMalformed else Inr (a, count))
      | _ \<Rightarrow> Inl IvMalformed)"

definition in_intervals :: "exec_interval list \<Rightarrow> nat \<Rightarrow> u64 \<Rightarrow> bool" where
  "in_intervals a count rip = list_ex (\<lambda>v. iv_lo v \<le> rip \<and> rip < iv_hi v) (take count a)"

definition rip_in_intervals :: "target \<Rightarrow> u64 \<Rightarrow> bool" where
  "rip_in_intervals t rip = in_intervals (t_intervals t) (t_count t) rip"

subsection \<open>The target\<close>

definition next_sequence :: "target \<Rightarrow> target" where
  "next_sequence t = t\<lparr>t_sequence := t_sequence t + 1\<rparr>"

text \<open>\<open>{}\<close> and \<open>0x{:016x}\<close> of a 64-bit value.\<close>
definition dec :: "u64 \<Rightarrow> u8 list" where
  "dec v = fmt_dec (unat v)"

definition hex16 :: "u64 \<Rightarrow> u8 list" where
  "hex16 v = bytes ''0x'' @ fmt_hex_pad 16 (unat v)"

definition ok_bad :: "bool \<Rightarrow> u8 list" where
  "ok_bad c = bytes (if c then ''ok'' else ''bad'')"

definition target_line :: "target \<Rightarrow> u8 list" where
  "target_line t = bytes ''DBG RUSTSCHED TARGET pid='' @ dec (t_pid t) @ bytes '' cr3='' @ hex16 (t_cr3 t) @
     bytes '' interval_count='' @ fmt_dec (t_count t) @
     concat (map (\<lambda>i. bytes '' interval'' @ fmt_dec i @ bytes ''_lo='' @ hex16 (iv_lo (t_intervals t ! i)) @
       bytes '' interval'' @ fmt_dec i @ bytes ''_hi='' @ hex16 (iv_hi (t_intervals t ! i))) [0..<t_count t]) @
     bytes '' entry='' @ hex16 (t_entry t) @ [0x0A]"

definition register_target :: "u64 \<Rightarrow> u64 \<Rightarrow> u8 list \<Rightarrow> u64 \<Rightarrow> target \<Rightarrow> target \<times> u8 list" where
  "register_target pid cr3 img entry_va t =
     (case executable_intervals img of
        Inl IvCapacity \<Rightarrow> (t\<lparr>t_invalid := True\<rparr>, bytes ''DBG RUSTSCHED TARGET_INVALID pid='' @ dec pid @
          bytes '' reason=interval-capacity max='' @ fmt_dec MAX_EXEC_INTERVALS @ [0x0A])
      | Inl IvMalformed \<Rightarrow> (t\<lparr>t_invalid := True\<rparr>, bytes ''DBG RUSTSCHED TARGET_INVALID pid='' @ dec pid @
          bytes '' reason=no-exec-range'' @ [0x0A])
      | Inr (a, count) \<Rightarrow>
          if \<not> in_intervals a count entry_va
          then (t\<lparr>t_invalid := True\<rparr>, bytes ''DBG RUSTSCHED TARGET_INVALID pid='' @ dec pid @
            bytes '' reason=entry-out-of-range entry='' @ hex16 entry_va @ [0x0A])
          else if t_active t \<and> t_round_trips t \<ge> REQUIRED_ROUND_TRIPS then (t, [])
          else if t_active t
          then (t\<lparr>t_invalid := True\<rparr>, bytes ''DBG RUSTSCHED TARGET_CONFLICT pid='' @ dec pid @ bytes '' existing_pid='' @
            dec (t_pid t) @ bytes '' cr3='' @ hex16 cr3 @ bytes '' existing_cr3='' @ hex16 (t_cr3 t) @ [0x0A])
          else let t = \<lparr>t_active = True, t_invalid = False, t_pid = pid, t_cr3 = cr3, t_intervals = a, t_count = count,
                 t_entry = entry_va, t_sequence = 0, t_round_trips = 0, t_saw_user_return = False, t_saw_switch_out = False\<rparr>
               in (t, target_line t))"

definition sysret_handoff :: "u64 \<Rightarrow> u64 \<Rightarrow> u64 \<Rightarrow> u64 \<Rightarrow> u64 \<Rightarrow> u64 \<Rightarrow> target \<Rightarrow> target \<times> u8 list" where
  "sysret_handoff pid cr3 rip user_rsp rflags kernel_rsp t =
     (if \<not> t_active t \<or> t_invalid t \<or> pid \<noteq> t_pid t then (t, [])
      else let t = next_sequence t in
        (t, bytes ''DBG RUSTSCHED IN seq='' @ dec (t_sequence t) @ bytes '' round='' @ dec (t_round_trips t) @ bytes '' pid='' @ dec pid @
          bytes '' prev=0 cr3='' @ hex16 cr3 @ bytes '' expected='' @ hex16 (t_cr3 t) @ bytes '' rip='' @ hex16 rip @
          bytes '' cs=0x23 ss=0x1b rflags='' @ hex16 rflags @ bytes '' rsp='' @ hex16 user_rsp @ bytes '' krsp='' @ hex16 kernel_rsp @
          bytes '' range='' @ ok_bad (rip_in_intervals t rip) @ bytes '' entry='' @ ok_bad (rip = t_entry t) @
          bytes '' source=sysret'' @ [0x0A]))"

text \<open>The guard of the three records below: the target is registered, valid, not yet complete, and this process.\<close>
definition recording :: "u64 \<Rightarrow> target \<Rightarrow> bool" where
  "recording pid t \<longleftrightarrow> \<not> (\<not> t_active t \<or> t_invalid t \<or> t_round_trips t \<ge> REQUIRED_ROUND_TRIPS \<or> pid \<noteq> t_pid t)"

definition frame_fields :: "interrupt_frame \<Rightarrow> u8 list" where
  "frame_fields f = bytes '' rip='' @ hex16 (f_rip f) @ bytes '' cs='' @ hex16 (f_cs f) @ bytes '' ss='' @ hex16 (f_ss f) @
     bytes '' rflags='' @ hex16 (f_rflags f) @ bytes '' rsp='' @ hex16 (f_user_rsp f)"

definition scheduled_out :: "u64 \<Rightarrow> u64 \<Rightarrow> u64 \<Rightarrow> interrupt_frame \<Rightarrow> u64 \<Rightarrow> target \<Rightarrow> target \<times> u8 list" where
  "scheduled_out pid successor frame_rsp saved active_cr3 t =
     (if \<not> recording pid t then (t, [])
      else let t = next_sequence t;
               t = (if successor \<noteq> t_pid t then t\<lparr>t_saw_switch_out := True\<rparr> else t)
        in (t, bytes ''DBG RUSTSCHED OUT seq='' @ dec (t_sequence t) @ bytes '' round='' @ dec (t_round_trips t) @ bytes '' pid='' @ dec pid @
          bytes '' next='' @ dec successor @ bytes '' cr3='' @ hex16 active_cr3 @ frame_fields saved @
          bytes '' krsp='' @ hex16 frame_rsp @ bytes '' range='' @ ok_bad (rip_in_intervals t (f_rip saved)) @ [0x0A]))"

definition scheduled_in :: "u64 \<Rightarrow> u64 \<Rightarrow> u64 \<Rightarrow> interrupt_frame \<Rightarrow> u64 \<Rightarrow> target \<Rightarrow> target \<times> u8 list" where
  "scheduled_in pid previous_pid frame_rsp restored active_cr3 t =
     (if \<not> recording pid t then (t, [])
      else let t = (if previous_pid \<noteq> t_pid t \<and> t_saw_switch_out t \<and> t_saw_user_return t
                    then t\<lparr>t_round_trips := (if t_round_trips t = - 1 then - 1 else t_round_trips t + 1),
                           t_saw_switch_out := False, t_saw_user_return := False\<rparr>
                    else t);
               t = next_sequence t
        in (t, bytes ''DBG RUSTSCHED IN seq='' @ dec (t_sequence t) @ bytes '' round='' @ dec (t_round_trips t) @ bytes '' pid='' @ dec pid @
          bytes '' prev='' @ dec previous_pid @ bytes '' cr3='' @ hex16 active_cr3 @ bytes '' expected='' @ hex16 (t_cr3 t) @
          frame_fields restored @ bytes '' krsp='' @ hex16 frame_rsp @
          bytes '' range='' @ ok_bad (rip_in_intervals t (f_rip restored)) @ bytes '' source=sched'' @ [0x0A]))"

definition user_return :: "u64 \<Rightarrow> interrupt_frame \<Rightarrow> u64 \<Rightarrow> target \<Rightarrow> target \<times> u8 list" where
  "user_return pid f active_cr3 t =
     (if \<not> recording pid t \<or> f_cs f AND 3 \<noteq> 3 \<or> f_ss f AND 3 \<noteq> 3 then (t, [])
      else let t = next_sequence (t\<lparr>t_saw_user_return := True\<rparr>)
        in (t, bytes ''DBG RUSTSCHED USER seq='' @ dec (t_sequence t) @ bytes '' round='' @ dec (t_round_trips t) @ bytes '' pid='' @ dec pid @
          bytes '' cr3='' @ hex16 active_cr3 @ frame_fields f @
          bytes '' range='' @ ok_bad (rip_in_intervals t (f_rip f)) @ [0x0A]))"

end
