(* ===== verification/Evidence_Props.thy ===== *)
theory Evidence_Props imports Evidence begin

text \<open>The executable intervals are the union of the executable segments, and a counted round trip of the target
  is a real one.\<close>

subsection \<open>The interval array as a list\<close>

text \<open>The two loops of the insertion, on the list of live intervals.\<close>
fun merge_run :: "u64 \<Rightarrow> u64 \<Rightarrow> exec_interval list \<Rightarrow> u64 \<times> u64 \<times> exec_interval list" where
  "merge_run lo hi [] = (lo, hi, [])"
| "merge_run lo hi (v # vs) =
     (if iv_lo v \<le> hi then merge_run (min lo (iv_lo v)) (max hi (iv_hi v)) vs else (lo, hi, v # vs))"

definition iv_add :: "u64 \<Rightarrow> u64 \<Rightarrow> exec_interval list \<Rightarrow> exec_interval list" where
  "iv_add lo hi vs =
     (let (lo', hi', rest) = merge_run lo hi (dropWhile (\<lambda>v. iv_hi v < lo) vs)
      in takeWhile (\<lambda>v. iv_hi v < lo) vs @ \<lparr>iv_lo = lo', iv_hi = hi'\<rparr> # rest)"

lemma iv_first_list:
  "count \<le> length a \<Longrightarrow> first \<le> count \<Longrightarrow>
   iv_first a count lo first = first + length (takeWhile (\<lambda>v. iv_hi v < lo) (drop first (take count a)))"
proof (induction a count lo first rule: iv_first.induct)
  case (1 a count lo first)
  show ?case
  proof (cases "first < count")
    case True
    then have "drop first (take count a) = a ! first # drop (Suc first) (take count a)"
      using 1(2) Cons_nth_drop_Suc [of first "take count a"] by simp
    then show ?thesis using 1 True by (simp add: iv_first.simps [of a count lo first])
  next
    case False
    then show ?thesis using 1(2,3) by (subst iv_first.simps) simp
  qed
qed

lemma iv_merge_list:
  "count \<le> length a \<Longrightarrow> l \<le> count \<Longrightarrow> iv_merge a count lo hi l = (lo', hi', l') \<Longrightarrow>
   merge_run lo hi (drop l (take count a)) = (lo', hi', drop l' (take count a)) \<and> l \<le> l' \<and> l' \<le> count"
proof (induction a count lo hi l rule: iv_merge.induct)
  case (1 a count lo hi l)
  show ?case
  proof (cases "l < count")
    case True
    then have d: "drop l (take count a) = a ! l # drop (Suc l) (take count a)"
      using 1(2) Cons_nth_drop_Suc [of l "take count a"] by simp
    show ?thesis
    proof (cases "iv_lo (a ! l) \<le> hi")
      case le: True
      then have "iv_merge a count (min lo (iv_lo (a ! l))) (max hi (iv_hi (a ! l))) (l + 1) = (lo', hi', l')"
        using 1(4) True by (simp add: iv_merge.simps [of a count lo hi l])
      then show ?thesis using 1(1) 1(2) True le d by auto
    next
      case False
      then show ?thesis using 1(4) True d by (simp add: iv_merge.simps [of a count lo hi l])
    qed
  next
    case False
    then show ?thesis using 1(2-4) by (subst (asm) iv_merge.simps) simp
  qed
qed

lemma shift_right:
  assumes "count < length a" "first \<le> count" "j < length a"
  shows "fold (\<lambda>i a. a[i + 1 := a ! i]) (rev [first..<count]) a ! j = (if first < j \<and> j \<le> count then a ! (j - 1) else a ! j) \<and>
    length (fold (\<lambda>i a. a[i + 1 := a ! i]) (rev [first..<count]) a) = length a"
  using assms
proof (induction count arbitrary: a)
  case (Suc c)
  show ?case
  proof (cases "first = Suc c")
    case False
    then show ?thesis using Suc.IH [of "a[c + 1 := a ! c]"] Suc.prems by (auto simp: nth_list_update)
  qed auto
qed simp

lemma shift_left:
  assumes "count \<le> length a" "l \<le> count" "r \<le> l" "j < length a"
  shows "fold (\<lambda>i a. a[i - r := a ! i]) [l..<count] a ! j = (if l \<le> j + r \<and> j + r < count then a ! (j + r) else a ! j) \<and>
    length (fold (\<lambda>i a. a[i - r := a ! i]) [l..<count] a) = length a"
  using assms
proof (induction count arbitrary: j)
  case (Suc c)
  show ?case
  proof (cases "l = Suc c")
    case False
    then have "l \<le> c" using Suc.prems by simp
    then show ?thesis using Suc.IH [of j] Suc.IH [of c] Suc.prems by (auto simp: nth_list_update)
  qed auto
qed auto

text \<open>Making room for one interval, and closing the gap of merged ones.\<close>
lemma insert_shifted:
  assumes "count < length a" "f \<le> count" "a' = (fold (\<lambda>i a. a[i + 1 := a ! i]) (rev [f..<count]) a)[f := v]"
  shows "take (Suc count) a' = take f (take count a) @ v # drop f (take count a)" "length a' = length a"
proof -
  let ?a = "fold (\<lambda>i a. a[i + 1 := a ! i]) (rev [f..<count]) a"
  note sh = shift_right [OF assms(1,2)]
  have len: "length ?a = length a" using sh [of 0] assms(1) by (cases "a = []") auto
  then show "length a' = length a" by (simp add: assms(3))
  show "take (Suc count) a' = take f (take count a) @ v # drop f (take count a)"
  proof (rule nth_equalityI)
    show "length (take (Suc count) a') = length (take f (take count a) @ v # drop f (take count a))"
      using len assms by simp
    fix j assume "j < length (take (Suc count) a')"
    then have j: "j \<le> count" "j < length a" using len assms(3) by simp_all
    show "take (Suc count) a' ! j = (take f (take count a) @ v # drop f (take count a)) ! j"
      using sh [OF j(2)] j len assms by (auto simp: nth_append nth_Cons' nth_list_update)
  qed
qed

lemma merge_shifted:
  assumes "count \<le> length a" "f < l" "l \<le> count" "a' = fold (\<lambda>i a. a[i - (l - f - 1) := a ! i]) [l..<count] (a[f := v])"
  shows "take (count - (l - f - 1)) a' = take f (take count a) @ v # drop l (take count a)" "length a' = length a"
proof -
  let ?a = "a[f := v]" and ?r = "l - f - 1"
  have sh: "a' ! j = (if l \<le> j + ?r \<and> j + ?r < count then ?a ! (j + ?r) else ?a ! j)" if "j < length a" for j
    using shift_left [of count ?a l ?r j] that assms by simp
  show len: "length a' = length a" using shift_left [of count ?a l ?r 0] assms by (cases "a = []") auto
  show "take (count - ?r) a' = take f (take count a) @ v # drop l (take count a)"
  proof (rule nth_equalityI)
    show "length (take (count - ?r) a') = length (take f (take count a) @ v # drop l (take count a))"
      using len assms(1-3) by simp
    fix j assume "j < length (take (count - ?r) a')"
    then have j: "j < count - ?r" "j < length a" using len by simp_all
    show "take (count - ?r) a' ! j = (take f (take count a) @ v # drop l (take count a)) ! j"
      using sh [OF j(2)] j len assms(1-3) by (auto simp: nth_append nth_Cons' nth_list_update add.commute [of j l])
  qed
qed

lemma iv_insert_list:
  assumes "count \<le> length a" "length a = MAX_EXEC_INTERVALS" "iv_insert lo hi (a, count) = Inr (a', count')"
  shows "take count' a' = iv_add lo hi (take count a) \<and> count' \<le> length a' \<and> length a' = MAX_EXEC_INTERVALS"
proof -
  let ?xs = "take count a"
  define f where "f = iv_first a count lo 0"
  obtain lo' hi' l where m: "iv_merge a count lo hi f = (lo', hi', l)" by (cases "iv_merge a count lo hi f")
  have f: "f = length (takeWhile (\<lambda>v. iv_hi v < lo) ?xs)" using iv_first_list [OF assms(1)] by (simp add: f_def)
  then have fc: "f \<le> count" using length_takeWhile_le [of "\<lambda>v. iv_hi v < lo" ?xs] assms(1) by simp
  have tw: "takeWhile (\<lambda>v. iv_hi v < lo) ?xs = take f ?xs" "dropWhile (\<lambda>v. iv_hi v < lo) ?xs = drop f ?xs"
    unfolding f by (rule takeWhile_eq_take, rule dropWhile_eq_drop)
  have mr: "merge_run lo hi (drop f ?xs) = (lo', hi', drop l ?xs)" "f \<le> l" "l \<le> count"
    using iv_merge_list [OF assms(1) fc m] by simp_all
  have add: "iv_add lo hi ?xs = take f ?xs @ \<lparr>iv_lo = lo', iv_hi = hi'\<rparr> # drop l ?xs"
    by (simp add: iv_add_def tw mr(1))
  show ?thesis
  proof (cases "f = l")
    case True
    have r: "count \<noteq> MAX_EXEC_INTERVALS" "count' = Suc count"
      and a': "a' = (fold (\<lambda>i a. a[i + 1 := a ! i]) (rev [f..<count]) a)[f := \<lparr>iv_lo = lo', iv_hi = hi'\<rparr>]"
      using assms(3) m True by (auto simp: iv_insert_def f_def [symmetric] Let_def split: if_splits)
    have c: "count < length a" using assms(1,2) r(1) by simp
    show ?thesis using insert_shifted [OF c fc a'] r c assms(2) True by (simp add: add)
  next
    case False
    have r: "count' = count - (l - f - 1)"
      and a': "a' = fold (\<lambda>i a. a[i - (l - f - 1) := a ! i]) [l..<count] (a[f := \<lparr>iv_lo = lo', iv_hi = hi'\<rparr>])"
      using assms(3) m False by (auto simp: iv_insert_def f_def [symmetric] Let_def split: if_splits)
    have "f < l" using False mr(2) by simp
    from merge_shifted [OF assms(1) this mr(3) a'] show ?thesis using r assms(1,2) by (simp add: add)
  qed
qed

subsection \<open>The intervals are the union of the ranges\<close>

definition iv_mem :: "u64 \<Rightarrow> exec_interval list \<Rightarrow> bool" where
  "iv_mem r vs \<longleftrightarrow> (\<exists>v\<in>set vs. iv_lo v \<le> r \<and> r < iv_hi v)"

text \<open>Non-empty, in order, with a gap between neighbours.\<close>
definition iv_ok :: "exec_interval list \<Rightarrow> bool" where
  "iv_ok vs \<longleftrightarrow> (\<forall>v\<in>set vs. iv_lo v < iv_hi v) \<and> sorted_wrt (\<lambda>v w. iv_hi v < iv_lo w) vs"

lemma in_intervals_mem: "in_intervals a count r = iv_mem r (take count a)"
  by (simp add: in_intervals_def iv_mem_def list_ex_iff)

lemma merge_run_ok:
  assumes "merge_run lo hi vs = (lo', hi', rest)" "lo < hi" "iv_ok vs" "\<forall>v\<in>set vs. lo \<le> iv_hi v"
  shows "lo' \<le> lo \<and> hi \<le> hi' \<and> lo' < hi' \<and> iv_ok rest \<and> (\<forall>v\<in>set rest. hi' < iv_lo v) \<and> set rest \<subseteq> set vs \<and>
    (iv_mem r vs \<or> lo \<le> r \<and> r < hi \<longleftrightarrow> lo' \<le> r \<and> r < hi' \<or> iv_mem r rest) \<and>
    (\<forall>b. b < lo \<longrightarrow> (\<forall>v\<in>set vs. b < iv_lo v) \<longrightarrow> b < lo')"
  using assms
proof (induction lo hi vs rule: merge_run.induct)
  case (2 lo hi v vs)
  have v: "iv_lo v < iv_hi v" "lo \<le> iv_hi v" "iv_ok vs" "\<forall>w\<in>set vs. iv_hi v < iv_lo w" "\<forall>w\<in>set vs. iv_lo w < iv_hi w"
    using 2(4,5) by (simp_all add: iv_ok_def)
  show ?case
  proof (cases "iv_lo v \<le> hi")
    case True
    have m: "merge_run (min lo (iv_lo v)) (max hi (iv_hi v)) vs = (lo', hi', rest)" using 2(2) True by simp
    have lt: "min lo (iv_lo v) < max hi (iv_hi v)" using 2(3) by (simp add: min_less_iff_disj less_max_iff_disj)
    have up: "\<forall>w\<in>set vs. min lo (iv_lo v) \<le> iv_hi w" using 2(5) by (simp add: min.coboundedI1)
    have IH: "lo' \<le> min lo (iv_lo v) \<and> max hi (iv_hi v) \<le> hi' \<and> lo' < hi' \<and> iv_ok rest \<and> (\<forall>v\<in>set rest. hi' < iv_lo v) \<and>
        set rest \<subseteq> set vs \<and>
        (iv_mem r vs \<or> min lo (iv_lo v) \<le> r \<and> r < max hi (iv_hi v) \<longleftrightarrow> lo' \<le> r \<and> r < hi' \<or> iv_mem r rest) \<and>
        (\<forall>b. b < min lo (iv_lo v) \<longrightarrow> (\<forall>v\<in>set vs. b < iv_lo v) \<longrightarrow> b < lo')"
      using 2(1) [OF True m lt v(3) up] .
    have touch: "(min lo (iv_lo v) \<le> r \<and> r < max hi (iv_hi v)) = (iv_lo v \<le> r \<and> r < iv_hi v \<or> lo \<le> r \<and> r < hi)"
      using True v(2) by (auto simp: min_def max_def split: if_splits)
    have "iv_mem r (v # vs) = (iv_mem r vs \<or> iv_lo v \<le> r \<and> r < iv_hi v)" by (auto simp: iv_mem_def)
    then show ?thesis using IH touch by auto
  next
    case False
    then have "\<forall>w\<in>set (v # vs). hi < iv_lo w" using v(1,4) by (auto intro: less_trans)
    then show ?thesis using False 2(2-5) by auto
  qed
qed auto

lemma iv_add_ok:
  assumes "lo < hi" "iv_ok vs"
  shows "iv_ok (iv_add lo hi vs) \<and> (iv_mem r (iv_add lo hi vs) \<longleftrightarrow> iv_mem r vs \<or> lo \<le> r \<and> r < hi)"
proof -
  let ?P = "\<lambda>v. iv_hi v < lo"
  let ?a = "takeWhile ?P vs" and ?b = "dropWhile ?P vs"
  have vs: "vs = ?a @ ?b" by simp
  have "iv_ok (?a @ ?b)" using assms(2) by (simp only: takeWhile_dropWhile_id)
  then have ok: "iv_ok ?a" "iv_ok ?b" "\<forall>v\<in>set ?a. \<forall>w\<in>set ?b. iv_hi v < iv_lo w"
    unfolding iv_ok_def sorted_wrt_append set_append by blast+
  have a: "\<forall>v\<in>set ?a. iv_hi v < lo" by (auto dest: set_takeWhileD)
  have b: "\<forall>v\<in>set ?b. lo \<le> iv_hi v"
  proof (cases ?b)
    case Nil
    show ?thesis unfolding Nil by simp
  next
    case (Cons w ws)
    then have "lo \<le> iv_hi w" using hd_dropWhile [of ?P vs] by (simp add: not_less)
    moreover have "\<forall>v\<in>set ws. iv_hi w < iv_hi v" using ok(2) Cons unfolding iv_ok_def by (auto intro: less_trans)
    ultimately show ?thesis unfolding Cons by fastforce
  qed
  obtain lo' hi' rest where m: "merge_run lo hi ?b = (lo', hi', rest)" by (cases "merge_run lo hi ?b")
  note mr = merge_run_ok [OF m assms(1) ok(2) b, of r]
  have "\<forall>v\<in>set ?a. iv_hi v < lo'" using a ok(3) mr by blast
  moreover have "\<forall>v\<in>set ?a. \<forall>w\<in>set rest. iv_hi v < iv_lo w" using ok(3) mr by blast
  ultimately have "iv_ok (?a @ \<lparr>iv_lo = lo', iv_hi = hi'\<rparr> # rest)"
    using ok(1) mr unfolding iv_ok_def by (auto simp: sorted_wrt_append)
  moreover have "iv_mem r (?a @ \<lparr>iv_lo = lo', iv_hi = hi'\<rparr> # rest) \<longleftrightarrow> iv_mem r ?a \<or> (lo' \<le> r \<and> r < hi' \<or> iv_mem r rest)"
    by (auto simp: iv_mem_def)
  moreover have "iv_mem r vs \<longleftrightarrow> iv_mem r ?a \<or> iv_mem r ?b"
    unfolding iv_mem_def by (subst vs) (simp only: set_append bex_Un)
  ultimately show ?thesis using mr m by (auto simp: iv_add_def)
qed

subsection \<open>Segments\<close>

text \<open>Address \<open>r\<close> is in the executable segment that header \<open>i\<close> of the image describes, as the loader reads it.\<close>
definition in_exec_segment :: "u8 list \<Rightarrow> u64 \<Rightarrow> nat \<Rightarrow> bool" where
  "in_exec_segment data r i \<longleftrightarrow>
     (let ph = phdr_at data (phdr_offset (ehdr_of data) i) in
      ph_type ph = PT_LOAD \<and> ph_flags ph AND PF_X \<noteq> 0 \<and> ph_vaddr ph \<le> r \<and> unat r < unat (ph_vaddr ph) + unat (ph_memsz ph))"

lemma checked_add_unat: "checked_add a b = Some c \<Longrightarrow> unat c = unat a + unat b"
  using unsigned_less [of b, where ?'a = nat]
  by (auto simp: checked_add_def unat_plus_if' word_less_nat_alt split: if_splits)

lemma get_bytes_field: "get_bytes data off n = Some bs \<Longrightarrow> bs = field data (unat off) (unat n)"
  by (auto simp: get_bytes_def field_def bind_eq_Some_conv split: if_splits)

lemma read_fields:
  "read_u16 data off = Some a \<Longrightarrow> a = of_le (field data (unat off) 2)"
  "read_u32 data off = Some b \<Longrightarrow> b = of_le (field data (unat off) 4)"
  "read_u64 data off = Some c \<Longrightarrow> c = of_le (field data (unat off) 8)"
  by (auto simp: read_u16_def read_u32_def read_u64_def dest!: get_bytes_field)

lemma header_offset:
  assumes "checked_add phoff (of_nat i * ucast (sz :: u16)) = Some off" "i < 2 ^ 16"
  shows "unat off = unat phoff + i * unat sz"
proof -
  have "unat sz < 2 ^ 16" using unsigned_less [of sz, where ?'a = nat] by simp
  then have "i * unat sz < 2 ^ 16 * 2 ^ 16" using assms(2) by (intro mult_strict_mono) simp_all
  moreover have "(of_nat i * ucast sz :: u64) = of_nat (i * unat sz)" by simp
  ultimately have "unat (of_nat i * ucast sz :: u64) = i * unat sz"
    by (simp only: unat_of_nat) (simp add: take_bit_nat_eq_self)
  then show ?thesis using checked_add_unat [OF assms(1)] by simp
qed

lemma header_range_segment:
  assumes "header_range data (e_phoff (ehdr_of data)) (ucast (e_phentsize (ehdr_of data))) i = Inr x" "i < 2 ^ 16"
  shows "in_exec_segment data r i \<longleftrightarrow> (\<exists>lo hi. x = Some (lo, hi) \<and> lo \<le> r \<and> r < hi)"
    and "x = Some (lo, hi) \<Longrightarrow> lo < hi"
proof -
  let ?h = "ehdr_of data"
  let ?ph = "phdr_at data (phdr_offset ?h i)"
  obtain off ty o4 fl where hd: "checked_add (e_phoff ?h) (of_nat i * ucast (e_phentsize ?h)) = Some off"
      "read_u32 data off = Some ty" "checked_add off 4 = Some o4" "read_u32 data o4 = Some fl"
    using assms(1) by (auto simp: header_range_def or_malformed_def bind_eq_Some_conv split: option.splits)
  have off: "unat off = phdr_offset ?h i" using header_offset [OF hd(1) assms(2)] by (simp add: phdr_offset_def)
  have ty: "ty = ph_type ?ph" "fl = ph_flags ?ph"
    using read_fields(2) [OF hd(2)] read_fields(2) [OF hd(4)] checked_add_unat [OF hd(3)] off by (simp_all add: phdr_at_def)
  have seg: "(in_exec_segment data r i \<longleftrightarrow> (\<exists>lo hi. x = Some (lo, hi) \<and> lo \<le> r \<and> r < hi)) \<and> (\<forall>lo hi. x = Some (lo, hi) \<longrightarrow> lo < hi)"
  proof (cases "ty \<noteq> PT_LOAD \<or> fl AND PF_X = 0")
    case True
    then have "x = None" using assms(1) hd by (auto simp: header_range_def or_malformed_def)
    then show ?thesis using True ty by (auto simp: in_exec_segment_def Let_def)
  next
    case False
    obtain o16 va o40 sz e where b: "checked_add off 16 = Some o16" "read_u64 data o16 = Some va" "checked_add off 40 = Some o40"
        "read_u64 data o40 = Some sz" "checked_add va sz = Some e" "x = (if sz = 0 \<or> e \<le> va then None else Some (va, e))"
      using assms(1) hd False by (auto simp: header_range_def or_malformed_def bind_eq_Some_conv split: option.splits if_splits)
    have "va = ph_vaddr ?ph" "sz = ph_memsz ?ph"
      using read_fields(3) [OF b(2)] read_fields(3) [OF b(4)] checked_add_unat [OF b(1)] checked_add_unat [OF b(3)] off
      by (simp_all add: phdr_at_def)
    then show ?thesis using False ty checked_add_unat [OF b(5)] b(6)
      by (auto simp: in_exec_segment_def Let_def word_less_nat_alt word_le_nat_alt not_le)
  qed
  show "in_exec_segment data r i \<longleftrightarrow> (\<exists>lo hi. x = Some (lo, hi) \<and> lo \<le> r \<and> r < hi)" using seg by blast
  show "x = Some (lo, hi) \<Longrightarrow> lo < hi" using seg by blast
qed

lemma collect_ranges_ok:
  assumes "collect_ranges data (e_phoff (ehdr_of data)) (ucast (e_phentsize (ehdr_of data))) is (a, count) = Inr (a', count')"
    "\<forall>i\<in>set is. i < 2 ^ 16" "count \<le> length a" "length a = MAX_EXEC_INTERVALS" "iv_ok (take count a)"
  shows "count' \<le> length a' \<and> length a' = MAX_EXEC_INTERVALS \<and> iv_ok (take count' a') \<and>
    (iv_mem r (take count' a') \<longleftrightarrow> iv_mem r (take count a) \<or> (\<exists>i\<in>set is. in_exec_segment data r i))"
  using assms
proof (induction "is" arbitrary: a count)
  case (Cons i "is")
  obtain x where x: "header_range data (e_phoff (ehdr_of data)) (ucast (e_phentsize (ehdr_of data))) i = Inr x"
    using Cons.prems(1) by (auto split: sum.splits)
  have i: "i < 2 ^ 16" using Cons.prems(2) by simp
  note seg = header_range_segment [OF x i]
  show ?case
  proof (cases x)
    case None
    then show ?thesis using Cons.IH [of a count] Cons.prems x seg(1) [of r] by simp
  next
    case (Some p)
    then obtain lo hi where p: "x = Some (lo, hi)" by (cases p) simp
    obtain b c where ins: "iv_insert lo hi (a, count) = Inr (b, c)"
      using Cons.prems(1) x p by (auto split: sum.splits)
    have l: "take c b = iv_add lo hi (take count a)" "c \<le> length b" "length b = MAX_EXEC_INTERVALS"
      using iv_insert_list [OF Cons.prems(3,4) ins] by simp_all
    have ok: "iv_ok (take c b)" "iv_mem r (take c b) \<longleftrightarrow> iv_mem r (take count a) \<or> lo \<le> r \<and> r < hi"
      using iv_add_ok [OF seg(2) [OF p] Cons.prems(5), of r] l(1) by simp_all
    have "collect_ranges data (e_phoff (ehdr_of data)) (ucast (e_phentsize (ehdr_of data))) is (b, c) = Inr (a', count')"
      using Cons.prems(1) x p ins by simp
    from Cons.IH [OF this _ l(2,3) ok(1)] show ?thesis using Cons.prems(2) ok(2) seg(1) [of r] p by auto
  qed
qed simp

text \<open>C18. The intervals recorded for an image are non-empty, sorted and separated, and an instruction address is inside
  one of them exactly when it lies in an executable segment of the image's program headers, as the loader reads
  them: merging loses and adds nothing.\<close>
theorem intervals_exact:
  assumes "executable_intervals data = Inr (a, count)"
  shows "0 < count \<and> count \<le> MAX_EXEC_INTERVALS \<and> iv_ok (take count a) \<and>
    (in_intervals a count rip \<longleftrightarrow> (\<exists>i < unat (e_phnum (ehdr_of data)). in_exec_segment data rip i))"
proof -
  let ?h = "ehdr_of data"
  obtain off es n where r: "read_u64 data 32 = Some off" "read_u16 data 54 = Some es" "read_u16 data 56 = Some n"
      and c: "collect_ranges data off (ucast es) [0..<unat n] (replicate MAX_EXEC_INTERVALS EMPTY_INTERVAL, 0) = Inr (a, count)"
      and pos: "count \<noteq> 0"
    using assms by (auto simp: executable_intervals_def split: option.splits sum.splits if_splits)
  have h: "off = e_phoff ?h" "es = e_phentsize ?h" "n = e_phnum ?h"
    using read_fields(3) [OF r(1)] read_fields(1) [OF r(2)] read_fields(1) [OF r(3)] by (simp_all add: ehdr_of_def)
  have "unat n < 2 ^ 16" using unsigned_less [of n, where ?'a = nat] by simp
  then show ?thesis using collect_ranges_ok [OF c [unfolded h], of rip] pos h
    by (auto simp: iv_ok_def iv_mem_def [of _ "[]"] in_intervals_mem)
qed

text \<open>An image with two overlapping executable segments and one data segment.\<close>
definition demo_phdr :: "u32 \<Rightarrow> u64 \<Rightarrow> u64 \<Rightarrow> u8 list" where
  "demo_phdr flags va sz = le_bytes 4 (1 :: u32) @ le_bytes 4 flags @ le_bytes 8 (0 :: u64) @ le_bytes 8 va @ le_bytes 8 va @
     le_bytes 8 (0 :: u64) @ le_bytes 8 sz @ le_bytes 8 (0x1000 :: u64)"

definition demo_image :: "u8 list" where
  "demo_image = [0x7F, 0x45, 0x4C, 0x46, 2, 1, 1, 0] @ replicate 8 0 @ le_bytes 2 (2 :: u16) @ le_bytes 2 (0x3E :: u16) @
     le_bytes 4 (1 :: u32) @ le_bytes 8 (0x400010 :: u64) @ le_bytes 8 (64 :: u64) @ replicate 14 0 @ le_bytes 2 (56 :: u16) @
     le_bytes 2 (3 :: u16) @ replicate 6 0 @ demo_phdr 5 0x401000 0x800 @ demo_phdr 6 0x500000 0x100 @ demo_phdr 5 0x400000 0x1000"

lemma demo_image_intervals:
  "\<exists>a. executable_intervals demo_image = Inr (a, 1) \<and> in_intervals a 1 0x400FFF \<and> in_intervals a 1 0x400010"
proof -
  have "case executable_intervals demo_image of
      Inr (a, c) \<Rightarrow> c = 1 \<and> in_intervals a 1 0x400FFF \<and> in_intervals a 1 0x400010 | Inl _ \<Rightarrow> False"
    by code_simp
  then show ?thesis by (auto split: sum.splits)
qed

theorem intervals_exact_witness:
  "\<exists>a. executable_intervals demo_image = Inr (a, 1) \<and> in_intervals a 1 0x400FFF \<and>
     (\<exists>i < unat (e_phnum (ehdr_of demo_image)). in_exec_segment demo_image 0x400FFF i)"
proof -
  obtain a where a: "executable_intervals demo_image = Inr (a, 1)" "in_intervals a 1 0x400FFF"
    using demo_image_intervals by blast
  then show ?thesis using intervals_exact [OF a(1), of "0x400FFF"] by blast
qed

subsection \<open>Round trips\<close>

datatype evidence_event =
    Ev_register u64 u64 "u8 list" u64
  | Ev_sysret u64 u64 u64 u64 u64 u64
  | Ev_out u64 u64 u64 interrupt_frame u64
  | Ev_in u64 u64 u64 interrupt_frame u64
  | Ev_user u64 interrupt_frame u64

definition ev_step :: "evidence_event \<Rightarrow> target \<Rightarrow> target" where
  "ev_step e t = fst (case e of
       Ev_register p c im en \<Rightarrow> register_target p c im en t
     | Ev_sysret p c rip rsp fl krsp \<Rightarrow> sysret_handoff p c rip rsp fl krsp t
     | Ev_out p n rsp f c \<Rightarrow> scheduled_out p n rsp f c t
     | Ev_in p q rsp f c \<Rightarrow> scheduled_in p q rsp f c t
     | Ev_user p f c \<Rightarrow> user_return p f c t)"

definition has_out :: "u64 \<Rightarrow> evidence_event list \<Rightarrow> bool" where
  "has_out pid es \<longleftrightarrow> (\<exists>n rsp f c. Ev_out pid n rsp f c \<in> set es \<and> n \<noteq> pid)"

definition has_user :: "u64 \<Rightarrow> evidence_event list \<Rightarrow> bool" where
  "has_user pid es \<longleftrightarrow> (\<exists>f c. Ev_user pid f c \<in> set es \<and> f_cs f AND 3 = 3 \<and> f_ss f AND 3 = 3)"

text \<open>A stretch of events in which the target ran in user mode, gave the processor to another process, and
  at its end got it back from another process.\<close>
definition round_trip :: "u64 \<Rightarrow> evidence_event list \<Rightarrow> bool" where
  "round_trip pid es \<longleftrightarrow> has_out pid es \<and> has_user pid es \<and>
     (\<exists>before q rsp f c. es = before @ [Ev_in pid q rsp f c] \<and> q \<noteq> pid)"

definition trip_inv :: "u64 \<Rightarrow> evidence_event list \<Rightarrow> target \<Rightarrow> bool" where
  "trip_inv pid es t \<longleftrightarrow> t_active t \<and> t_pid t = pid \<and> unat (t_round_trips t) \<le> 3 \<and>
     (\<exists>trips rest. es = concat trips @ rest \<and> length trips = unat (t_round_trips t) \<and> (\<forall>s\<in>set trips. round_trip pid s) \<and>
        (t_saw_switch_out t \<longrightarrow> has_out pid rest) \<and> (t_saw_user_return t \<longrightarrow> has_user pid rest))"

lemma trip_inv_same:
  assumes "trip_inv pid es t" "t_active t' = t_active t" "t_pid t' = t_pid t" "t_round_trips t' = t_round_trips t"
    "t_saw_switch_out t' \<Longrightarrow> t_saw_switch_out t \<or> has_out pid [e]"
    "t_saw_user_return t' \<Longrightarrow> t_saw_user_return t \<or> has_user pid [e]"
  shows "trip_inv pid (es @ [e]) t'"
proof -
  obtain trips rest where t: "es = concat trips @ rest" "length trips = unat (t_round_trips t)" "\<forall>s\<in>set trips. round_trip pid s"
      "t_saw_switch_out t \<longrightarrow> has_out pid rest" "t_saw_user_return t \<longrightarrow> has_user pid rest"
    using assms(1) unfolding trip_inv_def by blast
  have "has_out pid (rest @ [e]) = (has_out pid rest \<or> has_out pid [e])" "has_user pid (rest @ [e]) = (has_user pid rest \<or> has_user pid [e])"
    by (auto simp: has_out_def has_user_def)
  then show ?thesis using assms t unfolding trip_inv_def by (intro conjI exI [of _ trips] exI [of _ "rest @ [e]"]) auto
qed

lemma trip_inv_in:
  assumes "trip_inv pid es t" "recording pid t" "q \<noteq> pid" "t_saw_switch_out t" "t_saw_user_return t"
    "t_active t'" "t_pid t' = pid" "t_round_trips t' = t_round_trips t + 1" "\<not> t_saw_switch_out t'" "\<not> t_saw_user_return t'"
  shows "trip_inv pid (es @ [Ev_in pid q rsp f c]) t'"
proof -
  obtain trips rest where t: "es = concat trips @ rest" "length trips = unat (t_round_trips t)" "\<forall>s\<in>set trips. round_trip pid s"
      "has_out pid rest" "has_user pid rest"
    using assms(1,4,5) unfolding trip_inv_def by blast
  have "unat (t_round_trips t) < 3" using assms(2) by (simp add: recording_def REQUIRED_ROUND_TRIPS_def word_le_nat_alt)
  then have n: "unat (t_round_trips t') = Suc (unat (t_round_trips t))" using assms(8) by (simp add: unat_plus_if')
  let ?s = "rest @ [Ev_in pid q rsp f c]"
  have "round_trip pid ?s" using t(4,5) assms(3) by (auto simp: round_trip_def has_out_def has_user_def)
  then show ?thesis using t(1-3) n assms(6-10) \<open>unat (t_round_trips t) < 3\<close> unfolding trip_inv_def
    by (intro conjI exI [of _ "trips @ [?s]"] exI [of _ "[]"]) auto
qed

lemma trip_inv_step:
  assumes "trip_inv pid es t"
  shows "trip_inv pid (es @ [e]) (ev_step e t)"
proof -
  have "unat (- 1 :: u64) = 2 ^ 64 - 1" by (simp add: unsigned_minus_1_eq_mask mask_eq_exp_minus_1)
  then have act: "t_active t" "t_pid t = pid" "t_round_trips t \<noteq> - 1"
    using assms unfolding trip_inv_def by auto
  show ?thesis
  proof (cases e)
    case (Ev_in p q rsp f c)
    show ?thesis
    proof (cases "recording p t \<and> q \<noteq> t_pid t \<and> t_saw_switch_out t \<and> t_saw_user_return t")
      case True
      then have "p = pid" "q \<noteq> pid" using act(2) by (simp_all add: recording_def)
      then show ?thesis using trip_inv_in [OF assms] True act Ev_in
        by (simp add: ev_step_def scheduled_in_def Let_def next_sequence_def)
    next
      case False
      then show ?thesis using Ev_in
        by (intro trip_inv_same [OF assms]) (auto simp: ev_step_def scheduled_in_def Let_def next_sequence_def split: if_splits)
    qed
  next
    case (Ev_out p n rsp f c)
    then show ?thesis using act
      by (intro trip_inv_same [OF assms]) (auto simp: ev_step_def scheduled_out_def Let_def next_sequence_def recording_def has_out_def split: if_splits)
  next
    case (Ev_user p f c)
    then show ?thesis using act
      by (intro trip_inv_same [OF assms]) (auto simp: ev_step_def user_return_def Let_def next_sequence_def recording_def has_user_def split: if_splits)
  next
    case (Ev_register p c im en)
    then show ?thesis using act
      by (intro trip_inv_same [OF assms]) (auto simp: ev_step_def register_target_def split: sum.splits interval_error.splits if_splits)
  next
    case (Ev_sysret p c rip rsp fl krsp)
    then show ?thesis
      by (intro trip_inv_same [OF assms]) (auto simp: ev_step_def sysret_handoff_def Let_def next_sequence_def split: if_splits)
  qed
qed

text \<open>C30. A target that was just registered never has more than three round trips counted, and the events up to any
  moment split into that many disjoint stretches, each a real round trip: user mode was interrupted, the
  processor went to another process, and came back from another one.\<close>
theorem round_trips_real:
  assumes "register_target pid cr3 img en EMPTY_TARGET = (t, line)" "t_active t"
  shows "let r = unat (t_round_trips (fold ev_step es t)) in
    r \<le> 3 \<and> (\<exists>trips rest. es = concat trips @ rest \<and> length trips = r \<and> (\<forall>s\<in>set trips. round_trip pid s))"
proof -
  have "t_pid t = pid" "t_round_trips t = 0" "\<not> t_saw_switch_out t" "\<not> t_saw_user_return t"
    using assms by (auto simp: register_target_def EMPTY_TARGET_def Let_def split: sum.splits interval_error.splits if_splits)
  then have "trip_inv pid [] t" using assms(2) by (simp add: trip_inv_def)
  then have "trip_inv pid es (fold ev_step es t)"
    by (induction es rule: rev_induct) (auto intro: trip_inv_step)
  then show ?thesis unfolding trip_inv_def Let_def by blast
qed

definition demo_frame :: interrupt_frame where
  "demo_frame = \<lparr>regs = undefined, int_no = 32, err_code = 0, f_rip = 0x400010, f_cs = 0x23, f_rflags = 0x202,
     f_user_rsp = 0x2200000, f_ss = 0x1B\<rparr>"

theorem round_trips_real_witness:
  "\<exists>t line. register_target 7 0x300000 demo_image 0x400010 EMPTY_TARGET = (t, line) \<and>
     unat (t_round_trips (fold ev_step [Ev_user 7 demo_frame 0x300000, Ev_out 7 1 0x288000 demo_frame 0x300000,
       Ev_in 7 1 0x288000 demo_frame 0x300000] t)) = 1"
proof -
  obtain a where a: "executable_intervals demo_image = Inr (a, 1)" "in_intervals a 1 0x400010"
    using demo_image_intervals by blast
  obtain t line where t: "register_target 7 0x300000 demo_image 0x400010 EMPTY_TARGET = (t, line)" by fastforce
  then have tv: "t_active t" "\<not> t_invalid t" "t_pid t = 7" "t_round_trips t = 0"
    using a by (auto simp: register_target_def EMPTY_TARGET_def Let_def)
  let ?es = "[Ev_user 7 demo_frame 0x300000, Ev_out 7 1 0x288000 demo_frame 0x300000, Ev_in 7 1 0x288000 demo_frame 0x300000]"
  have "unat (t_round_trips (fold ev_step ?es t)) = 1"
    using tv by (simp add: ev_step_def user_return_def scheduled_out_def scheduled_in_def recording_def Let_def next_sequence_def
        REQUIRED_ROUND_TRIPS_def demo_frame_def)
  moreover have "unat (t_round_trips (fold ev_step ?es t)) \<le> 3"
    using round_trips_real [OF t tv(1), of ?es] by (simp only: Let_def)
  ultimately show ?thesis using t by blast
qed

end
