(* ===== verification/Framebuffer_Props.thy ===== *)
theory Framebuffer_Props imports Framebuffer begin

text \<open>The framebuffer as an array of pixels: every drawing operation stays inside the mapped
  framebuffer, and its effect on each pixel is the one the picture describes.\<close>

definition fb_ok :: "framebuffer \<Rightarrow> bool" where
  "fb_ok fb \<longleftrightarrow> 0 < fb_width fb \<and> 0 < fb_height fb \<and> 4 * unat (fb_width fb) \<le> unat (fb_pitch fb) \<and>
     unat (fb_address fb) + unat (fb_pitch fb) * unat (fb_height fb) \<le> 2 ^ 64"

definition fb_bytes :: "framebuffer \<Rightarrow> nat set" where
  "fb_bytes fb = {unat (fb_address fb) ..< unat (fb_address fb) + unat (fb_pitch fb) * unat (fb_height fb)}"

definition visible :: "framebuffer \<Rightarrow> nat \<Rightarrow> nat \<Rightarrow> bool" where
  "visible fb x y \<longleftrightarrow> x < unat (fb_width fb) \<and> y < unat (fb_height fb)"

definition pixel :: "framebuffer \<Rightarrow> mem \<Rightarrow> nat \<Rightarrow> nat \<Rightarrow> u32" where
  "pixel fb m x y = of_le (read_bytes m (pixel_addr fb x y) 4)"

subsection \<open>Addresses\<close>

lemma pixel_end:
  assumes "fb_ok fb" "visible fb x y"
  shows "y * unat (fb_pitch fb) + 4 * x + 4 \<le> unat (fb_pitch fb) * unat (fb_height fb)"
proof -
  have "y * unat (fb_pitch fb) + 4 * x + 4 \<le> y * unat (fb_pitch fb) + unat (fb_pitch fb)"
    using assms by (simp add: fb_ok_def visible_def)
  also have "\<dots> = Suc y * unat (fb_pitch fb)" by simp
  also have "\<dots> \<le> unat (fb_height fb) * unat (fb_pitch fb)"
    using assms by (intro mult_right_mono) (simp_all add: visible_def)
  finally show ?thesis by (simp add: mult.commute)
qed

lemma pixel_byte:
  assumes "fb_ok fb" "visible fb x y" "i < 4"
  shows "unat (pixel_addr fb x y + of_nat i) = unat (fb_address fb) + y * unat (fb_pitch fb) + 4 * x + i"
proof -
  have "pixel_addr fb x y + of_nat i =
      of_nat (unat (fb_address fb) + y * unat (fb_pitch fb) + 4 * x + i)"
    by (simp add: pixel_addr_def)
  moreover have "unat (fb_address fb) + y * unat (fb_pitch fb) + 4 * x + i < 2 ^ 64"
    using pixel_end [OF assms(1,2)] assms(1,3) by (simp add: fb_ok_def)
  ultimately show ?thesis by (simp only: unat_of_nat) (simp add: take_bit_nat_eq_self)
qed

lemma pixels_disjoint_lt:
  assumes "fb_ok fb" "visible fb x y" "visible fb x' y'" "i < 4" "j < 4" "y < y'"
  shows "y * unat (fb_pitch fb) + 4 * x + i < y' * unat (fb_pitch fb) + 4 * x' + j"
proof -
  have "y * unat (fb_pitch fb) + 4 * x + i < Suc y * unat (fb_pitch fb)"
    using assms by (simp add: fb_ok_def visible_def)
  also have "\<dots> \<le> y' * unat (fb_pitch fb)" using assms(6) by (intro mult_right_mono) simp_all
  finally show ?thesis by simp
qed

lemma pixels_disjoint:
  assumes "fb_ok fb" "visible fb x y" "visible fb x' y'" "i < 4" "j < 4" "(x, y) \<noteq> (x', y')"
  shows "pixel_addr fb x y + of_nat i \<noteq> pixel_addr fb x' y' + of_nat j"
proof
  assume "pixel_addr fb x y + of_nat i = pixel_addr fb x' y' + of_nat j"
  then have eq: "y * unat (fb_pitch fb) + 4 * x + i = y' * unat (fb_pitch fb) + 4 * x' + j"
    using pixel_byte [OF assms(1,2,4)] pixel_byte [OF assms(1,3,5)] by simp
  consider "y < y'" | "y' < y" | "y = y'" "x \<noteq> x'" using assms(6) by fastforce
  then show False
  proof cases
    case 1 then show ?thesis using pixels_disjoint_lt [OF assms(1-5)] eq by simp
  next
    case 2 then show ?thesis using pixels_disjoint_lt [OF assms(1,3,2,5,4)] eq by simp
  next
    case 3 then show ?thesis using eq assms(4,5) by simp
  qed
qed

subsection \<open>One store\<close>

lemma store32_other:
  assumes "fb_ok fb" "visible fb x y" "unat p \<notin> fb_bytes fb"
  shows "store32 (pixel_addr fb x y) c m p = m p"
  unfolding store32_def
proof (rule write_bytes_other, simp, intro allI impI)
  fix i :: nat assume i: "i < 4"
  then show "p \<noteq> pixel_addr fb x y + word_of_nat i"
    using pixel_byte [OF assms(1,2) i] pixel_end [OF assms(1,2)] assms(3) by (auto simp: fb_bytes_def)
qed

lemma pixel_store:
  assumes "fb_ok fb" "visible fb x y" "visible fb x' y'"
  shows "pixel fb (store32 (pixel_addr fb x y) c m) x' y' = (if (x', y') = (x, y) then c else pixel fb m x' y')"
proof (cases "(x', y') = (x, y)")
  case True
  then show ?thesis using read_write_bytes [of "le_bytes 4 c" "pixel_addr fb x y" m]
    by (simp add: pixel_def store32_def)
next
  case False
  have "read_bytes (store32 (pixel_addr fb x y) c m) (pixel_addr fb x' y') 4 = read_bytes m (pixel_addr fb x' y') 4"
  proof (rule nth_equalityI)
    fix j assume j: "j < length (read_bytes (store32 (pixel_addr fb x y) c m) (pixel_addr fb x' y') 4)"
    then have "store32 (pixel_addr fb x y) c m (pixel_addr fb x' y' + of_nat j) = m (pixel_addr fb x' y' + of_nat j)"
      unfolding store32_def using pixels_disjoint [OF assms(1,3,2)] False
      by (intro write_bytes_other) auto
    then show "read_bytes (store32 (pixel_addr fb x y) c m) (pixel_addr fb x' y') 4 ! j =
        read_bytes m (pixel_addr fb x' y') 4 ! j" using j by (simp add: read_bytes_nth)
  qed simp
  then show ?thesis using False by (auto simp: pixel_def)
qed

lemma plot_visible: "x < fb_width fb \<Longrightarrow> y < fb_height fb \<Longrightarrow> visible fb (unat x) (unat y)"
  by (simp add: visible_def word_less_nat_alt)

lemma plot_other:
  "fb_ok fb \<Longrightarrow> unat p \<notin> fb_bytes fb \<Longrightarrow> plot_pixel fb x y c m p = m p"
  by (auto simp: plot_pixel_def not_le intro!: store32_other plot_visible)

lemma pixel_plot:
  assumes "fb_ok fb" "visible fb x' y'"
  shows "pixel fb (plot_pixel fb x y c m) x' y' = (if x' = unat x \<and> y' = unat y then c else pixel fb m x' y')"
proof (cases "x \<ge> fb_width fb \<or> y \<ge> fb_height fb")
  case True
  then have "\<not> (x' = unat x \<and> y' = unat y)" using assms(2)
    by (auto simp: visible_def word_le_nat_alt)
  then show ?thesis using True by (auto simp: plot_pixel_def)
next
  case False
  then show ?thesis using pixel_store [OF assms(1) plot_visible assms(2)]
    by (auto simp: plot_pixel_def not_le)
qed

subsection \<open>Folds\<close>

lemma fold_same:
  assumes "\<And>x m. x \<in> set xs \<Longrightarrow> f x m p = m p"
  shows "fold f xs m p = (m :: mem) p"
  using assms by (induction xs arbitrary: m) simp_all

text \<open>A fold in which each key paints its own pixels: the key that owns a pixel decides it.\<close>
lemma fold_paint:
  assumes "\<And>x m. x \<in> set xs \<Longrightarrow> Q (f x m) = (if x = k then v (Q m) else Q m)" "distinct xs"
  shows "Q (fold f xs m) = (if k \<in> set xs then v (Q m) else Q m)"
  using assms
proof (induction xs arbitrary: m)
  case (Cons x xs)
  then have "Q (fold f xs (f x m)) = (if k \<in> set xs then v (Q (f x m)) else Q (f x m))" by simp
  then show ?case using Cons.prems by auto
qed simp

lemma clamp_visible:
  assumes "clamp_range lim a b = (lo, hi)" "0 < lim"
  shows "unat lo \<le> unat hi" "unat hi < unat lim"
proof -
  have lim: "sat_pred lim = lim - 1" "unat (lim - 1) = unat lim - 1" "0 < unat lim"
    using assms(2) by (auto simp: sat_pred_def unat_minus_one unat_gt_0)
  have lo: "unat lo \<le> unat (lim - 1)" and hi: "unat hi \<le> unat (lim - 1)" "lo \<le> hi"
    using assms(1) lim(1) by (auto simp: clamp_range_def Let_def min_def max_def word_le_nat_alt split: if_splits)
  show "unat lo \<le> unat hi" using hi(2) by (simp add: word_le_nat_alt)
  show "unat hi < unat lim" using hi(1) lim by simp
qed

lemma fill_rect_visible:
  assumes "fb_ok fb" "clamp_range (fb_width fb) x1 x2 = (xa, xb)" "clamp_range (fb_height fb) y1 y2 = (ya, yb)"
    "x \<in> set [unat xa..<Suc (unat xb)]" "y \<in> set [unat ya..<Suc (unat yb)]"
  shows "visible fb x y"
  using assms clamp_visible [OF assms(2)] clamp_visible [OF assms(3)] by (auto simp: visible_def fb_ok_def)

lemma fill_rect_other:
  assumes "fb_ok fb" "unat p \<notin> fb_bytes fb"
  shows "fill_rect fb x1 y1 x2 y2 c m p = m p"
proof -
  obtain xa xb ya yb where r: "clamp_range (fb_width fb) x1 x2 = (xa, xb)" "clamp_range (fb_height fb) y1 y2 = (ya, yb)"
    by fastforce
  show ?thesis unfolding fill_rect_def r Let_def prod.case
    by (intro fold_same store32_other [OF assms(1) _ assms(2)] fill_rect_visible [OF assms(1) r])
qed

lemma draw_char_other:
  assumes "fb_ok fb" "unat p \<notin> fb_bytes fb"
  shows "draw_char fb x y c colour bg m p = m p"
  unfolding draw_char_def Let_def
  by (auto intro!: fold_same simp: plot_other [OF assms] split: option.splits)

lemma draw_string_other:
  assumes "fb_ok fb" "unat p \<notin> fb_bytes fb"
  shows "draw_string fb x y cs colour bg m p = m p"
  using assms
  by (induction fb x y cs colour bg m rule: draw_string.induct) (simp_all add: Let_def draw_char_other)


subsection \<open>What is painted\<close>

definition in_rect :: "framebuffer \<Rightarrow> u32 \<Rightarrow> u32 \<Rightarrow> u32 \<Rightarrow> u32 \<Rightarrow> nat \<Rightarrow> nat \<Rightarrow> bool" where
  "in_rect fb x1 y1 x2 y2 x y =
     (let (x1, x2) = clamp_range (fb_width fb) x1 x2; (y1, y2) = clamp_range (fb_height fb) y1 y2 in
      unat x1 \<le> x \<and> x \<le> unat x2 \<and> unat y1 \<le> y \<and> y \<le> unat y2)"

lemma pixel_fill_rect:
  assumes "fb_ok fb" "visible fb x y"
  shows "pixel fb (fill_rect fb x1 y1 x2 y2 c m) x y = (if in_rect fb x1 y1 x2 y2 x y then c else pixel fb m x y)"
proof -
  obtain xa xb ya yb where r: "clamp_range (fb_width fb) x1 x2 = (xa, xb)" "clamp_range (fb_height fb) y1 y2 = (ya, yb)"
    by fastforce
  let ?xs = "[unat xa..<Suc (unat xb)]" and ?ys = "[unat ya..<Suc (unat yb)]"
  have row: "pixel fb (fold (\<lambda>x'. store32 (pixel_addr fb x' y') c) ?xs m) x y =
      (if y' = y then (if x \<in> set ?xs then c else pixel fb m x y) else pixel fb m x y)"
    if y': "y' \<in> set ?ys" for y' m
  proof -
    have "pixel fb (store32 (pixel_addr fb x' y') c m) x y =
        (if x' = x then (if y' = y then c else pixel fb m x y) else pixel fb m x y)" if "x' \<in> set ?xs" for x' m
      using pixel_store [OF assms(1) fill_rect_visible [OF assms(1) r that y'] assms(2)] by auto
    from fold_paint [of ?xs "\<lambda>m. pixel fb m x y" _ x "\<lambda>p. if y' = y then c else p", OF this distinct_upt]
    show ?thesis by (simp del: upt_Suc)
  qed
  from fold_paint [of ?ys "\<lambda>m. pixel fb m x y" _ y "\<lambda>p. if x \<in> set ?xs then c else p", OF row distinct_upt]
  show ?thesis by (auto simp: fill_rect_def in_rect_def r Let_def less_Suc_eq_le simp del: upt_Suc)
qed

text \<open>The colour \<open>draw_char\<close> gives a pixel at the offset \<open>(dx, dy)\<close> of the glyph's corner.\<close>
definition glyph_colour :: "u32 \<Rightarrow> u32 \<Rightarrow> u32 option \<Rightarrow> nat \<Rightarrow> nat \<Rightarrow> u32 \<Rightarrow> u32" where
  "glyph_colour c colour bg dx dy old =
     (if bit (FONT8X16 ! (unat c - 0x20) ! dy) (7 - dx) then colour else case bg of Some b \<Rightarrow> b | None \<Rightarrow> old)"

definition printable :: "u32 \<Rightarrow> bool" where
  "printable c \<longleftrightarrow> 0x20 \<le> c \<and> c \<le> 0x7E"

lemma length_FONT8X16: "length FONT8X16 = 95"
  by (simp add: FONT8X16_def)

lemma glyph_index:
  "(unat (ucast c - 0x20 :: u64) \<ge> 95) = (\<not> printable (c :: u32))"
  "printable c \<Longrightarrow> unat (ucast c - 0x20 :: u64) = unat c - 0x20"
proof -
  have c: "unat (ucast c :: u64) = unat c"
    using unsigned_less [of c, where ?'a = nat] by (simp add: unsigned_ucast_eq take_bit_nat_eq_self)
  have ge: "unat (ucast c - 0x20 :: u64) = unat c - 0x20" if "32 \<le> unat c"
    using that c(1) by (subst unat_sub) (simp_all add: word_le_nat_alt)
  have lt: "unat (ucast c - 0x20 :: u64) \<ge> 95" if l: "unat c < 32"
  proof -
    have "unat (ucast c - 0x20 :: u64) = unat c + 2 ^ 64 - 32" using l c(1) by (simp add: unat_sub_if')
    then show ?thesis by simp
  qed
  have pr: "printable c \<longleftrightarrow> 32 \<le> unat c \<and> unat c \<le> 126" by (simp add: printable_def word_le_nat_alt)
  show "(unat (ucast c - 0x20 :: u64) \<ge> 95) = (\<not> printable c)"
    using ge lt pr by (cases "unat c < 32") auto
  show "printable c \<Longrightarrow> unat (ucast c - 0x20 :: u64) = unat c - 0x20" using ge pr by simp
qed

lemma row_mask: "col < 8 \<Longrightarrow> (b AND drop_bit col 0x80 \<noteq> 0) = bit (b :: u8) (7 - col)"
proof -
  assume c: "col < 8"
  have "\<forall>i\<in>set [0..<8]. drop_bit i (0x80 :: u8) = 2 ^ (7 - i)" by code_simp
  then have "drop_bit col (0x80 :: u8) = 2 ^ (7 - col)" using c by simp
  then show ?thesis by (simp add: and_exp_eq_0_iff_not_bit)
qed

lemma offset_eq: "x < 2 ^ 32 \<Longrightarrow> i < 2 ^ 32 \<Longrightarrow>
  (x = unat (a + of_nat i :: u32)) = (i = unat (of_nat x - a :: u32))"
proof -
  assume x: "x < 2 ^ 32" and i: "i < 2 ^ 32"
  have "(x = unat (a + of_nat i :: u32)) = (unat (of_nat x :: u32) = unat (a + (of_nat i :: u32)))"
    using x by (simp add: unat_of_nat take_bit_nat_eq_self)
  also have "\<dots> = (of_nat x = a + (of_nat i :: u32))" by (simp only: word_unat_eq_iff)
  also have "\<dots> = (of_nat i = (of_nat x - a :: u32))" by (auto simp: algebra_simps)
  also have "\<dots> = (unat (of_nat i :: u32) = unat (of_nat x - a :: u32))" by (simp only: word_unat_eq_iff)
  also have "\<dots> = (i = unat (of_nat x - a :: u32))" using i by (simp add: unat_of_nat take_bit_nat_eq_self)
  finally show ?thesis .
qed

lemma pixel_draw_char:
  fixes x y :: u32
  assumes "fb_ok fb" "visible fb x' y'"
  defines "dx \<equiv> unat (of_nat x' - x :: u32)" and "dy \<equiv> unat (of_nat y' - y :: u32)"
  shows "pixel fb (draw_char fb x y c colour bg m) x' y' =
    (if printable c \<and> dx < 8 \<and> dy < 16 then glyph_colour c colour bg dx dy (pixel fb m x' y') else pixel fb m x' y')"
proof (cases "printable c")
  case False
  then show ?thesis by (simp add: draw_char_def length_FONT8X16 glyph_index)
next
  case True
  have small: "x' < 2 ^ 32" "y' < 2 ^ 32"
    using assms(2) unsigned_less [of "fb_width fb", where ?'a = nat] unsigned_less [of "fb_height fb", where ?'a = nat] by (simp_all add: visible_def)
  let ?step = "\<lambda>row col m. let px = x + of_nat col; py = y + of_nat row in
      if px \<ge> fb_width fb \<or> py \<ge> fb_height fb then m
      else if FONT8X16 ! (unat c - 0x20) ! row AND drop_bit col 0x80 \<noteq> 0 then plot_pixel fb px py colour m
      else case bg of Some b \<Rightarrow> plot_pixel fb px py b m | None \<Rightarrow> m"
  have step: "pixel fb (?step row col m) x' y' =
      (if col = dx then (if row = dy then glyph_colour c colour bg dx dy (pixel fb m x' y') else pixel fb m x' y')
       else pixel fb m x' y')" if "col < 8" "row < 16" for row col m
  proof -
    have eq: "x' = unat (x + of_nat col) \<longleftrightarrow> col = dx" "y' = unat (y + of_nat row) \<longleftrightarrow> row = dy"
      using that small unfolding dx_def dy_def by (auto intro!: offset_eq)
    have vis: "\<not> (fb_width fb \<le> x + of_nat col \<or> fb_height fb \<le> y + of_nat row)" if "col = dx" "row = dy"
      using that eq assms(2) by (auto simp: visible_def word_le_nat_alt)
    show ?thesis
    proof (cases "col = dx \<and> row = dy")
      case True
      then have "unat (x + of_nat dx) = x'" "unat (y + of_nat dy) = y'"
          "\<not> (fb_width fb \<le> x + of_nat dx \<or> fb_height fb \<le> y + of_nat dy)"
        using eq vis by auto
      then show ?thesis using True unfolding Let_def row_mask [OF that(1)]
        by (simp add: pixel_plot [OF assms(1,2)] glyph_colour_def split: option.split)
    next
      case False
      then have "\<not> (x' = unat (x + of_nat col) \<and> y' = unat (y + of_nat row))" unfolding eq .
      then have "pixel fb (plot_pixel fb (x + of_nat col) (y + of_nat row) k m) x' y' = pixel fb m x' y'" for k
        unfolding pixel_plot [OF assms(1,2)] by argo
      then have "pixel fb (?step row col m) x' y' = pixel fb m x' y'" unfolding Let_def
        by (simp split: option.split)
      then show ?thesis using False by argo
    qed
  qed
  have row: "pixel fb (fold (?step row) [0..<8] m) x' y' =
      (if row = dy then (if dx < 8 then glyph_colour c colour bg dx dy (pixel fb m x' y') else pixel fb m x' y')
       else pixel fb m x' y')" if "row \<in> set [0..<16]" for row m
    by (subst fold_paint [where Q = "\<lambda>m. pixel fb m x' y'" and k = dx, OF step]) (use that in auto)
  have "pixel fb (fold (\<lambda>row. fold (?step row) [0..<8]) [0..<16] m) x' y' =
      (if dy \<in> set [0..<16] then (if dx < 8 then glyph_colour c colour bg dx dy (pixel fb m x' y') else pixel fb m x' y')
       else pixel fb m x' y')"
    by (rule fold_paint [where Q = "\<lambda>m. pixel fb m x' y'" and k = dy, OF row]) auto
  moreover have "draw_char fb x y c colour bg m = fold (\<lambda>row. fold (?step row) [0..<8]) [0..<16] m"
    unfolding draw_char_def Let_def length_FONT8X16 glyph_index using True by (simp only: glyph_index simp_thms if_False)
  ultimately show ?thesis using True by simp
qed


subsection \<open>The mode the probe sets\<close>

lemma fb_init_ok:
  assumes "fb_init wr rd pci d k = Some (Some fb, d', k')"
  shows "fb_ok fb \<and> fb_bytes fb = {unat (fb_address fb) ..< unat (fb_address fb) + 0x300000}"
proof -
  have fb: "fb = \<lparr>fb_address = ucast (pci (pci_config_addr 0 2 0 0x10) AND 0xFFFFFFF0), fb_pitch = 4096,
      fb_width = 1024, fb_height = 768, fb_bpp = 32\<rparr>"
    using assms
    by (auto simp: fb_init_def init_vbe_def Let_def bind_eq_Some_conv split: if_splits option.splits)
  have "unat (ucast v :: u64) < 2 ^ 32" for v :: u32
    using unsigned_less [of v, where ?'a = nat] by (simp add: unsigned_ucast_eq take_bit_nat_eq_self)
  from this [of "pci (pci_config_addr 0 2 0 0x10) AND 0xFFFFFFF0"]
  show ?thesis unfolding fb by (simp add: fb_ok_def fb_bytes_def)
qed

text \<open>C26. On a framebuffer whose rows hold their pixels, no drawing operation changes a byte outside the
  mapped framebuffer, whatever the coordinates, even where they wrap; the framebuffer that the probe
  returns is one, of 3 MiB.\<close>
theorem drawing_in_bounds:
  assumes "fb_ok fb \<or> fb_init wr rd pci d k = Some (Some fb, d', k')" "unat p \<notin> fb_bytes fb"
  shows "plot_pixel fb x y c m p = m p \<and> fill_rect fb x1 y1 x2 y2 c m p = m p \<and> fb_clear fb c m p = m p \<and>
    draw_char fb x y ch c bg m p = m p \<and> draw_string fb x y cs c bg m p = m p"
proof -
  have "fb_ok fb" using assms(1) by (auto dest: fb_init_ok)
  then show ?thesis using assms(2)
    by (simp add: plot_other fill_rect_other fb_clear_def draw_char_other draw_string_other)
qed

definition demo_fb :: framebuffer where
  "demo_fb = \<lparr>fb_address = 0xFD000000, fb_pitch = 4096, fb_width = 1024, fb_height = 768, fb_bpp = 32\<rparr>"

lemma demo_fb_ok: "fb_ok demo_fb"
  by (simp add: fb_ok_def demo_fb_def)

theorem drawing_in_bounds_witness:
  "draw_string demo_fb 0xFFFFFFFC 760 [0x56, 0x58] 0xFFFFFF (Some 1) (\<lambda>_. 7) 0xFCFFFFFC = 7 \<and>
   fill_rect demo_fb 2000 5 3000 6 1 (\<lambda>_. 7) 0xFD300000 = 7"
proof -
  have "unat (0xFCFFFFFC :: u64) \<notin> fb_bytes demo_fb" "unat (0xFD300000 :: u64) \<notin> fb_bytes demo_fb"
    by (simp_all add: fb_bytes_def demo_fb_def)
  then show ?thesis using drawing_in_bounds [OF disjI1 [OF demo_fb_ok]] by blast
qed



end
