(* ===== verification/Pipe_Props.thy ===== *)
theory Pipe_Props imports Fd_Calls User_Memory begin

text \<open>Reading and writing a pipe through its descriptors: the bytes that one call stores in the reader's
  memory are the bytes that earlier calls took from the writer's, in order.\<close>

text \<open>Descriptor \<open>fd\<close> of the running process is an open file of a vnode with the given operations on pipe \<open>p\<close>.\<close>
definition pipe_end :: "vnode_ops \<Rightarrow> u64 \<Rightarrow> u64 \<Rightarrow> kernel \<Rightarrow> bool" where
  "pipe_end ops fd p k \<longleftrightarrow> (case fd_file fd None k of
      Some (Inr (i, f)) \<Rightarrow> vn_ops (k_vnodes k (of_vnode f)) = ops \<and> pipe_of (vn_data (k_vnodes k (of_vnode f))) = p
    | _ \<Rightarrow> False)"

lemma pipe_endD:
  assumes "pipe_end ops fd p k" "buf \<noteq> 0" "count \<noteq> 0"
  obtains i f where "fd_file fd (bad_buffer buf count) k = Some (Inr (i, f))"
    "vn_ops (k_vnodes k (of_vnode f)) = ops" "pipe_of (vn_data (k_vnodes k (of_vnode f))) = p"
  using assms that unfolding pipe_end_def
  by (auto simp: bad_buffer_def split: option.splits sum.splits prod.splits)

lemma load_virt_take: "load_virt m c a n = Some bs \<Longrightarrow> j \<le> n \<Longrightarrow> load_virt m c a j = Some (take j bs)"
proof (induction m c a n arbitrary: j bs rule: load_virt.induct)
  case (2 m c a n)
  then show ?case by (cases j) (auto split: option.splits)
qed simp

lemma load_virt_length: "load_virt m c a n = Some bs \<Longrightarrow> length bs = n"
  by (induction m c a n arbitrary: bs rule: load_virt.induct) (auto split: option.splits)

lemma pipe_write_call:
  assumes e: "pipe_end PIPE_WRITE_OPS fd p k" and inv: "pipe_inv (k_pipes k p)" and b: "buf \<noteq> 0" "count \<noteq> 0"
    and l: "user_load buf (unat count) k = Some bs"
  defines "n \<equiv> min (unat count) (4095 - length (pipe_contents (k_pipes k p)))"
  obtains pb where "sys_write_vfs fd buf count k = Some (of_nat n, set_pipe p pb k)" "pipe_inv pb"
    "pipe_contents pb = pipe_contents (k_pipes k p) @ take n bs"
proof -
  obtain i f where f: "fd_file fd (bad_buffer buf count) k = Some (Inr (i, f))"
    "vn_ops (k_vnodes k (of_vnode f)) = PIPE_WRITE_OPS" "pipe_of (vn_data (k_vnodes k (of_vnode f))) = p"
    using pipe_endD [OF e b] .
  have len: "length bs = unat count" using l load_virt_length by (simp add: user_load_def)
  have sp: "unat (pipe_space (k_pipes k p)) = 4095 - length (pipe_contents (k_pipes k p))" by (rule pipe_space_inv [OF inv])
  show ?thesis
  proof (cases "pipe_space (k_pipes k p) = 0")
    case True
    then have "n = 0" using sp by (simp add: n_def)
    moreover have "set_pipe p (k_pipes k p) k = k" by (simp add: set_pipe_def)
    ultimately show ?thesis
      using that [of "k_pipes k p"] f True inv by (simp add: sys_write_vfs_def vn_write_def pipe_write_def)
  next
    case False
    have l': "user_load buf n k = Some (take n bs)"
      using l load_virt_take [of _ _ _ "unat count" bs n] by (simp add: user_load_def n_def)
    obtain j pb where put: "pipe_put (take n bs) (k_pipes k p) = (j, pb)" by fastforce
    have "j = n" "pipe_contents pb = pipe_contents (k_pipes k p) @ take n bs" "pipe_inv pb"
      using pipe_put_contents [OF inv put] len by (simp_all add: n_def min_def)
    moreover have "min (unat count) (unat (pipe_space (k_pipes k p))) = n" using sp by (simp add: n_def)
    ultimately show ?thesis using that [of pb] f False put l'
      by (simp add: sys_write_vfs_def vn_write_def pipe_write_def Let_def)
  qed
qed

lemma pipe_read_call:
  assumes e: "pipe_end PIPE_READ_OPS fd p k" and inv: "pipe_inv (k_pipes k p)" and b: "buf \<noteq> 0" "count \<noteq> 0"
    and r: "maps_run (k_mem k) (k_cr3 k) buf (length (take (unat count) (pipe_contents (k_pipes k p)))) g"
  defines "bs \<equiv> take (unat count) (pipe_contents (k_pipes k p))"
  obtains k' where "sys_read_vfs fd buf count k = Some (of_nat (length bs), k')" "user_load buf (length bs) k' = Some bs"
    "pipe_contents (k_pipes k' p) = drop (unat count) (pipe_contents (k_pipes k p))" "pipe_inv (k_pipes k' p)"
proof -
  obtain i f where f: "fd_file fd (bad_buffer buf count) k = Some (Inr (i, f))"
    "vn_ops (k_vnodes k (of_vnode f)) = PIPE_READ_OPS" "pipe_of (vn_data (k_vnodes k (of_vnode f))) = p"
    using pipe_endD [OF e b] .
  obtain xs pb where t: "pipe_take (unat count) (k_pipes k p) = (xs, pb)" by fastforce
  have xs: "xs = bs" "pipe_contents pb = drop (unat count) (pipe_contents (k_pipes k p))" "pipe_inv pb"
    using pipe_take_contents [OF inv t] by (simp_all add: bs_def)
  have run: "maps_run (k_mem (set_pipe p pb k)) (k_cr3 (set_pipe p pb k)) buf (length bs) g"
    using r by (simp add: set_pipe_def bs_def)
  obtain m where m: "user_store buf bs (set_pipe p pb k) = Some ((set_pipe p pb k)\<lparr>k_mem := m\<rparr>)"
      "load_virt m (k_cr3 k) buf (length bs) = Some bs"
    using user_store_load [OF run] by (auto simp: set_pipe_def)
  show ?thesis
    using that f t m xs by (simp add: sys_read_vfs_def vn_read_def pipe_read_def Let_def user_load_def set_pipe_def)
qed

lemma pipe_end_set_pipe: "pipe_end ops fd q (set_pipe p pb k) = pipe_end ops fd q k"
proof -
  have "fd_file fd None (set_pipe p pb k) = fd_file fd None k"
    by (cases "process_mut (k_cur k) k") (simp_all add: fd_file_def cur_fds_def process_mut_def set_pipe_def Let_def)
  moreover have "k_vnodes (set_pipe p pb k) = k_vnodes k" by (simp add: set_pipe_def)
  ultimately show ?thesis unfolding pipe_end_def by (simp only:)
qed

text \<open>C11. A write to a pipe takes the longest prefix of the caller's bytes that fits in 4095, and a read that follows
  stores in user memory, and removes, the oldest bytes of the pipe: nothing is lost, changed or
  reordered, and both calls return the number of bytes moved.\<close>
theorem pipe_calls_fifo:
  assumes "pipe_end PIPE_WRITE_OPS wfd p k" "pipe_end PIPE_READ_OPS rfd p k" "pipe_inv (k_pipes k p)"
    "src \<noteq> 0" "wcount \<noteq> 0" "dst \<noteq> 0" "rcount \<noteq> 0" "user_load src (unat wcount) k = Some bs"
    "queue = pipe_contents (k_pipes k p)" "n = min (unat wcount) (4095 - length queue)"
    "out = take (unat rcount) (queue @ take n bs)" "maps_run (k_mem k) (k_cr3 k) dst (length out) g"
  shows "\<exists>k1 k2. sys_write_vfs wfd src wcount k = Some (of_nat n, k1) \<and>
    sys_read_vfs rfd dst rcount k1 = Some (of_nat (length out), k2) \<and> user_load dst (length out) k2 = Some out \<and>
    pipe_contents (k_pipes k2 p) = drop (unat rcount) (queue @ take n bs)"
proof -
  obtain pb where w: "sys_write_vfs wfd src wcount k = Some (of_nat n, set_pipe p pb k)" "pipe_inv pb"
      "pipe_contents pb = queue @ take n bs"
    using pipe_write_call [OF assms(1,3,4,5,8)] unfolding assms(9,10) by blast
  let ?k = "set_pipe p pb k"
  have "k_pipes ?k p = pb" "k_mem ?k = k_mem k" "k_cr3 ?k = k_cr3 k" by (simp_all add: set_pipe_def)
  then show ?thesis
    using pipe_read_call [of rfd p ?k dst rcount g] pipe_end_set_pipe assms(2,6,7,11,12) w by metis
qed

definition pipe_process :: process where
  "pipe_process = (blank_process 1 Running)\<lparr>p_fds := (replicate 16 (- 1))[3 := 0, 4 := 1]\<rparr>"

text \<open>One process with a pipe at \<open>0x200018\<close> behind descriptors 3 and 4, and three bytes at \<open>0x101000\<close>.\<close>
definition pipe_kernel :: kernel where
  "pipe_kernel = (kernel0 [pipe_process])\<lparr>k_mem := flat_mem(0x101000 := 0x41, 0x101001 := 0x42, 0x101002 := 0x43),
     k_oft := oft_new[0 := Some \<lparr>of_vnode = Heap_Vnode 8, of_offset = 0, of_flags = 0, of_mode = 0, of_refcount = 1\<rparr>,
       1 := Some \<lparr>of_vnode = Heap_Vnode 16, of_offset = 0, of_flags = 1, of_mode = 0, of_refcount = 1\<rparr>],
     k_vnodes := (k_vnodes (kernel0 []))(Heap_Vnode 8 := pipe_vnode PIPE_READ_OPS 0x200018,
       Heap_Vnode 16 := pipe_vnode PIPE_WRITE_OPS 0x200018)\<rparr>"

lemma pipe_kernel_ends:
  "pipe_end PIPE_READ_OPS 3 0x200018 pipe_kernel" "pipe_end PIPE_WRITE_OPS 4 0x200018 pipe_kernel"
proof -
  have "process_mut 1 (kernel0 [pipe_process]) = Some pipe_process"
    using kernel0_process [of "[pipe_process]" pipe_process] by (simp add: pipe_process_def MAX_PROCS_def)
  then have c: "cur_fds pipe_kernel = Some (p_fds pipe_process)" by (simp add: cur_fds_def pipe_kernel_def process_mut_def)
  have fds: "p_fds pipe_process ! 3 = 0" "p_fds pipe_process ! 4 = 1" by (simp_all add: pipe_process_def)
  show "pipe_end PIPE_READ_OPS 3 0x200018 pipe_kernel" "pipe_end PIPE_WRITE_OPS 4 0x200018 pipe_kernel"
    using c fds by (simp_all add: pipe_end_def fd_file_def MAX_FDS_def oft_get_def OFT_SIZE_def oft_new_def pipe_vnode_def
        pipe_kernel_def)
qed

theorem pipe_calls_fifo_witness:
  "\<exists>k1 k2. sys_write_vfs 4 0x101000 3 pipe_kernel = Some (3, k1) \<and> sys_read_vfs 3 0x101100 2 k1 = Some (2, k2) \<and>
     user_load 0x101100 2 k2 = Some [0x41, 0x42] \<and> pipe_contents (k_pipes k2 0x200018) = [0x43]"
proof -
  let ?g = "\<lambda>i. 0x101100 + of_nat i :: u64"
  have p: "k_pipes pipe_kernel 0x200018 = pipe_buf_new" "k_cr3 pipe_kernel = 0x1000"
    and m: "k_mem pipe_kernel = flat_mem(0x101000 := 0x41, 0x101001 := 0x42, 0x101002 := 0x43)"
    by (simp_all add: pipe_kernel_def kernel0_def)
  have i: "pipe_inv (k_pipes pipe_kernel 0x200018)" and q: "[] = pipe_contents (k_pipes pipe_kernel 0x200018)"
    using pipe_inv_new p by simp_all
  have flat: "is_flat (k_mem pipe_kernel)" unfolding m by (auto simp: is_flat_def)
  have "[0..<3] = [0, 1, 2 :: nat]" by (simp add: numeral_eq_Suc)
  moreover have "load_virt (k_mem pipe_kernel) 0x1000 0x101000 3 = Some (map (\<lambda>i. k_mem pipe_kernel (0x101000 + of_nat i)) [0..<3])"
    by (rule load_virt_flat [OF flat, of _ 0]) simp_all
  ultimately have l: "user_load 0x101000 (unat (3 :: u64)) pipe_kernel = Some [0x41, 0x42, 0x43]"
    using p by (simp add: user_load_def m)
  have r: "maps_run (k_mem pipe_kernel) (k_cr3 pipe_kernel) 0x101100 (length [0x41 :: u8, 0x42]) ?g"
    unfolding p by (rule flat_run [OF flat, of _ "0x100"]) simp_all
  show ?thesis
    using pipe_calls_fifo [OF pipe_kernel_ends(2,1) i _ _ _ _ l q _ _ r, where n = 3 and rcount = 2] by (simp flip: numeral_2_eq_2)
qed

end
