(* ===== verification/Call_Props.thy ===== *)
theory Call_Props imports Kernel_Inv begin

text \<open>The dispatch of system calls and the protocol between \<open>exit\<close> and \<open>waitpid\<close>, and when \<open>nanosleep\<close> returns.\<close>

subsection \<open>Dispatch\<close>

text \<open>The calls by number, as the two registrations leave the table.\<close>
definition CALLS :: "handler list" where
  "CALLS = [H_exit, H_write, H_read, H_getpid, H_brk, H_nanosleep, H_uname, H_reboot, H_fork, H_exec, H_waitpid, H_mmap,
     H_open, H_close, H_read_vfs, H_write_vfs, H_lseek, H_getdents, H_dup, H_dup2, H_pipe, H_stat, H_fstat, H_chdir, H_isatty,
     H_tcgetattr, H_tcsetattr, H_getcwd, H_kill, H_sigaction, H_sigreturn]"

definition boot_table :: syscall_table where
  "boot_table = vfs_register (syscall_init (replicate MAX_SYSCALLS None))"

lemma length_CALLS: "length CALLS = 31" by (simp add: CALLS_def)

lemma boot_table_eq: "boot_table = map Some CALLS @ replicate 33 None"
  by (simp add: boot_table_def vfs_register_def syscall_init_def register_all_def register_def MAX_SYSCALLS_def CALLS_def
      numeral_eq_Suc)

lemma boot_table_nth: "n < MAX_SYSCALLS \<Longrightarrow> boot_table ! n = (if n < length CALLS then Some (CALLS ! n) else None)"
  by (auto simp: boot_table_eq nth_append MAX_SYSCALLS_def length_CALLS)

text \<open>Handlers are ordered by their call number.\<close>

definition call_number :: "handler \<Rightarrow> nat" where
  "call_number h = length (takeWhile (\<lambda>x. x \<noteq> h) CALLS)"

lemma CALLS_all: "h \<in> set CALLS"
  by (cases h) (simp_all add: CALLS_def)

lemma call_number_nth: "call_number h < length CALLS" "CALLS ! call_number h = h"
proof -
  have "takeWhile (\<lambda>x. x \<noteq> h) CALLS \<noteq> CALLS" using CALLS_all [of h] by (metis set_takeWhileD)
  then show "call_number h < length CALLS"
    unfolding call_number_def by (metis length_takeWhile_le nat_less_le takeWhile_eq_take take_all_iff order_refl)
  then show "CALLS ! call_number h = h"
    using nth_length_takeWhile [of "\<lambda>x. x \<noteq> h" CALLS] by (simp add: call_number_def)
qed

instantiation handler :: linorder
begin

definition less_eq_handler :: "handler \<Rightarrow> handler \<Rightarrow> bool" where
  "less_eq_handler h h' \<longleftrightarrow> call_number h \<le> call_number h'"

definition less_handler :: "handler \<Rightarrow> handler \<Rightarrow> bool" where
  "less_handler h h' \<longleftrightarrow> call_number h < call_number h'"

instance
proof
  fix x y :: handler
  assume "x \<le> y" "y \<le> x"
  then show "x = y" using call_number_nth(2) by (metis less_eq_handler_def le_antisym)
qed (auto simp: less_eq_handler_def less_handler_def)

end

lemma CALLS_distinct: "distinct CALLS"
  by (simp add: CALLS_def)

lemma call_number_CALLS: "n < length CALLS \<Longrightarrow> call_number (CALLS ! n) = n"
  using call_number_nth [of "CALLS ! n"] CALLS_distinct by (simp add: nth_eq_iff_index_eq)

lemma CALLS_sorted: "sorted_wrt (<) CALLS"
  by (simp add: sorted_wrt_iff_nth_less less_handler_def call_number_CALLS)

text \<open>C25. With the table that boot registers, and no signal to handle first, a call number from 0 to 30 runs exactly its own
  handler, and every other 64-bit number, below the table's size or far beyond it, returns \<open>-1\<close> and changes
  nothing.  Every handler is registered under exactly one number.\<close>
theorem dispatch_exact:
  assumes "check_signals_syscall (k_cur k) k = Some (SigNone, k)"
  shows "syscall_handler ticks boot_table num a b c d k =
    (if num \<le> 30 then run_handler ticks (CALLS ! unat num) a b c d k else Some (- 1, k)) \<and>
    (\<exists>!n. n < MAX_SYSCALLS \<and> boot_table ! n = Some h)"
proof (rule conjI)
  have "boot_table ! unat num = (if num \<le> 30 then Some (CALLS ! unat num) else None)" if "unat num < MAX_SYSCALLS"
    using boot_table_nth [OF that] by (simp add: length_CALLS word_le_nat_alt less_Suc_eq_le)
  then show "syscall_handler ticks boot_table num a b c d k =
    (if num \<le> 30 then run_handler ticks (CALLS ! unat num) a b c d k else Some (- 1, k))"
    using assms by (auto simp: syscall_handler_def MAX_SYSCALLS_def word_le_nat_alt)
  have "n = call_number h" if "n < MAX_SYSCALLS" "boot_table ! n = Some h" for n
    using that boot_table_nth [OF that(1)] call_number_CALLS [of n] by (simp split: if_splits)
  moreover have "call_number h < MAX_SYSCALLS" using call_number_nth(1) [of h] by (simp add: length_CALLS MAX_SYSCALLS_def)
  moreover from this have "boot_table ! call_number h = Some h" using boot_table_nth call_number_nth [of h] by simp
  ultimately show "\<exists>!n. n < MAX_SYSCALLS \<and> boot_table ! n = Some h" by blast
qed

theorem dispatch_exact_witness:
  "syscall_handler (\<lambda>_. 0) boot_table 3 0 0 0 0 ((kernel0 [])\<lparr>k_cur := 2\<rparr>) = Some (2, (kernel0 [])\<lparr>k_cur := 2\<rparr>) \<and>
   syscall_handler (\<lambda>_. 0) boot_table 31 0 0 0 0 ((kernel0 [])\<lparr>k_cur := 2\<rparr>) = Some (- 1, (kernel0 [])\<lparr>k_cur := 2\<rparr>)"
proof -
  have "check_signals_syscall (k_cur ((kernel0 [])\<lparr>k_cur := 2\<rparr>)) ((kernel0 [])\<lparr>k_cur := 2\<rparr>) = Some (SigNone, (kernel0 [])\<lparr>k_cur := 2\<rparr>)"
    by (simp add: check_signals_syscall_def)
  moreover have "CALLS ! 3 = H_getpid" by (simp add: CALLS_def)
  ultimately show ?thesis
    using dispatch_exact [of "(kernel0 [])\<lparr>k_cur := 2\<rparr>"] by (simp add: sys_getpid_def word_le_nat_alt)
qed

subsection \<open>Exit and wait\<close>

lemma process_mut_if_take:
  assumes inv: "slots_inv ss"
  shows "slots_inv (take_process q ss)"
    "process_mut_if r (take_process q ss) = (if r = q then None else process_mut_if r ss)"
proof -
  have "slots_inv (take_process q ss) \<and> (\<forall>p. Some p \<in> set (take_process q ss) \<longleftrightarrow> Some p \<in> set ss \<and> p_pid p \<noteq> q)"
  proof (cases "slot_of q ss")
    case None
    then show ?thesis using inv slot_of_None [of q ss] by (auto simp: take_process_def pids_def)
  next
    case (Some j)
    then obtain p where p: "ss ! j = Some p" "j < length ss" "p_pid p = q" using slot_of_Some by blast
    have t: "take_process q ss = ss[j := None]" using Some by (simp add: take_process_def)
    have nth: "ss[j := None] ! i = (if i = j then None else ss ! i)" if "i < length ss" for i using that by simp
    have uniq: "i = i'" if "i < length ss" "i' < length ss" "ss ! i = Some x" "ss ! i' = Some y" "p_pid x = p_pid y" for i i' x y
      using inv that unfolding slots_inv_def by blast
    have m: "Some x \<in> set (ss[j := None]) \<longleftrightarrow> Some x \<in> set ss \<and> p_pid x \<noteq> q" for x
    proof
      assume "Some x \<in> set (ss[j := None])"
      then obtain i where "i < length ss" "ss[j := None] ! i = Some x" by (auto simp: in_set_conv_nth)
      then have "i < length ss" "i \<noteq> j" "ss ! i = Some x" using nth [of i] by (simp_all split: if_splits)
      then show "Some x \<in> set ss \<and> p_pid x \<noteq> q" using uniq [of i j x p] p by (auto simp: in_set_conv_nth)
    next
      assume "Some x \<in> set ss \<and> p_pid x \<noteq> q"
      then obtain i where i: "i < length ss" "ss ! i = Some x" "p_pid x \<noteq> q" by (auto simp: in_set_conv_nth)
      then have "i \<noteq> j" using p by auto
      then show "Some x \<in> set (ss[j := None])" using i by (metis in_set_conv_nth length_list_update nth_list_update_neq)
    qed
    then have "pids (ss[j := None]) \<subseteq> pids ss" by (auto simp: pids_def)
    moreover have "i = i'" if "i < length ss" "i' < length ss" "ss[j := None] ! i = Some x" "ss[j := None] ! i' = Some y"
      "p_pid x = p_pid y" for i i' x y
      using uniq [of i i' x y] that nth [of i] nth [of i'] by (simp split: if_splits)
    ultimately have "slots_inv (ss[j := None])" using inv unfolding slots_inv_def by auto
    then show ?thesis unfolding t using m by blast
  qed
  note t = this
  show i: "slots_inv (take_process q ss)" using t by blast
  have "process_mut_if r (take_process q ss) = Some p \<longleftrightarrow> (if r = q then None else process_mut_if r ss) = Some p" for p
    using t by (auto simp: process_mut_if_Some [OF i] process_mut_if_Some [OF inv])
  then show "process_mut_if r (take_process q ss) = (if r = q then None else process_mut_if r ss)"
    by (metis option.exhaust)
qed

lemma find_child_Some:
  assumes inv: "slots_inv ss" and c: "c \<noteq> - 1" "process_mut_if c ss = Some p" "p_parent_pid p = q"
  shows "find_child q c ss = Some p"
proof -
  have m: "child_matches q c (Some p)" "Some p \<in> set ss" using c process_mut_if_Some [OF inv, of c p] by (auto simp: child_matches_def)
  have only: "s = Some p" if s: "child_matches q c s" "s \<in> set ss" for s
  proof -
    obtain x where x: "s = Some x" "p_pid x = c" using s(1) c(1) by (auto simp: child_matches_def split: option.splits)
    then show ?thesis using process_mut_if_Some [OF inv, of c x] s(2) c(2) by simp
  qed
  obtain s where "find (child_matches q c) ss = Some s" using m by (cases "find (child_matches q c) ss") (auto simp: find_None_iff)
  moreover from this have "child_matches q c s" "s \<in> set ss" by (auto simp: find_Some_iff)
  ultimately show ?thesis using only by (auto simp: find_child_def)
qed

lemma find_child_None:
  assumes "slots_inv ss" "c \<noteq> - 1" "process_mut_if c ss = None"
  shows "find_child q c ss = None"
proof -
  have "\<not> child_matches q c s" if "s \<in> set ss" for s
    using that assms process_mut_if_None [of c ss] by (auto simp: child_matches_def pids_def split: option.splits)
  then have "find (child_matches q c) ss = None" by (auto simp: find_None_iff)
  then show ?thesis by (simp add: find_child_def)
qed

text \<open>No descriptor of the list is an end of a pipe.\<close>
definition no_pipes :: "int list \<Rightarrow> kernel \<Rightarrow> bool" where
  "no_pipes fds k \<longleftrightarrow> (\<forall>i \<in> set fds. 0 \<le> i \<longrightarrow> (\<forall>f. oft_get (nat i) (k_oft k) = Some f \<longrightarrow>
     vn_ops (k_vnodes k (of_vnode f)) \<notin> {PIPE_READ_OPS, PIPE_WRITE_OPS}))"

lemma oft_drop_vnode:
  assumes "oft_get j (snd (oft_drop i t)) = Some f"
  obtains f' where "oft_get j t = Some f'" "of_vnode f' = of_vnode f"
proof (cases "i < OFT_SIZE \<and> t ! i \<noteq> None \<and> i < length t \<and> j = i")
  case True
  then obtain g where "t ! i = Some g" by auto
  then show ?thesis using True assms that [of g] by (auto simp: oft_drop_def oft_get_def dropped_def Let_def split: if_splits)
next
  case False
  then have "oft_get j (snd (oft_drop i t)) = oft_get j t"
    by (cases "i < length t") (auto simp: oft_drop_def oft_get_def list_update_beyond split: option.splits)
  then show ?thesis using that [of f] assms by simp
qed

lemma cleanup_fds_quiet:
  "no_pipes fds k \<Longrightarrow> \<exists>k'. cleanup_fds fds k = Some k' \<and> k_procs k' = k_procs k \<and> k_cur k' = k_cur k \<and> k_mem k' = k_mem k \<and> k_cr3 k' = k_cr3 k"
proof (induction fds arbitrary: k)
  case (Cons i fds)
  show ?case
  proof (cases "0 \<le> i")
    case True
    let ?t = "snd (oft_drop (nat i) (k_oft k))"
    have "vn_ops (k_vnodes k v) \<notin> {PIPE_READ_OPS, PIPE_WRITE_OPS}" if v: "fst (oft_drop (nat i) (k_oft k)) = Some v" for v
    proof -
      obtain f where "oft_get (nat i) (k_oft k) = Some f" "of_vnode f = v"
        using v by (auto simp: oft_drop_def oft_get_def split: if_splits option.splits)
      then show ?thesis using Cons.prems True by (auto simp: no_pipes_def)
    qed
    then have d: "oft_decref (nat i) k = Some (k\<lparr>k_oft := ?t\<rparr>)"
      by (auto simp: oft_decref_def vn_close_def Let_def split: prod.splits option.splits)
    have "no_pipes fds (k\<lparr>k_oft := ?t\<rparr>)"
      using Cons.prems unfolding no_pipes_def by (fastforce elim: oft_drop_vnode)
    from Cons.IH [OF this] show ?thesis using True d by auto
  qed (use Cons in \<open>auto simp: no_pipes_def\<close>)
qed simp

lemma destroy_frame [simp]:
  "k_mem (destroy_uncommitted_pml4 h k) = k_mem k \<and> k_cr3 (destroy_uncommitted_pml4 h k) = k_cr3 k"
proof -
  have f: "k_mem (fold g xs k) = k_mem k \<and> k_cr3 (fold g xs k) = k_cr3 k"
    if "\<And>x k. k_mem (g x k) = k_mem k \<and> k_cr3 (g x k) = k_cr3 k" for g :: "nat \<Rightarrow> kernel \<Rightarrow> kernel" and xs k
    using that by (induction xs arbitrary: k) auto
  have 0: "k_mem (page_free a k) = k_mem k" "k_cr3 (page_free a k) = k_cr3 k" for a k by (simp_all add: page_free_def)
  have 1: "k_mem (destroy_pt b pt k) = k_mem k \<and> k_cr3 (destroy_pt b pt k) = k_cr3 k" for b pt k
    unfolding destroy_pt_def 0 by (rule f) (simp add: 0 Let_def)
  have 2: "k_mem (destroy_pd b n pd k) = k_mem k \<and> k_cr3 (destroy_pd b n pd k) = k_cr3 k" for b n pd k
    unfolding destroy_pd_def 0 by (rule f) (simp add: 0 1 Let_def)
  have 3: "k_mem (fold (\<lambda>i k. let e = entry p i k in if \<not> present e \<or> huge e then k else destroy_pd b i (frame e) k) [0..<512] k) = k_mem k \<and>
      k_cr3 (fold (\<lambda>i k. let e = entry p i k in if \<not> present e \<or> huge e then k else destroy_pd b i (frame e) k) [0..<512] k) = k_cr3 k" for p b k
    by (rule f) (simp add: 2 Let_def)
  show ?thesis unfolding destroy_uncommitted_pml4_def Let_def using 3 by (simp add: 0 Let_def)
qed

lemma reap_effect:
  assumes inv: "slots_inv (k_slots k)" and p: "process_mut c k = Some p" "no_pipes (p_fds p) k"
    and w: "w \<noteq> 0" "maps_run (k_mem k) (k_cr3 k) w 8 g"
  shows "\<exists>k'. reap c w k = Some (c, k') \<and> user_load w 8 k' = Some (le_bytes 8 (p_exit_code p)) \<and> slots_inv (k_slots k') \<and>
    k_cur k' = k_cur k \<and> (\<forall>r. process_mut r k' = (if r = c then None else process_mut r k))"
proof -
  obtain m where m: "user_store w (le_bytes 8 (p_exit_code p)) k = Some (k\<lparr>k_mem := m\<rparr>)"
    "load_virt m (k_cr3 k) w 8 = Some (le_bytes 8 (p_exit_code p))"
    using user_store_load [of k w "le_bytes 8 (p_exit_code p)" g] w(2) by auto
  define k1 where "k1 = k\<lparr>k_mem := m, k_procs := (k_procs k)\<lparr>slots := take_process c (k_slots k), proc_count := proc_count (k_procs k) - 1\<rparr>\<rparr>"
  have "no_pipes (p_fds p) k1" using p(2) by (simp add: no_pipes_def k1_def)
  then obtain k2 where k2: "cleanup_fds (p_fds p) k1 = Some k2" "k_procs k2 = k_procs k1" "k_cur k2 = k_cur k1" "k_mem k2 = k_mem k1" "k_cr3 k2 = k_cr3 k1"
    using cleanup_fds_quiet by blast
  define k3 where "k3 = destroy_uncommitted_pml4 \<lparr>h_phys = p_pml4_phys p, owns_user_leaves = True\<rparr> k2"
  define k' where "k' = fold (\<lambda>i. page_free (p_kernel_stack_base p + of_nat i * PMM_PAGE_SIZE)) [0..<3] k3"
  have e: "core k' = core k2" "k_mem k' = m" "k_cr3 k' = k_cr3 k"
    using k2 by (simp_all add: k'_def k3_def k1_def page_free_def numeral_3_eq_3)
  have "reap c w k = Some (c, k')"
    using m(1) p(1) w(1) k2(1) by (simp add: reap_def k'_def k3_def k1_def)
  moreover have s: "k_slots k' = take_process c (k_slots k)" "k_cur k' = k_cur k" using e(1) k2 by (simp_all add: core_def k1_def)
  moreover have "process_mut r k' = (if r = c then None else process_mut r k)" for r
    unfolding process_mut_def s using process_mut_if_take(2) [OF inv] by simp
  ultimately show ?thesis using m(2) e process_mut_if_take(1) [OF inv] by (simp add: user_load_def)
qed


text \<open>PID 3 runs and its parent, PID 1, waits for it; later PID 3 is a zombie and PID 1 runs.\<close>
definition wait_processes :: "process list" where
  "wait_processes = [(blank_process 1 Blocked)\<lparr>p_wait_for_pid := 3\<rparr>, blank_process 2 Ready, (blank_process 3 Running)\<lparr>p_parent_pid := 1\<rparr>]"

definition reap_processes :: "process list" where
  "reap_processes = [blank_process 1 Running, blank_process 2 Ready,
     (blank_process 3 Running)\<lparr>p_parent_pid := 1, p_state := Zombie, p_exit_code := 7\<rparr>]"


subsection \<open>Sleeping\<close>

lemma sleep_loop_reaches:
  assumes "sleep_loop ticks start dur n = Some r"
  shows "r = 0 \<and> (\<exists>m \<ge> n. dur \<le> ticks m - start)"
proof (rule sleep_loop.raw_induct [of "\<lambda>ticks start dur n r. r = 0 \<and> (\<exists>m \<ge> n. dur \<le> ticks m - start)", OF _ assms], goal_cases)
  case (1 loop ticks start dur n r)
  show ?case
  proof (cases "dur \<le> ticks n - start")
    case False
    then have "loop ticks start dur (n + 1) = Some r" using 1(2) by simp
    from 1(1) [OF this] show ?thesis by (auto intro: Suc_leD)
  qed (use 1(2) in auto)
qed

lemma sleep_loop_ends:
  "dur \<le> ticks (n + d) - start \<Longrightarrow> sleep_loop ticks start dur n = Some 0"
proof (induction d arbitrary: n)
  case (Suc d)
  then show ?case using Suc.IH [of "n + 1"] by (subst sleep_loop.simps) simp
qed (simp add: sleep_loop.simps)

lemma sys_nanosleep_alt:
  assumes "nsec < 1000000000"
  shows "sys_nanosleep ticks sec nsec k = (if \<exists>n \<ge> 1. sec * 100 + nsec div 10000000 \<le> ticks n - ticks 0 then Some (0, k) else None)"
proof (cases "\<exists>n \<ge> 1. sec * 100 + nsec div 10000000 \<le> ticks n - ticks 0")
  case True
  then obtain d where "sec * 100 + nsec div 10000000 \<le> ticks (1 + d) - ticks 0" by (metis le_Suc_ex)
  from sleep_loop_ends [of _ ticks 1 d, OF this] show ?thesis using True assms by (simp add: sys_nanosleep_def linorder_not_le)
next
  case False
  then have "sleep_loop ticks (ticks 0) (sec * 100 + nsec div 10000000) 1 = None"
    using sleep_loop_reaches by (metis not_None_eq)
  then show ?thesis using False assms by (simp add: sys_nanosleep_def linorder_not_le)
qed

text \<open>C22. \<open>nanosleep\<close> with a valid argument returns, with value 0 and nothing changed, exactly when one of the reads of the
  tick counter in its loop is the requested time after the first one; otherwise the loop never ends.  System calls run
  with interrupts masked, so the counter stands still during the call: it then returns only for a time below one tick.\<close>
theorem nanosleep_returns_iff:
  assumes "nsec < 1000000000"
  shows "(sys_nanosleep ticks sec nsec k = Some (0, k) \<longleftrightarrow> (\<exists>n \<ge> 1. sec * 100 + nsec div 10000000 \<le> ticks n - ticks 0)) \<and>
    (sys_nanosleep ticks sec nsec k = None \<longleftrightarrow> (\<forall>n. ticks (n + 1) - ticks 0 < sec * 100 + nsec div 10000000)) \<and>
    sys_nanosleep (\<lambda>_. t) sec nsec k = (if sec * 100 + nsec div 10000000 = 0 then Some (0, k) else None)"
proof (intro conjI)
  have "(\<forall>n. ticks (n + 1) - ticks 0 < dur) \<longleftrightarrow> \<not> (\<exists>n \<ge> 1. dur \<le> ticks n - ticks 0)" for dur
  proof
    assume l: "\<forall>n. ticks (n + 1) - ticks 0 < dur"
    show "\<not> (\<exists>n \<ge> 1. dur \<le> ticks n - ticks 0)"
    proof
      assume "\<exists>n \<ge> 1. dur \<le> ticks n - ticks 0"
      then obtain m where "dur \<le> ticks (1 + m) - ticks 0" by (auto dest: le_Suc_ex)
      with l [rule_format, of m] show False by (simp add: add.commute)
    qed
  qed (auto simp: linorder_not_le)
  then show "sys_nanosleep ticks sec nsec k = None \<longleftrightarrow> (\<forall>n. ticks (n + 1) - ticks 0 < sec * 100 + nsec div 10000000)"
    by (simp add: sys_nanosleep_alt [OF assms])
qed (auto simp: sys_nanosleep_alt [OF assms])

theorem nanosleep_returns_iff_witness:
  "sys_nanosleep (\<lambda>_. 7) 1 0 (kernel0 []) = None \<and> sys_nanosleep (\<lambda>n. of_nat n) 1 0 (kernel0 []) = Some (0, kernel0 [])"
proof -
  have "\<exists>n \<ge> 1. (100 :: u64) \<le> of_nat n - of_nat 0" by (rule exI [of _ 100]) simp
  then show ?thesis using nanosleep_returns_iff [of 0 "\<lambda>n. of_nat n" 1 "kernel0 []" 7] by simp
qed

end
