(* ===== verification/Elf_Props.thy ===== *)
theory Elf_Props imports Elf begin

text \<open>The validator of ELF images against a specification over the bytes a segment occupies, in
  unbounded arithmetic: which images are accepted, and so what the loader may rely on.\<close>

subsection \<open>The specification\<close>

definition seg_bytes :: "elf_phdr \<Rightarrow> nat set" where
  "seg_bytes ph = {unat (ph_vaddr ph)..<unat (ph_vaddr ph) + unat (ph_memsz ph)}"

text \<open>A loadable segment: its file part fits in its memory part, its end is representable, and unless it is empty it lies in
  user space, away from the kernel's scratch page and from the stack, with its file part inside the image.\<close>
definition seg_ok :: "u8 list \<Rightarrow> elf_phdr \<Rightarrow> bool" where
  "seg_ok data ph \<longleftrightarrow> ph_filesz ph \<le> ph_memsz ph \<and> unat (ph_vaddr ph) + unat (ph_memsz ph) < 2 ^ 64 \<and>
     (seg_bytes ph = {} \<or>
      seg_bytes ph \<subseteq> {0x2000000..<0x800000000000} \<and> seg_bytes ph \<inter> {0x40000000..<0x40001000} = {} \<and>
      seg_bytes ph \<inter> {0x21F0000..<0x2201000} = {} \<and>
      unat (ph_offset ph) + unat (ph_filesz ph) \<le> min (length data) (2 ^ 64 - 1))"

definition header_ok :: "u8 list \<Rightarrow> bool" where
  "header_ok data \<longleftrightarrow> 64 \<le> length data \<and> take 6 data = [0x7F, 0x45, 0x4C, 0x46, 2, 1] \<and>
     of_le (field data 16 2) = (2 :: u16) \<and> of_le (field data 18 2) = (0x3E :: u16)"

definition loadable :: "u8 list \<Rightarrow> elf_phdr list" where
  "loadable data = [ph \<leftarrow> map (\<lambda>i. phdr_at data (phdr_offset (ehdr_of data) i)) [0..<unat (e_phnum (ehdr_of data))]. ph_type ph = PT_LOAD]"

definition table_inside :: "u8 list \<Rightarrow> bool" where
  "table_inside data \<longleftrightarrow> (let h = ehdr_of data in 56 \<le> unat (e_phentsize h) \<and>
     unat (e_phoff h) + unat (e_phnum h) * unat (e_phentsize h) \<le> length data)"

definition runs :: "u64 \<Rightarrow> elf_phdr \<Rightarrow> bool" where
  "runs e ph \<longleftrightarrow> ph_flags ph AND PF_X \<noteq> 0 \<and> unat e \<in> seg_bytes ph"

subsection \<open>Arithmetic\<close>

lemma unat_sum: "unat a + unat b < 2 ^ 64 \<Longrightarrow> unat (a + b :: u64) = unat a + unat b"
  by (simp add: unat_add_lem [where ?'a = 64, symmetric] flip: unat_add_lem)

lemma checked_add_Some: "checked_add a b = Some c \<longleftrightarrow> unat a + unat b < 2 ^ 64 \<and> c = a + b"
proof -
  have "a \<le> a + b \<longleftrightarrow> unat a + unat b < 2 ^ 64"
    using no_olen_add_nat [of a b] by simp
  then show ?thesis by (auto simp: checked_add_def not_less [symmetric])
qed

lemma checked_add_None: "checked_add a b = None \<longleftrightarrow> \<not> unat a + unat b < 2 ^ 64"
  using checked_add_Some [of a b] by (cases "checked_add a b") auto

lemma unat_page_down: "unat (page_down a) = unat a div 4096 * 4096"
  using unat_and_not_mask [of a 12] by (simp add: page_down_def mask_12_64)

text \<open>Rounding to pages does not change a comparison with a multiple of the page size.\<close>

lemma round_compare:
  fixes m n :: nat
  assumes "m mod 4096 = 0"
  shows "n div 4096 * 4096 < m \<longleftrightarrow> n < m" "m < (n + 4095) div 4096 * 4096 \<longleftrightarrow> m < n"
proof -
  obtain q where q: "m = q * 4096" using assms by (auto elim: mod_eq_0_iff_dvd [THEN iffD1, elim_format])
  show "n div 4096 * 4096 < m \<longleftrightarrow> n < m" unfolding q by (simp add: div_less_iff_less_mult)
  have "q < (n + 4095) div 4096 \<longleftrightarrow> Suc q * 4096 \<le> n + 4095" using less_eq_div_iff_mult_less_eq [of 4096 "Suc q" "n + 4095"] by (simp add: Suc_le_eq)
  then show "m < (n + 4095) div 4096 * 4096 \<longleftrightarrow> m < n" unfolding q by auto
qed

text \<open>The same for the two checks of the validator that work on rounded addresses.\<close>
lemma rounded_range:
  assumes "unat up = n + 0xFFF" "unat lo mod 4096 = 0" "unat hi mod 4096 = 0"
  shows "page_down a < hi \<and> page_down up > lo \<longleftrightarrow> unat a < unat hi \<and> unat lo < n"
  using round_compare(1) [OF assms(3), of "unat a"] round_compare(2) [OF assms(2), of n] assms(1)
  by (simp add: word_less_nat_alt unat_page_down)

text \<open>The check of the file range, without overflow.\<close>
lemma file_check:
  "(case checked_add off sz of None \<Rightarrow> Inl Truncated
    | Some file_end \<Rightarrow> if unat file_end > len then Inl Truncated else Inr x) =
   (if unat off + unat sz \<le> min len (2 ^ 64 - 1) then Inr x else Inl Truncated)"
proof (cases "unat off + unat sz < 2 ^ 64")
  case True
  then have "checked_add off sz = Some (off + sz)" by (simp add: checked_add_Some)
  then show ?thesis using True unat_sum [OF True] by auto
next
  case False
  then have "checked_add off sz = None" by (simp add: checked_add_None)
  then show ?thesis using False by auto
qed

lemma seg_bytes_facts:
  "seg_bytes ph = {} \<longleftrightarrow> ph_memsz ph = 0"
  "ph_memsz ph \<noteq> 0 \<Longrightarrow> seg_bytes ph \<subseteq> {lo..<hi} \<longleftrightarrow> lo \<le> unat (ph_vaddr ph) \<and> unat (ph_vaddr ph) + unat (ph_memsz ph) \<le> hi"
  "ph_memsz ph \<noteq> 0 \<Longrightarrow> lo < hi \<Longrightarrow> seg_bytes ph \<inter> {lo..<hi} = {} \<longleftrightarrow>
     \<not> (unat (ph_vaddr ph) < hi \<and> lo < unat (ph_vaddr ph) + unat (ph_memsz ph))"
  by (auto simp: seg_bytes_def unat_eq_zero)

subsection \<open>One program header\<close>

lemma validate_phdr_iff:
  assumes "ph_type ph = PT_LOAD"
  shows "validate_phdr data e ph = Inr b \<longleftrightarrow> seg_ok data ph \<and> b = runs e ph"
proof (cases "unat (ph_vaddr ph) + unat (ph_memsz ph) < 2 ^ 64")
  case False
  then have "checked_add (ph_vaddr ph) (ph_memsz ph) = None" by (simp add: checked_add_None)
  then show ?thesis using assms False by (auto simp: validate_phdr_def seg_ok_def)
next
  case end_ok: True
  let ?v = "unat (ph_vaddr ph)" and ?n = "unat (ph_memsz ph)" and ?e = "ph_vaddr ph + ph_memsz ph"
  have e: "checked_add (ph_vaddr ph) (ph_memsz ph) = Some ?e" "unat ?e = ?v + ?n"
    using end_ok unat_sum [of "ph_vaddr ph" "ph_memsz ph"] by (auto simp: checked_add_Some)
  show ?thesis
  proof (cases "ph_filesz ph \<le> ph_memsz ph \<and> ph_memsz ph \<noteq> 0 \<and> 0x2000000 \<le> ?v \<and> ?v + ?n \<le> 0x800000000000")
    case False
    show ?thesis using False assms e end_ok seg_bytes_facts(1,2) [of ph]
      by (auto simp: validate_phdr_def seg_ok_def runs_def USER_CODE_ADDR_def USER_ADDR_LIMIT_def word_less_nat_alt word_le_nat_alt not_le)
  next
    case True
    then have u: "?v + ?n + 0xFFF < 2 ^ 64" and n: "0 < ?n" by (simp_all add: word_neq_0_conv word_less_nat_alt)
    then have up: "checked_add ?e 0xFFF = Some (?e + 0xFFF)" "unat (?e + 0xFFF) = ?v + ?n + 0xFFF"
      using e(2) unat_sum [of ?e "0xFFF"] by (auto simp: checked_add_Some)
    have pages: "\<not> page_down (ph_vaddr ph) < USER_CODE_ADDR" "\<not> page_down (?e + 0xFFF) > USER_ADDR_LIMIT"
      using True round_compare(1) [of "0x2000000" ?v] round_compare(2) [of "0x800000000000" "?v + ?n"]
      by (simp_all add: word_less_nat_alt unat_page_down up USER_CODE_ADDR_def USER_ADDR_LIMIT_def)
    have B: "overlaps_kernel_scratch (page_down (ph_vaddr ph)) (page_down (?e + 0xFFF)) \<longleftrightarrow> ?v < 0x40001000 \<and> 0x40000000 < ?v + ?n"
      using rounded_range [OF up(2), of "0x40000000" "0x40001000"] by (simp add: overlaps_kernel_scratch_def KERNEL_SCRATCH_VA_def)
    have C: "page_down (ph_vaddr ph) < ELF_STACK_TOP_PAGE + 0x1000 \<and> page_down (?e + 0xFFF) > ELF_STACK_LOW \<longleftrightarrow>
        ?v < 0x2201000 \<and> 0x21F0000 < ?v + ?n"
      using rounded_range [OF up(2), of "0x21F0000" "0x2201000"] by (simp add: ELF_STACK_TOP_PAGE_def ELF_STACK_LOW_def ELF_STACK_PAGES_def)
    have V: "validate_phdr data e ph =
       (if overlaps_kernel_scratch (page_down (ph_vaddr ph)) (page_down (?e + 0xFFF)) then Inl InvalidAddress
        else if page_down (ph_vaddr ph) < ELF_STACK_TOP_PAGE + 0x1000 \<and> page_down (?e + 0xFFF) > ELF_STACK_LOW then Inl FixedStackOverlap
        else case checked_add (ph_offset ph) (ph_filesz ph) of None \<Rightarrow> Inl Truncated
          | Some file_end \<Rightarrow> if unat file_end > length data then Inl Truncated
              else Inr (ph_flags ph AND PF_X \<noteq> 0 \<and> ph_vaddr ph \<le> e \<and> e < ?e))"
      using assms True e up(1) pages
      by (simp add: validate_phdr_def word_less_nat_alt word_le_nat_alt USER_CODE_ADDR_def USER_ADDR_LIMIT_def)
    have E: "unat e \<in> seg_bytes ph \<longleftrightarrow> ph_vaddr ph \<le> e \<and> e < ?e" by (simp add: seg_bytes_def word_less_nat_alt word_le_nat_alt e(2))
    let ?F = "unat (ph_offset ph) + unat (ph_filesz ph) \<le> min (length data) (2 ^ 64 - 1)"
    have "seg_ok data ph \<longleftrightarrow> \<not> (?v < 0x40001000 \<and> 0x40000000 < ?v + ?n) \<and> \<not> (?v < 0x2201000 \<and> 0x21F0000 < ?v + ?n) \<and> ?F"
      unfolding seg_ok_def using True end_ok seg_bytes_facts [of ph] by simp
    then show ?thesis unfolding runs_def V file_check B C E by auto
  qed
qed

subsection \<open>The image\<close>

lemma validate_phdrs_iff:
  "validate_phdrs data h is ok = Inr b \<longleftrightarrow>
     (let phs = [ph \<leftarrow> map (\<lambda>i. phdr_at data (phdr_offset h i)) is. ph_type ph = PT_LOAD]
      in list_all (seg_ok data) phs \<and> b = (ok \<or> list_ex (runs (e_entry h)) phs))"
proof (induction "is" arbitrary: ok)
  case (Cons i "is")
  let ?ph = "phdr_at data (phdr_offset h i)"
  show ?case
  proof (cases "ph_type ?ph = PT_LOAD")
    case True
    note v = validate_phdr_iff [OF True, of data "e_entry h"]
    show ?thesis
    proof (cases "validate_phdr data (e_entry h) ?ph")
      case (Inl e)
      then show ?thesis using v True by (auto simp: Let_def)
    next
      case (Inr x)
      then show ?thesis using v [of x] True Cons.IH [of "ok \<or> x"] by (auto simp: Let_def)
    qed
  next
    case False
    then have "validate_phdr data (e_entry h) ?ph = Inr False" by (simp add: validate_phdr_def)
    then show ?thesis using False Cons.IH [of ok] by (simp add: Let_def)
  qed
qed auto

lemma validate_ehdr_None: "validate_ehdr data = None \<longleftrightarrow> header_ok data \<and> table_inside data"
proof (cases "64 \<le> length data")
  case True
  have "take 6 data = take 4 data @ [data ! 4, data ! 5]"
    using True take_Suc_conv_app_nth [of 4 data] take_Suc_conv_app_nth [of 5 data] by (simp add: numeral_eq_Suc)
  moreover have "take 6 data = [0x7F, 0x45, 0x4C, 0x46] @ [2, 1] \<longleftrightarrow> take 4 data = [0x7F, 0x45, 0x4C, 0x46] \<and> data ! 4 = 2 \<and> data ! 5 = 1"
    unfolding calculation using True by (subst append_eq_append_conv) auto
  ultimately show ?thesis using True
    by (auto simp: validate_ehdr_def header_ok_def table_inside_def Let_def EHDR_SIZE_def PHDR_SIZE_def ELF_MAGIC_def
        ELFCLASS64_def ELFDATA2LSB_def EM_X86_64_def ET_EXEC_def ehdr_of_def not_less)
qed (simp add: validate_ehdr_def header_ok_def EHDR_SIZE_def)

text \<open>C4. The validator accepts exactly the images the specification describes: a little-endian 64-bit x86-64 executable whose
  program header table lies inside the image, all of whose loadable segments are well placed, and whose entry point is a byte of an
  executable loadable segment.  The specification counts bytes in unbounded arithmetic, so no wrap-around of an
  address, a size or a file offset gets past the validator, and its rounding to pages neither rejects nor accepts more.\<close>
theorem validate_elf_exact:
  "validate_elf data = None \<longleftrightarrow> header_ok data \<and> table_inside data \<and> list_all (seg_ok data) (loadable data) \<and>
     list_ex (runs (e_entry (ehdr_of data))) (loadable data)"
proof (cases "validate_ehdr data")
  case None
  let ?r = "validate_phdrs data (ehdr_of data) [0..<unat (e_phnum (ehdr_of data))] False"
  have "?r = Inr b \<longleftrightarrow> list_all (seg_ok data) (loadable data) \<and> b = list_ex (runs (e_entry (ehdr_of data))) (loadable data)" for b
    unfolding validate_phdrs_iff by (simp add: loadable_def Let_def)
  moreover have "validate_elf data = None \<longleftrightarrow> ?r = Inr True"
    using None by (auto simp: validate_elf_def Let_def split: sum.splits if_splits)
  ultimately show ?thesis using None validate_ehdr_None by auto
qed (use validate_ehdr_None [of data] in \<open>auto simp: validate_elf_def\<close>)

text \<open>The smallest image of one executable segment is accepted.\<close>
definition one_segment :: "u64 \<Rightarrow> u64 \<Rightarrow> u8 list" where
  "one_segment ent vaddr = [0x7F, 0x45, 0x4C, 0x46, 2, 1, 1, 0] @ replicate 8 0 @ [2, 0, 0x3E, 0, 1, 0, 0, 0] @
     le_bytes 8 ent @ le_bytes 8 (64 :: u64) @ replicate 12 0 @ [64, 0, 56, 0, 1, 0] @ replicate 6 0 @
     [1, 0, 0, 0, 5, 0, 0, 0] @ le_bytes 8 (0 :: u64) @ le_bytes 8 vaddr @ le_bytes 8 vaddr @ le_bytes 8 (120 :: u64) @
     le_bytes 8 (0x1000 :: u64) @ le_bytes 8 (0x1000 :: u64)"

lemma one_segment_validated:
  "validate_elf (one_segment 0x2000000 0x2000000) = None"
  by code_simp

end
