(* ===== verification/Paging_Props.thy ===== *)
theory Paging_Props imports Paging begin

text \<open>Page tables as trees: entries of distinct tables are independent, the descent of the mapping operations builds the
  missing part of a path out of free pages, and a page that was mapped translates to its frame.\<close>

subsection \<open>Entries of tables\<close>

lemma ADDR_MASK_alt: "ADDR_MASK = mask 52 AND NOT (mask 12)"
  by code_simp

lemma frame_table:
  assumes "frame t = t"
  shows "4096 dvd unat t" "unat t < 2 ^ 52"
proof -
  have "frame t = (t AND mask 52) AND NOT (mask 12)" by (simp add: frame_def ADDR_MASK_alt ac_simps)
  then have u: "unat t = unat (t AND mask 52) div 2 ^ 12 * 2 ^ 12" using assms unat_and_not_mask [of "t AND mask 52" 12] by simp
  then show "4096 dvd unat t" by simp
  have "unat (t AND mask 52) < 2 ^ 52"
    using take_bit_nat_less_exp [of 52 "unat t"] by (simp flip: take_bit_eq_mask add: unsigned_take_bit_eq)
  moreover have "x div 2 ^ 12 * 2 ^ 12 \<le> x" for x :: nat by simp
  ultimately show "unat t < 2 ^ 52" using u by (metis le_less_trans)
qed

lemma unat_slot:
  assumes "frame t = t" "i < 512"
  shows "unat (slot_addr t i) = unat t + 8 * i"
proof -
  have "unat t + unat (8 * of_nat i :: u64) < 2 ^ 64" "unat (8 * of_nat i :: u64) = 8 * i"
    using frame_table(2) [OF assms(1)] assms(2) by (simp_all add: unat_word_ariths)
  then show ?thesis by (simp add: slot_addr_def unat_add64)
qed

lemma slot_aligned: "frame t = t \<Longrightarrow> i < 512 \<Longrightarrow> aligned8 (slot_addr t i)"
  using dvd_trans [OF _ frame_table(1) [of t], of 8] by (simp add: aligned8_def unat_slot)

lemma slot_inject:
  assumes "frame t = t" "frame u = u" "i < 512" "j < 512"
  shows "slot_addr t i = slot_addr u j \<longleftrightarrow> t = u \<and> i = j"
proof
  assume "slot_addr t i = slot_addr u j"
  then have "unat t + 8 * i = unat u + 8 * j" using assms by (metis unat_slot)
  moreover obtain a b where "unat t = 4096 * a" "unat u = 4096 * b"
    using frame_table(1) assms(1,2) unfolding dvd_def by blast
  moreover have "(4096 * c + 8 * n) div 4096 = c" if "n < 512" for c n :: nat using that by simp
  ultimately have "unat t = unat u" "i = j" using assms(3,4) by (metis, metis add_left_cancel mult_cancel1 numeral_eq_Suc nat.distinct(1))
  then show "t = u \<and> i = j" by (simp add: word_unat_eq_iff)
qed simp

lemma entry_put:
  assumes "frame t = t" "frame u = u" "i < 512" "j < 512"
  shows "entry u j (put_entry t i v k) = (if u = t \<and> j = i then v else entry u j k)"
  using assms slot_aligned slot_inject [OF assms]
  by (auto simp: entry_def put_entry_def get_entry_def set_entry_def)

lemma entry_zero:
  assumes "frame t = t" "frame u = u" "j < 512"
  shows "entry u j (zero_table t k) = (if u = t then 0 else entry u j k)"
proof -
  have "fill_page t 0 (k_mem k) (slot_addr u j + of_nat n) = (if u = t then 0 else k_mem k (slot_addr u j + of_nat n))" if "n < 8" for n
  proof -
    define a where "a = slot_addr u j + of_nat n"
    have a: "unat a = unat u + (8 * j + n)"
      using unat_aligned_add [OF slot_aligned [OF assms(2,3)] that] unat_slot [OF assms(2,3)] by (simp add: a_def)
    have d: "8 * j + n < 4096" using assms(3) that by simp
    obtain p q where pq: "unat t = 4096 * p" "unat u = 4096 * q" using frame_table(1) assms(1,2) unfolding dvd_def by blast
    have b: "unat t < 2 ^ 52" by (rule frame_table(2) [OF assms(1)])
    have "a - t < 0x1000 \<longleftrightarrow> u = t"
    proof (cases "t \<le> a")
      case True
      then have "unat (a - t) = unat a - unat t" "unat t \<le> unat a" by (simp_all add: unat_sub word_le_nat_alt)
      then have "a - t < 0x1000 \<longleftrightarrow> 4096 * q + (8 * j + n) < 4096 * p + 4096" "4096 * p \<le> 4096 * q + (8 * j + n)"
        using a pq by (simp_all add: word_less_nat_alt) linarith
      then have "a - t < 0x1000 \<longleftrightarrow> q = p" using d by auto
      then show ?thesis using pq by (auto simp: word_unat_eq_iff)
    next
      case False
      then have "unat (a - t) = 2 ^ 64 + unat a - unat t" "u \<noteq> t" using a by (auto simp: unat_sub_if' word_le_nat_alt)
      then show ?thesis using b by (simp add: word_less_nat_alt)
    qed
    then show ?thesis by (simp add: fill_page_def a_def)
  qed
  then have "read_bytes (fill_page t 0 (k_mem k)) (slot_addr u j) 8 = (if u = t then replicate 8 0 else read_bytes (k_mem k) (slot_addr u j) 8)"
    by (intro nth_equalityI) (auto simp: read_bytes_nth)
  moreover have "of_le (replicate 8 0) = (0 :: u64)" by code_simp
  ultimately show ?thesis by (simp add: entry_def get_entry_def zero_table_def load64_def)
qed

subsection \<open>Paths\<close>

text \<open>The tables that exist on the path with the given indices.\<close>
fun table_walk :: "u64 \<Rightarrow> nat list \<Rightarrow> kernel \<Rightarrow> u64 list" where
  "table_walk t [] k = [t]"
| "table_walk t (i # is) k = t # (if present (entry t i k) then table_walk (frame (entry t i k)) is k else [])"

text \<open>No table of the path is shared or free.\<close>
definition path_ok :: "u64 \<Rightarrow> nat list \<Rightarrow> kernel \<Rightarrow> bool" where
  "path_ok t is k \<longleftrightarrow> distinct (table_walk t is k) \<and> set (table_walk t is k) \<inter> free_addrs (k_pmm k) = {}"

text \<open>The last link of the path is not a huge page.\<close>
fun small_link :: "u64 \<Rightarrow> nat list \<Rightarrow> kernel \<Rightarrow> bool" where
  "small_link t [] k = True"
| "small_link t [i] k = (present (entry t i k) \<longrightarrow> \<not> huge (entry t i k))"
| "small_link t (i # is) k = (present (entry t i k) \<longrightarrow> small_link (frame (entry t i k)) is k)"

text \<open>The table that the indices lead to, when the page table is \<open>n\<close> levels below; a huge page has no table.\<close>
fun reach :: "nat \<Rightarrow> u64 \<Rightarrow> nat list \<Rightarrow> kernel \<Rightarrow> u64 option" where
  "reach n t [] k = Some t"
| "reach n t (i # is) k = (if present (entry t i k) \<and> (n = 1 \<longrightarrow> \<not> huge (entry t i k)) then reach (n - 1) (frame (entry t i k)) is k else None)"

text \<open>The free pages can serve as tables.\<close>
definition pages_ok :: "kernel \<Rightarrow> bool" where
  "pages_ok k \<longleftrightarrow> pmm_inv (k_pmm k) \<and> (\<forall>a \<in> free_addrs (k_pmm k). frame a = a)"

text \<open>The tables a descent visits.\<close>
fun descend :: "u64 \<Rightarrow> nat list \<Rightarrow> kernel \<Rightarrow> u64 list option \<times> kernel" where
  "descend t [] k = (Some [t], k)"
| "descend t (i # is) k = (case try_get_or_create_table t i k of
     (None, k) \<Rightarrow> (None, k)
   | (Some c, k) \<Rightarrow> (case descend c is k of (None, k) \<Rightarrow> (None, k) | (Some p, k) \<Rightarrow> (Some (t # p), k)))"

lemma frame_frame [simp]: "frame (frame e) = frame e"
  by (simp add: frame_def and.assoc)

lemma table_walk_frames: "frame t = t \<Longrightarrow> u \<in> set (table_walk t is k) \<Longrightarrow> frame u = u"
  by (induction t "is" k rule: table_walk.induct) (auto split: if_splits)

lemma table_walk_cong:
  "frame t = t \<Longrightarrow> (\<And>u i. u \<in> set (table_walk t is k) \<Longrightarrow> i \<in> set is \<Longrightarrow> entry u i k' = entry u i k) \<Longrightarrow> table_walk t is k' = table_walk t is k"
  by (induction t "is" k rule: table_walk.induct) (auto split: if_splits)

lemma link_bits:
  assumes "frame c = c"
  shows "present (c OR PAGE_KERNEL OR PAGE_USER)" "\<not> huge (c OR PAGE_KERNEL OR PAGE_USER)" "frame (c OR PAGE_KERNEL OR PAGE_USER) = c"
proof -
  have c: "c AND 0xFFF = 0"
  proof -
    have "c AND 0xFFF = (c AND ADDR_MASK) AND 0xFFF" using assms by (simp add: frame_def)
    also have "\<dots> = c AND (ADDR_MASK AND 0xFFF)" by (simp add: and.assoc)
    finally show ?thesis by (simp add: ADDR_MASK_def)
  qed
  have f: "PAGE_KERNEL OR PAGE_USER = (7 :: u64)" by (simp add: PAGE_KERNEL_def PAGE_PRESENT_def PAGE_WRITABLE_def PAGE_USER_def)
  show "present (c OR PAGE_KERNEL OR PAGE_USER)" 
    unfolding f present_def PAGE_PRESENT_def by (simp add: bit.conj_disj_distrib2)
  have "c AND 0x80 = (c AND 0xFFF) AND 0x80" by (simp add: and.assoc)
  then show "\<not> huge (c OR PAGE_KERNEL OR PAGE_USER)" unfolding f huge_def PAGE_HUGE_def by (simp add: bit.conj_disj_distrib2 c)
  show "frame (c OR PAGE_KERNEL OR PAGE_USER) = c"
    using assms unfolding f frame_def by (simp add: bit.conj_disj_distrib2) (simp add: ADDR_MASK_def)
qed

lemma page_alloc_cases:
  assumes "pages_ok k"
  obtains "free_addrs (k_pmm k) = {}" "page_alloc k = (0, k)"
  | a where "a \<in> free_addrs (k_pmm k)" "fst (page_alloc k) = a" "a \<noteq> 0" "frame a = a" "pages_ok (snd (page_alloc k))"
      "free_addrs (k_pmm (snd (page_alloc k))) = free_addrs (k_pmm k) - {a}" "k_mem (snd (page_alloc k)) = k_mem k"
      "k_cr3 (snd (page_alloc k)) = k_cr3 k"
proof -
  have inv: "pmm_inv (k_pmm k)" using assms by (simp add: pages_ok_def)
  show ?thesis
  proof (cases "lowest_free (k_pmm k)")
    case None
    then have "free_addrs (k_pmm k) = {}"
      using inv by (auto simp: lowest_free_None free_addrs_def used_pages_def pmm_inv_def)
    then show ?thesis using None that(1) by (simp add: page_alloc_def alloc_alt)
  next
    case (Some i)
    then have i: "i < total_pages (k_pmm k)" "\<not> page_used (pmm_bitmap (k_pmm k)) i" by (simp_all add: lowest_free_Some)
    let ?p = "(k_pmm k)\<lparr>pmm_bitmap := set_page i (pmm_bitmap (k_pmm k))\<rparr>" and ?a = "page_addr (k_pmm k) i"
    have al: "page_alloc k = (?a, k\<lparr>k_pmm := ?p\<rparr>)" using Some by (simp add: page_alloc_def alloc_alt)
    have f: "?a \<in> free_addrs (k_pmm k)" using i by (auto simp: free_addrs_def used_pages_def)
    have "pmm_inv ?p" using alloc_inv [OF inv] Some by (simp add: alloc_alt)
    moreover have fa: "free_addrs ?p = free_addrs (k_pmm k) - {?a}" by (rule free_addrs_insert [OF inv i(1)])
    moreover have "?a \<noteq> 0" using page_addr_nonzero [OF inv lowest_free_bound [OF inv Some]] .
    ultimately show ?thesis using that(2) [of ?a] f assms al by (simp add: pages_ok_def)
  qed
qed

abbreviation (input) "spare k \<equiv> free_addrs (k_pmm k)"

lemma create_table:
  assumes k: "pages_ok k" "spare k \<noteq> {}" and t: "frame t = t" "t \<notin> spare k" "i < 512" "\<not> present (entry t i k)"
  obtains c k1 where "try_get_or_create_table t i k = (Some c, k1)" "frame c = c" "c \<in> spare k" "pages_ok k1" "spare k1 = spare k - {c}"
    "k_cr3 k1 = k_cr3 k" "entry t i k1 = c OR PAGE_KERNEL OR PAGE_USER" "\<forall>j < 512. entry c j k1 = 0"
    "\<And>u j. frame u = u \<Longrightarrow> j < 512 \<Longrightarrow> u \<notin> spare k \<Longrightarrow> u \<noteq> t \<or> j \<noteq> i \<Longrightarrow> entry u j k1 = entry u j k"
  using k(1)
proof (cases rule: page_alloc_cases)
  case 1
  then show ?thesis using k(2) by simp
next
  case (2 c)
  define k0 where "k0 = snd (page_alloc k)"
  define k1 where "k1 = put_entry t i (c OR PAGE_KERNEL OR PAGE_USER) (zero_table c k0)"
  have pa: "page_alloc k = (c, k0)" using 2 by (simp add: k0_def prod_eq_iff)
  have ne: "c \<noteq> t" using 2 t(2) by blast
  have same: "entry u j k0 = entry u j k" for u j using 2 by (simp add: entry_def k0_def)
  have e: "entry u j k1 = (if u = t \<and> j = i then c OR PAGE_KERNEL OR PAGE_USER else if u = c then 0 else entry u j k)" if "frame u = u" "j < 512" for u j
    unfolding k1_def entry_put [OF t(1) that(1) t(3) that(2)] entry_zero [OF \<open>frame c = c\<close> that] same by simp
  have s: "k_pmm k1 = k_pmm k0" "k_cr3 k1 = k_cr3 k0" by (simp_all add: k1_def put_entry_def zero_table_def)
  show ?thesis
  proof (rule that [of c k1])
    show "try_get_or_create_table t i k = (Some c, k1)" using t(4) pa 2 by (simp add: try_get_or_create_table_def k1_def)
    show "pages_ok k1" "spare k1 = spare k - {c}" "k_cr3 k1 = k_cr3 k" using 2 s by (simp_all add: pages_ok_def k0_def)
    show "entry t i k1 = c OR PAGE_KERNEL OR PAGE_USER" using e t by simp
    show "\<forall>j < 512. entry c j k1 = 0" using e 2 ne by simp
    show "entry u j k1 = entry u j k" if "frame u = u" "j < 512" "u \<notin> spare k" "u \<noteq> t \<or> j \<noteq> i" for u j
      using e [OF that(1,2)] that 2 by auto
  qed (use 2 in simp_all)
qed

text \<open>The descent succeeds when there are pages for the missing tables, completes the path, and touches no other table.\<close>

text \<open>The table at depth \<open>n\<close> was there before, or is a page that was free and is empty but for the path.\<close>
definition old_or_new :: "u64 \<Rightarrow> nat list \<Rightarrow> kernel \<Rightarrow> kernel \<Rightarrow> nat \<Rightarrow> bool" where
  "old_or_new t is k k' n \<longleftrightarrow> (let u = table_walk t is k' ! n in reach (length is) t (take n is) k = Some u \<or>
     reach (length is) t (take n is) k = None \<and> u \<in> spare k \<and>
     (\<forall>j < 512. (u, j) \<notin> set (zip (table_walk t is k') is) \<longrightarrow> entry u j k' = 0))"

definition completes :: "u64 \<Rightarrow> nat list \<Rightarrow> kernel \<Rightarrow> kernel \<Rightarrow> bool" where
  "completes t is k k' \<longleftrightarrow> pages_ok k' \<and> path_ok t is k' \<and> length (table_walk t is k') = Suc (length is) \<and>
     small_link t is k' \<and> k_cr3 k' = k_cr3 k \<and> spare k' \<subseteq> spare k \<and> set (table_walk t is k') \<subseteq> set (table_walk t is k) \<union> spare k \<and>
     (\<forall>u j. frame u = u \<longrightarrow> j < 512 \<longrightarrow> u \<notin> spare k \<longrightarrow> (u, j) \<notin> set (zip (table_walk t is k') is) \<longrightarrow> entry u j k' = entry u j k) \<and>
     (\<forall>n \<le> length is. old_or_new t is k k' n)"

lemma completes_link:
  assumes c: "completes c is k1 k'" and t: "frame t = t" "t \<notin> spare k" "i < 512" "t \<notin> set (table_walk c is k1)"
    and e: "present (entry t i k1)" "frame (entry t i k1) = c" "is = [] \<longrightarrow> \<not> huge (entry t i k1)"
    and k1: "k_cr3 k1 = k_cr3 k" "spare k1 \<subseteq> spare k" "set (table_walk c is k1) \<union> {t} \<subseteq> set (table_walk t (i # is) k) \<union> spare k"
      "\<And>u j. frame u = u \<Longrightarrow> j < 512 \<Longrightarrow> u \<notin> spare k \<Longrightarrow> u \<noteq> t \<or> j \<noteq> i \<Longrightarrow> entry u j k1 = entry u j k"
    and new: "k1 = k \<or> \<not> present (entry t i k) \<and> frame c = c \<and> c \<in> spare k \<and> c \<notin> spare k1 \<and> (\<forall>j < 512. entry c j k1 = 0)" "\<forall>j \<in> set is. j < 512"
  shows "completes t (i # is) k k' \<and> table_walk t (i # is) k' = t # table_walk c is k'"
proof -
  have sub: "set (table_walk c is k') \<subseteq> set (table_walk c is k1) \<union> spare k1" using c by (simp add: completes_def)
  then have tc: "t \<notin> set (table_walk c is k')" using t k1(2) by auto
  have fr: "entry u j k' = entry u j k1" if "frame u = u" "j < 512" "u \<notin> spare k1" "(u, j) \<notin> set (zip (table_walk c is k') is)" for u j
    using c that unfolding completes_def by blast
  have et: "entry t i k' = entry t i k1" using t k1(2) tc by (intro fr) (auto dest: set_zip_leftD)
  then have w: "table_walk t (i # is) k' = t # table_walk c is k'" using e by simp
  have "path_ok t (i # is) k'" using c t k1(2) tc unfolding path_ok_def w by (auto simp: completes_def path_ok_def)
  moreover have "small_link t (i # is) k'" using c e et by (cases "is") (simp_all add: completes_def)
  moreover have "entry u j k' = entry u j k" if u: "frame u = u" "j < 512" "u \<notin> spare k" "(u, j) \<notin> set (zip (table_walk t (i # is) k') (i # is))" for u j
  proof -
    have "(u, j) \<notin> set (zip (table_walk c is k') is)" "u \<noteq> t \<or> j \<noteq> i" "u \<notin> spare k1" using u k1(2) unfolding w by auto
    then show ?thesis using fr [of u j] u k1(4) [of u j] by simp
  qed
  moreover have "old_or_new t (i # is) k k' n" if "n \<le> Suc (length is)" for n
  proof (cases n)
    case (Suc m)
    let ?u = "table_walk c is k' ! m" and ?Z = "\<lambda>u. \<forall>j < 512. (u, j) \<notin> set (zip (table_walk c is k') is) \<longrightarrow> entry u j k' = 0"
    have "old_or_new c is k1 k' m" using c that Suc by (simp add: completes_def)
    then have "reach (length is) c (take m is) k1 = Some ?u \<or> reach (length is) c (take m is) k1 = None \<and> ?u \<in> spare k1 \<and> ?Z ?u"
      unfolding old_or_new_def Let_def .
    then have "reach (Suc (length is)) t (take n (i # is)) k = Some ?u \<or> reach (Suc (length is)) t (take n (i # is)) k = None \<and> ?u \<in> spare k \<and> ?Z ?u"
      using new(1)
    proof (elim disjE, goal_cases)
      case 1
      then show ?case using e Suc by (cases "is") simp_all
    next
      case 3
      then show ?case using e Suc k1(2) by (cases "is") auto
    next
      case 2
      have "\<forall>j \<in> set (take m is). entry c j k1 = 0" using 2 new(2) by (auto dest: in_set_takeD)
      then have "?u = c" using 2 by (cases "take m is") (simp_all add: present_def)
      moreover have "?Z c" using 2 fr [of c] by auto
      ultimately show ?case using 2 Suc by simp
    next
      case 4
      then show ?case using Suc k1(2) by auto
    qed
    then show ?thesis unfolding old_or_new_def w using Suc tc by (auto simp: Let_def)
  qed (simp add: old_or_new_def)
  ultimately show ?thesis using c sub k1 unfolding completes_def w by auto
qed

lemma descend_completes:
  assumes "pages_ok k" "frame t = t" "path_ok t is k" "small_link t is k" "\<forall>i \<in> set is. i < 512" "length is \<le> card (spare k)"
  shows "\<exists>k'. descend t is k = (Some (table_walk t is k'), k') \<and> completes t is k k'"
  using assms
proof (induction "is" arbitrary: t k)
  case Nil
  then show ?case by (simp add: completes_def old_or_new_def)
next
  case (Cons i "is")
  have t: "t \<notin> spare k" "i < 512" using Cons.prems by (auto simp: path_ok_def)
  show ?case
  proof (cases "present (entry t i k)")
    case True
    let ?c = "frame (entry t i k)"
    have w: "table_walk t (i # is) k = t # table_walk ?c is k" using True by simp
    have p: "path_ok ?c is k" "t \<notin> set (table_walk ?c is k)" using Cons.prems(3) unfolding path_ok_def w by auto
    have "small_link ?c is k" using Cons.prems(4) True by (cases "is") simp_all
    then obtain k' where d: "descend ?c is k = (Some (table_walk ?c is k'), k')" "completes ?c is k k'"
      using Cons.IH [of k ?c] Cons.prems p by auto
    have "completes t (i # is) k k' \<and> table_walk t (i # is) k' = t # table_walk ?c is k'"
      by (rule completes_link [OF d(2) Cons.prems(2) t p(2) True]) (use Cons.prems(4,5) True w in auto)
    then show ?thesis using d(1) True by (intro exI [of _ k']) (simp add: try_get_or_create_table_def)
  next
    case False
    have "spare k \<noteq> {}" using Cons.prems(6) by auto
    from create_table [OF Cons.prems(1) this Cons.prems(2) t False]
    obtain c k1 where c: "try_get_or_create_table t i k = (Some c, k1)" "frame c = c" "c \<in> spare k" "pages_ok k1" "spare k1 = spare k - {c}"
      "k_cr3 k1 = k_cr3 k" "entry t i k1 = c OR PAGE_KERNEL OR PAGE_USER" "\<forall>j < 512. entry c j k1 = 0"
      and fr: "\<And>u j. frame u = u \<Longrightarrow> j < 512 \<Longrightarrow> u \<notin> spare k \<Longrightarrow> u \<noteq> t \<or> j \<noteq> i \<Longrightarrow> entry u j k1 = entry u j k" by blast
    have z: "\<not> present (0 :: u64)" by (simp add: present_def)
    have w: "table_walk c is k1 = [c]" using c(8) Cons.prems(5) z by (cases "is") auto
    have "small_link c is k1" using c(8) Cons.prems(5) z by (cases "(c, is, k1)" rule: small_link.cases) auto
    moreover have "path_ok c is k1" using c(5) by (simp add: path_ok_def w)
    moreover have "length is \<le> card (spare k1)"
      using Cons.prems(6) c(3,5) by (cases "finite (spare k)") simp_all
    ultimately obtain k' where d: "descend c is k1 = (Some (table_walk c is k'), k')" "completes c is k1 k'"
      using Cons.IH [of k1 c] Cons.prems(5) c(2,4) by auto
    have "completes t (i # is) k k' \<and> table_walk t (i # is) k' = t # table_walk c is k'"
      by (rule completes_link [OF d(2) Cons.prems(2) t]) (use w c fr t link_bits [OF c(2)] False Cons.prems(5) in auto)
    then show ?thesis using d(1) c(1) by (intro exI [of _ k']) simp
  qed
qed

subsection \<open>Mapping a page\<close>

definition upper :: "u64 \<Rightarrow> nat list" where
  "upper va = (case indices va of (l4i, l3i, l2i, _) \<Rightarrow> [l4i, l3i, l2i])"

definition leaf :: "u64 \<Rightarrow> nat" where
  "leaf va = (case indices va of (_, _, _, l1i) \<Rightarrow> l1i)"

lemma indices_bound: "\<forall>i \<in> set (upper va). i < 512" "leaf va < 512"
proof -
  have "unat (x AND 0x1FF) < 512" for x :: u64
  proof -
    have "x AND 0x1FF \<le> 0x1FF" by (rule word_and_le1)
    then show ?thesis by (simp add: word_le_nat_alt)
  qed
  then show "\<forall>i \<in> set (upper va). i < 512" "leaf va < 512" by (simp_all add: upper_def leaf_def indices_def)
qed

lemma user_bits [simp]:
  "present (e OR PAGE_USER) = present e" "huge (e OR PAGE_USER) = huge e" "frame (e OR PAGE_USER) = frame e"
  by (simp_all add: present_def huge_def frame_def PAGE_PRESENT_def PAGE_USER_def PAGE_HUGE_def ADDR_MASK_def bit.conj_disj_distrib2)

text \<open>A complete path, link by link.\<close>
definition linked :: "u64 \<times> nat \<Rightarrow> u64 \<times> nat \<Rightarrow> u64 \<times> nat \<Rightarrow> u64 \<Rightarrow> kernel \<Rightarrow> bool" where
  "linked p4 p3 p2 l1 k \<longleftrightarrow> (case p4 of (l4, i4) \<Rightarrow> case p3 of (l3, i3) \<Rightarrow> case p2 of (l2, i2) \<Rightarrow>
     present (entry l4 i4 k) \<and> frame (entry l4 i4 k) = l3 \<and> present (entry l3 i3 k) \<and> frame (entry l3 i3 k) = l2 \<and>
     present (entry l2 i2 k) \<and> frame (entry l2 i2 k) = l1 \<and> \<not> huge (entry l2 i2 k))"

lemma completes_linked:
  assumes "completes l4 [i4, i3, i2] k k'"
  obtains l3 l2 l1 where "table_walk l4 [i4, i3, i2] k' = [l4, l3, l2, l1]" "linked (l4, i4) (l3, i3) (l2, i2) l1 k'"
  using assms by (auto simp: completes_def linked_def split: if_splits)

lemma linked_translate:
  assumes "indices va = (i4, i3, i2, i1)" "linked (read_cr3 k, i4) (l3, i3) (l2, i2) l1 k"
  shows "translate va k = (if present (entry l1 i1 k) then Some (frame (entry l1 i1 k) OR (va AND 0xFFF)) else None)"
    "unmap va k = (if present (entry l1 i1 k) then (Some (entry l1 i1 k), put_entry l1 i1 0 k) else (None, k))"
    "table_walk (read_cr3 k) [i4, i3, i2] k = [read_cr3 k, l3, l2, l1]"
  using assms by (auto simp: translate_def translate_in_pml4_def unmap_def linked_def Let_def entry_def)

text \<open>The stores of a mapping, once the tables are there.\<close>
definition store_leaf :: "u64 \<times> nat \<Rightarrow> u64 \<times> nat \<Rightarrow> u64 \<times> nat \<Rightarrow> u64 \<times> nat \<Rightarrow> u64 \<Rightarrow> u64 \<Rightarrow> kernel \<Rightarrow> kernel" where
  "store_leaf p4 p3 p2 p1 pa fl k =
     (let k = put_entry (fst p1) (snd p1) (pa OR fl) k in
      if user fl then or_entry (fst p2) (snd p2) PAGE_USER (or_entry (fst p3) (snd p3) PAGE_USER (or_entry (fst p4) (snd p4) PAGE_USER k)) else k)"

lemma store_leaf_entry:
  assumes q: "\<forall>q \<in> {p4, p3, p2, p1}. frame (fst q) = fst q \<and> snd q < 512" and d: "distinct [p4, p3, p2, p1]"
    and u: "frame u = u" "j < 512"
  shows "entry u j (store_leaf p4 p3 p2 p1 pa fl k) = (if (u, j) = p1 then pa OR fl
    else if user fl \<and> (u, j) \<in> {p4, p3, p2} then entry u j k OR PAGE_USER else entry u j k)"
proof -
  have p: "entry u j (put_entry (fst q) (snd q) v k) = (if (u, j) = q then v else entry u j k)" if "q \<in> {p4, p3, p2, p1}" for q v k
    using entry_put [of "fst q" u "snd q" j] bspec [OF q that] u by (cases q) simp
  have o: "entry u j (or_entry (fst q) (snd q) v k) = (if (u, j) = q then entry u j k OR v else entry u j k)" if "q \<in> {p4, p3, p2, p1}" for q v k
    unfolding or_entry_def by (subst p [OF that]) auto
  have "(u, j) = p1 \<Longrightarrow> (u, j) \<notin> {p4, p3, p2}" "p4 \<noteq> p3" "p4 \<noteq> p2" "p3 \<noteq> p2" using d by auto
  then show ?thesis unfolding store_leaf_def Let_def by (auto simp: o p)
qed

lemma try_map_4k_stores:
  assumes "indices va = (i4, i3, i2, i1)" "\<not> (user fl \<and> overlaps_kernel_scratch va (sat_add va 0x1000))" "translate va k = None"
    "descend (read_cr3 k) [i4, i3, i2] k = (Some [read_cr3 k, l3, l2, l1], k1)"
  shows "try_map_4k va pa fl k = (True, store_leaf (read_cr3 k, i4) (l3, i3) (l2, i2) (l1, i1) pa fl k1)"
  using assms
  by (auto simp: try_map_4k_def store_leaf_def translate_def Let_def split: prod.splits option.splits)

lemma leaf_bits:
  assumes "frame pa = pa" "frame fl = 0" "present fl"
  shows "present (pa OR fl)" "frame (pa OR fl) = pa"
  using assms by (auto simp: present_def frame_def PAGE_PRESENT_def bit.conj_disj_distrib2 or_eq_0_iff)

lemma linked_store_leaf:
  assumes l: "linked (l4, i4) (l3, i3) (l2, i2) l1 k" and d: "distinct [l4, l3, l2, l1]"
    and f: "frame l4 = l4" and i: "i4 < 512" "i3 < 512" "i2 < 512" "i1 < 512"
  shows "linked (l4, i4) (l3, i3) (l2, i2) l1 (store_leaf (l4, i4) (l3, i3) (l2, i2) (l1, i1) pa fl k)"
    "frame u = u \<Longrightarrow> j < 512 \<Longrightarrow> (u, j) \<notin> {(l4, i4), (l3, i3), (l2, i2), (l1, i1)} \<Longrightarrow>
      entry u j (store_leaf (l4, i4) (l3, i3) (l2, i2) (l1, i1) pa fl k) = entry u j k"
    "entry l1 i1 (store_leaf (l4, i4) (l3, i3) (l2, i2) (l1, i1) pa fl k) = pa OR fl"
proof -
  have fr: "frame l3 = l3" "frame l2 = l2" "frame l1 = l1" using l by (auto simp: linked_def)
  have q: "\<forall>q \<in> {(l4, i4), (l3, i3), (l2, i2), (l1, i1)}. frame (fst q) = fst q \<and> snd q < 512"
    using fr f i by auto
  have ds: "distinct [(l4, i4), (l3, i3), (l2, i2), (l1, i1)]" using d by auto
  note e = store_leaf_entry [OF q ds]
  show "linked (l4, i4) (l3, i3) (l2, i2) l1 (store_leaf (l4, i4) (l3, i3) (l2, i2) (l1, i1) pa fl k)"
    using l d f fr i by (simp add: linked_def e)
  show "entry u j (store_leaf (l4, i4) (l3, i3) (l2, i2) (l1, i1) pa fl k) = entry u j k"
    if "frame u = u" "j < 512" "(u, j) \<notin> {(l4, i4), (l3, i3), (l2, i2), (l1, i1)}"
    using that by (auto simp: e)
  show "entry l1 i1 (store_leaf (l4, i4) (l3, i3) (l2, i2) (l1, i1) pa fl k) = pa OR fl" using fr i by (simp add: e)
qed

lemma unmapped_small_link: "translate va k = None \<Longrightarrow> small_link (read_cr3 k) (upper va) k"
  by (cases "indices va") (auto simp: translate_def translate_in_pml4_def upper_def Let_def entry_def split: if_splits)

lemma unmap_linked:
  assumes l: "linked (read_cr3 k, i4) (l3, i3) (l2, i2) l1 k" and d: "distinct [read_cr3 k, l3, l2, l1]"
    and i: "i4 < 512" "i3 < 512" "i2 < 512" "i1 < 512" "indices va = (i4, i3, i2, i1)"
  shows "translate va (put_entry l1 i1 0 k) = None"
proof -
  let ?k = "put_entry l1 i1 0 k"
  have fr: "frame (read_cr3 k) = read_cr3 k" "frame l3 = l3" "frame l2 = l2" "frame l1 = l1" 
    using l by (auto simp: linked_def read_cr3_def) (simp add: frame_def and.assoc)
  have "read_cr3 ?k = read_cr3 k" by (simp add: put_entry_def read_cr3_def)
  moreover have "linked (read_cr3 k, i4) (l3, i3) (l2, i2) l1 ?k"
    using l d fr i by (simp add: linked_def entry_put)
  ultimately show ?thesis using linked_translate(1) [OF i(5), of ?k l3 l2 l1] fr i by (simp add: entry_put present_def)
qed

subsection \<open>Other addresses\<close>

text \<open>The tables of an address space form a tree: no table is reached in two ways, and none is free.\<close>
definition tree_ok :: "kernel \<Rightarrow> bool" where
  "tree_ok k \<longleftrightarrow>
     (\<forall>is js t. length is \<le> 3 \<and> length js \<le> 3 \<and> reach 3 (read_cr3 k) is k = Some t \<and> reach 3 (read_cr3 k) js k = Some t \<longrightarrow> is = js) \<and>
     (\<forall>is t. length is \<le> 3 \<and> reach 3 (read_cr3 k) is k = Some t \<longrightarrow> t \<notin> spare k)"

lemma tree_inj: "tree_ok k \<Longrightarrow> length is \<le> 3 \<Longrightarrow> length js \<le> 3 \<Longrightarrow> reach 3 (read_cr3 k) is k = Some t \<Longrightarrow> reach 3 (read_cr3 k) js k = Some t \<Longrightarrow> is = js"
  unfolding tree_ok_def by blast

lemma tree_used: "tree_ok k \<Longrightarrow> length is \<le> 3 \<Longrightarrow> reach 3 (read_cr3 k) is k = Some t \<Longrightarrow> t \<notin> spare k"
  unfolding tree_ok_def by blast

text \<open>The walk from each level down.\<close>
definition tr1 :: "u64 \<Rightarrow> u64 \<Rightarrow> kernel \<Rightarrow> u64 option" where
  "tr1 t a k = (let e = entry t (leaf a) k in if present e then Some (frame e OR (a AND 0xFFF)) else None)"

definition tr2 :: "u64 \<Rightarrow> u64 \<Rightarrow> kernel \<Rightarrow> u64 option" where
  "tr2 t a k = (let e = entry t (upper a ! 2) k in if \<not> present e then None else if huge e then Some (frame e OR (a AND 0x1FFFFF)) else tr1 (frame e) a k)"

definition tr3 :: "u64 \<Rightarrow> u64 \<Rightarrow> kernel \<Rightarrow> u64 option" where
  "tr3 t a k = (let e = entry t (upper a ! 1) k in if present e then tr2 (frame e) a k else None)"

definition tr4 :: "u64 \<Rightarrow> u64 \<Rightarrow> kernel \<Rightarrow> u64 option" where
  "tr4 t a k = (let e = entry t (upper a ! 0) k in if present e then tr3 (frame e) a k else None)"

lemma translate_levels: "translate a k = tr4 (read_cr3 k) a k"
  by (cases "indices a") (simp add: translate_def translate_in_pml4_def tr4_def tr3_def tr2_def tr1_def upper_def leaf_def entry_def Let_def)

lemma reach_snoc:
  "reach n t (is @ [i]) k = (case reach n t is k of None \<Rightarrow> None
     | Some u \<Rightarrow> if present (entry u i k) \<and> (n - length is = 1 \<longrightarrow> \<not> huge (entry u i k)) then Some (frame (entry u i k)) else None)"
  by (induction n t "is" k rule: reach.induct) (auto split: option.splits)

lemma length_upper [simp]: "length (upper a) = 3"
  by (simp add: upper_def split: prod.split)

lemma reach_Suc:
  assumes "m < 3"
  shows "reach 3 t (take (Suc m) (upper a)) k = (case reach 3 t (take m (upper a)) k of None \<Rightarrow> None
     | Some u \<Rightarrow> let e = entry u (upper a ! m) k in if present e \<and> (m = 2 \<longrightarrow> \<not> huge e) then Some (frame e) else None)"
proof -
  have "3 - length (take m (upper a)) = 1 \<longleftrightarrow> m = 2" using assms by auto
  then show ?thesis using assms by (auto simp: take_Suc_conv_app_nth reach_snoc Let_def split: option.splits)
qed

text \<open>The state \<open>kf\<close> has a complete path to the page of \<open>va\<close>, and differs from \<open>k\<close> on it only.\<close>
definition grown :: "u64 \<Rightarrow> u64 list \<Rightarrow> kernel \<Rightarrow> kernel \<Rightarrow> bool" where
  "grown va P k kf \<longleftrightarrow> length P = 4 \<and> distinct P \<and> P ! 0 = read_cr3 k \<and> read_cr3 kf = read_cr3 k \<and>
     linked (P ! 0, upper va ! 0) (P ! 1, upper va ! 1) (P ! 2, upper va ! 2) (P ! 3) kf \<and>
     (\<forall>n \<le> 3. reach 3 (read_cr3 k) (take n (upper va)) k = Some (P ! n) \<or>
        reach 3 (read_cr3 k) (take n (upper va)) k = None \<and> P ! n \<in> spare k \<and>
        (\<forall>j < 512. j \<noteq> (upper va @ [leaf va]) ! n \<longrightarrow> entry (P ! n) j kf = 0)) \<and>
     (\<forall>u j. frame u = u \<longrightarrow> j < 512 \<longrightarrow> u \<notin> spare k \<longrightarrow> (u, j) \<notin> set (zip P (upper va @ [leaf va])) \<longrightarrow> entry u j kf = entry u j k)"

lemma reach_frame: "frame t = t \<Longrightarrow> reach n t is k = Some u \<Longrightarrow> frame u = u"
  by (induction n t "is" k rule: reach.induct) (auto split: if_splits)

lemma read_cr3_frame [simp]: "frame (read_cr3 k) = read_cr3 k"
  by (simp add: read_cr3_def frame_def and.assoc)

lemma grown_off:
  assumes g: "grown va P k kf" and tree: "tree_ok k" and m: "m \<le> 3" "take m (upper a) \<noteq> take m (upper va)"
    and t: "reach 3 (read_cr3 k) (take m (upper a)) k = Some t" and j: "j < 512"
  shows "entry t j kf = entry t j k"
proof -
  have "t \<notin> set P"
  proof
    assume "t \<in> set P"
    then obtain n where n: "n < length P" "t = P ! n" by (auto simp: in_set_conv_nth)
    then have n: "n \<le> 3" "t = P ! n" using g by (auto simp: grown_def)
    then have "reach 3 (read_cr3 k) (take n (upper va)) k = Some t \<or> t \<in> spare k" using g by (auto simp: grown_def)
    then have "take m (upper a) = take n (upper va)"
      using tree_inj [OF tree _ _ t, of "take n (upper va)"] tree_used [OF tree _ t] by auto
    then have "min 3 m = min 3 n" by (metis length_take length_upper)
    then show False using m n \<open>take m (upper a) = take n (upper va)\<close> by simp
  qed
  then have "(t, j) \<notin> set (zip P (upper va @ [leaf va]))" by (auto dest: set_zip_leftD)
  then show ?thesis using g j tree_used [OF tree _ t] reach_frame [OF _ t] by (simp add: grown_def)
qed

lemma upper_bound: "m < 3 \<Longrightarrow> upper a ! m < 512"
  using indices_bound(1) [of a] nth_mem [of m "upper a"] by auto

lemma off_path:
  assumes g: "grown va P k kf" and tree: "tree_ok k"
  shows "take 3 (upper a) \<noteq> take 3 (upper va) \<Longrightarrow> reach 3 (read_cr3 k) (take 3 (upper a)) k = Some t \<Longrightarrow> tr1 t a kf = tr1 t a k"
    "take 2 (upper a) \<noteq> take 2 (upper va) \<Longrightarrow> reach 3 (read_cr3 k) (take 2 (upper a)) k = Some t \<Longrightarrow> tr2 t a kf = tr2 t a k"
    "take 1 (upper a) \<noteq> take 1 (upper va) \<Longrightarrow> reach 3 (read_cr3 k) (take 1 (upper a)) k = Some t \<Longrightarrow> tr3 t a kf = tr3 t a k"
proof -
  note off = grown_off [OF g tree, of _ a]
  have up: "take (Suc m) (upper a) \<noteq> take (Suc m) (upper va)" if "take m (upper a) \<noteq> take m (upper va)" "m < 3" for m
    using that by (auto simp: take_Suc_conv_app_nth)
  have 1: "tr1 t a kf = tr1 t a k" if "take 3 (upper a) \<noteq> take 3 (upper va)" "reach 3 (read_cr3 k) (take 3 (upper a)) k = Some t" for t
    using off [of 3 t "leaf a"] that indices_bound(2) [of a] by (simp add: tr1_def)
  have 2: "tr2 t a kf = tr2 t a k" if h: "take 2 (upper a) \<noteq> take 2 (upper va)" "reach 3 (read_cr3 k) (take 2 (upper a)) k = Some t" for t
    using off [of 2 t "upper a ! 2"] h upper_bound [of 2 a] 1 [of "frame (entry t (upper a ! 2) k)"] up [OF h(1)] reach_Suc [of 2 "read_cr3 k" a k]
    by (auto simp: tr2_def Let_def)
  have 3: "tr3 t a kf = tr3 t a k" if h: "take 1 (upper a) \<noteq> take 1 (upper va)" "reach 3 (read_cr3 k) (take 1 (upper a)) k = Some t" for t
    using off [of 1 t "upper a ! 1"] h upper_bound [of 1 a] 2 [of "frame (entry t (upper a ! 1) k)"] up [OF h(1)] reach_Suc [of 1 "read_cr3 k" a k]
    by (auto simp: tr3_def Let_def numeral_2_eq_2)
  show "take 3 (upper a) \<noteq> take 3 (upper va) \<Longrightarrow> reach 3 (read_cr3 k) (take 3 (upper a)) k = Some t \<Longrightarrow> tr1 t a kf = tr1 t a k"
    "take 2 (upper a) \<noteq> take 2 (upper va) \<Longrightarrow> reach 3 (read_cr3 k) (take 2 (upper a)) k = Some t \<Longrightarrow> tr2 t a kf = tr2 t a k"
    "take 1 (upper a) \<noteq> take 1 (upper va) \<Longrightarrow> reach 3 (read_cr3 k) (take 1 (upper a)) k = Some t \<Longrightarrow> tr3 t a kf = tr3 t a k"
    by (fact 1, fact 2, fact 3)
qed

text \<open>What the walk finds from a table that may not exist.\<close>
definition from_table :: "(u64 \<Rightarrow> kernel \<Rightarrow> 'a option) \<Rightarrow> u64 option \<Rightarrow> kernel \<Rightarrow> 'a option" where
  "from_table f r k = (case r of None \<Rightarrow> None | Some t \<Rightarrow> f t k)"

text \<open>One level of the walk: \<open>big\<close> for a huge page, \<open>rest\<close> for the level below.\<close>
definition level :: "nat \<Rightarrow> (u64 \<Rightarrow> u64 option) \<Rightarrow> (u64 \<Rightarrow> kernel \<Rightarrow> u64 option) \<Rightarrow> nat \<Rightarrow> u64 \<Rightarrow> kernel \<Rightarrow> u64 option" where
  "level m big rest i t k = (let e = entry t i k in if \<not> present e then None else if m = 2 \<and> huge e then big e else rest (frame e) k)"

lemma tr_level:
  "tr2 t a k = level 2 (\<lambda>e. Some (frame e OR (a AND 0x1FFFFF))) (\<lambda>t. tr1 t a) (upper a ! 2) t k"
  "tr3 t a k = level 1 (\<lambda>e. None) (\<lambda>t. tr2 t a) (upper a ! 1) t k"
  "tr4 t a k = level 0 (\<lambda>e. None) (\<lambda>t. tr3 t a) (upper a ! 0) t k"
  by (simp_all add: tr2_def tr3_def tr4_def level_def Let_def)

lemma grown_entry:
  assumes g: "grown va P k kf" and tree: "tree_ok k" and n: "n \<le> 3" and j: "j < 512" "j \<noteq> (upper va @ [leaf va]) ! n"
  shows "case reach 3 (read_cr3 k) (take n (upper va)) k of None \<Rightarrow> entry (P ! n) j kf = 0 | Some t \<Rightarrow> t = P ! n \<and> entry t j kf = entry t j k"
proof (cases "reach 3 (read_cr3 k) (take n (upper va)) k")
  case None
  then show ?thesis using g n j by (auto simp: grown_def)
next
  case (Some t)
  then have t: "t = P ! n" "t \<notin> spare k" "frame t = t"
    using g n tree_used [OF tree _ Some] reach_frame [OF _ Some] by (auto simp: grown_def)
  have "(t, j) \<notin> set (zip P (upper va @ [leaf va]))"
  proof
    assume "(t, j) \<in> set (zip P (upper va @ [leaf va]))"
    then obtain i where i: "i < length P" "P ! i = t" "(upper va @ [leaf va]) ! i = j" by (auto simp: set_zip)
    moreover have "i = n" using i t(1) g n nth_eq_iff_index_eq [of P i n] by (simp add: grown_def)
    ultimately show False using j by simp
  qed
  then have "entry t j kf = entry t j k" using g t j by (simp add: grown_def)
  then show ?thesis using Some t by simp
qed

lemma grown_link:
  assumes "grown va P k kf" "m < 3"
  shows "present (entry (P ! m) (upper va ! m) kf)" "frame (entry (P ! m) (upper va ! m) kf) = P ! Suc m"
    "m = 2 \<Longrightarrow> \<not> huge (entry (P ! m) (upper va ! m) kf)"
proof -
  have "m = 0 \<or> m = 1 \<or> m = 2" using assms(2) by auto
  then show "present (entry (P ! m) (upper va ! m) kf)" "frame (entry (P ! m) (upper va ! m) kf) = P ! Suc m"
    "m = 2 \<Longrightarrow> \<not> huge (entry (P ! m) (upper va ! m) kf)"
    using assms(1) by (auto simp: grown_def linked_def numeral_3_eq_3 numeral_2_eq_2)
qed

lemma on_level:
  assumes g: "grown va P k kf" and tree: "tree_ok k" and m: "m < 3" "take m (upper a) = take m (upper va)"
    and small: "\<And>t. m = 2 \<Longrightarrow> reach 3 (read_cr3 k) (take 2 (upper va)) k = Some t \<Longrightarrow> present (entry t (upper va ! 2) k) \<Longrightarrow> \<not> huge (entry t (upper va ! 2) k)"
    and on: "upper a ! m = upper va ! m \<Longrightarrow> rest (P ! Suc m) kf = from_table rest (reach 3 (read_cr3 k) (take (Suc m) (upper va)) k) k"
    and off: "\<And>t. upper a ! m \<noteq> upper va ! m \<Longrightarrow> reach 3 (read_cr3 k) (take (Suc m) (upper a)) k = Some t \<Longrightarrow> rest t kf = rest t k"
  shows "level m big rest (upper a ! m) (P ! m) kf = from_table (level m big rest (upper a ! m)) (reach 3 (read_cr3 k) (take m (upper va)) k) k"
proof (cases "upper a ! m = upper va ! m")
  case True
  have "level m big rest (upper a ! m) (P ! m) kf = from_table rest (reach 3 (read_cr3 k) (take (Suc m) (upper va)) k) k"
    using grown_link [OF g m(1)] on [OF True] True by (auto simp: level_def Let_def)
  then show ?thesis using small True unfolding reach_Suc [OF m(1)]
    by (auto simp: from_table_def level_def Let_def split: option.splits)
next
  case False
  have "upper a ! m \<noteq> (upper va @ [leaf va]) ! m" using False m(1) by (simp add: nth_append)
  note e = grown_entry [OF g tree less_imp_le [OF m(1)] upper_bound [OF m(1), of a] this]
  show ?thesis
  proof (cases "reach 3 (read_cr3 k) (take m (upper va)) k")
    case None
    then show ?thesis using e by (simp add: from_table_def level_def present_def)
  next
    case (Some t)
    then have "reach 3 (read_cr3 k) (take (Suc m) (upper a)) k = Some (frame (entry t (upper a ! m) k))"
      if "present (entry t (upper a ! m) k)" "m = 2 \<longrightarrow> \<not> huge (entry t (upper a ! m) k)"
      using that m(2) by (simp add: reach_Suc [OF m(1)])
    then show ?thesis using Some e off [OF False] by (auto simp: from_table_def level_def Let_def)
  qed
qed

text \<open>Every other address translates as before.\<close>
lemma grown_translate:
  assumes g: "grown va P k kf" and tree: "tree_ok k" and un: "translate va k = None" and ne: "indices a \<noteq> indices va"
  shows "translate a kf = translate a k"
proof -
  have ne': "upper a \<noteq> upper va \<or> leaf a \<noteq> leaf va"
    using ne by (cases "indices a"; cases "indices va") (auto simp: upper_def leaf_def)
  note O = off_path [OF g tree, of a]
  have eq: "take (Suc m) (upper a) = take (Suc m) (upper va)" if "take m (upper a) = take m (upper va)" "upper a ! m = upper va ! m" "m < 3" for m
    using that by (simp add: take_Suc_conv_app_nth)
  have neq: "take (Suc m) (upper a) \<noteq> take (Suc m) (upper va)" if "upper a ! m \<noteq> upper va ! m" for m
    using that by (metis lessI nth_take)
  have small: "\<not> huge (entry t (upper va ! 2) k)" if "reach 3 (read_cr3 k) (take 2 (upper va)) k = Some t" "present (entry t (upper va ! 2) k)" for t
  proof
    assume h: "huge (entry t (upper va ! 2) k)"
    have "reach 3 (read_cr3 k) (take (Suc (Suc 0)) (upper va)) k = Some t" using that(1) by (simp add: numeral_2_eq_2)
    then show False using un h that(2) unfolding reach_Suc [of 1, simplified] reach_Suc [of 0, simplified]
      by (auto simp: translate_levels tr4_def tr3_def tr2_def Let_def split: option.splits if_splits)
  qed
  have 1: "tr1 (P ! 3) a kf = from_table (\<lambda>t. tr1 t a) (reach 3 (read_cr3 k) (take 3 (upper va)) k) k" if "upper a = upper va"
    using grown_entry [OF g tree, of 3 "leaf a"] that ne' indices_bound(2) [of a]
    by (auto simp: from_table_def tr1_def nth_append present_def split: option.splits)
  have 2: "tr2 (P ! 2) a kf = from_table (\<lambda>t. tr2 t a) (reach 3 (read_cr3 k) (take 2 (upper va)) k) k" if "take 2 (upper a) = take 2 (upper va)"
    unfolding tr_level(1)
  proof (rule on_level [OF g tree _ that])
    show "tr1 (P ! Suc 2) a kf = from_table (\<lambda>t. tr1 t a) (reach 3 (read_cr3 k) (take (Suc 2) (upper va)) k) k" if "upper a ! 2 = upper va ! 2"
      using 1 eq [of 2] that \<open>take 2 (upper a) = take 2 (upper va)\<close> by simp
    show "tr1 t a kf = tr1 t a k" if "upper a ! 2 \<noteq> upper va ! 2" "reach 3 (read_cr3 k) (take (Suc 2) (upper a)) k = Some t" for t
      using O(1) [of t] neq [of 2] that by simp
  qed (use small in simp_all)
  have 3: "tr3 (P ! 1) a kf = from_table (\<lambda>t. tr3 t a) (reach 3 (read_cr3 k) (take 1 (upper va)) k) k" if "take 1 (upper a) = take 1 (upper va)"
    unfolding tr_level(2)
  proof (rule on_level [OF g tree _ that])
    show "tr2 (P ! Suc 1) a kf = from_table (\<lambda>t. tr2 t a) (reach 3 (read_cr3 k) (take (Suc 1) (upper va)) k) k" if "upper a ! 1 = upper va ! 1"
      using 2 eq [of 1] that \<open>take 1 (upper a) = take 1 (upper va)\<close> by (simp add: numeral_2_eq_2)
    show "tr2 t a kf = tr2 t a k" if "upper a ! 1 \<noteq> upper va ! 1" "reach 3 (read_cr3 k) (take (Suc 1) (upper a)) k = Some t" for t
      using O(2) [of t] neq [of 1] that by (simp add: numeral_2_eq_2)
  qed simp_all
  have "tr4 (P ! 0) a kf = from_table (\<lambda>t. tr4 t a) (reach 3 (read_cr3 k) (take 0 (upper va)) k) k"
    unfolding tr_level(3)
  proof (rule on_level [OF g tree])
    show "tr3 (P ! Suc 0) a kf = from_table (\<lambda>t. tr3 t a) (reach 3 (read_cr3 k) (take (Suc 0) (upper va)) k) k" if "upper a ! 0 = upper va ! 0"
      using 3 eq [of 0] that by simp
    show "tr3 t a kf = tr3 t a k" if "upper a ! 0 \<noteq> upper va ! 0" "reach 3 (read_cr3 k) (take (Suc 0) (upper a)) k = Some t" for t
      using O(3) [of t] neq [of 0] that by simp
  qed simp_all
  then show ?thesis using g by (simp add: translate_levels from_table_def grown_def)
qed

lemma walk_reach:
  "small_link t is k \<Longrightarrow> n < length (table_walk t is k) \<Longrightarrow> reach (length is) t (take n is) k = Some (table_walk t is k ! n)"
proof (induction t "is" k arbitrary: n rule: table_walk.induct)
  case (2 t i "is" k)
  then show ?case by (cases n; cases "is") (auto split: if_splits)
qed simp

lemma tree_path:
  assumes tree: "tree_ok k" and s: "small_link (read_cr3 k) (upper va) k"
  shows "path_ok (read_cr3 k) (upper va) k"
proof -
  let ?w = "table_walk (read_cr3 k) (upper va) k"
  have l: "length (table_walk t is k) \<le> Suc (length is)" for t "is" by (induction t "is" k rule: table_walk.induct) auto
  have r: "reach 3 (read_cr3 k) (take n (upper va)) k = Some (?w ! n)" "n \<le> 3" if "n < length ?w" for n
    using walk_reach [OF s that] l [of "read_cr3 k" "upper va"] that by simp_all
  have "n = m" if "n < length ?w" "m < length ?w" "?w ! n = ?w ! m" for n m
  proof -
    have "take n (upper va) = take m (upper va)" using r [OF that(1)] r [OF that(2)] that(3) tree_inj [OF tree] by auto
    then have "min 3 n = min 3 m" by (metis length_take length_upper)
    then show ?thesis using r(2) that by simp
  qed
  then have "distinct ?w" unfolding distinct_conv_nth by blast
  moreover have "t \<notin> spare k" if "t \<in> set ?w" for t
    using that r tree_used [OF tree] unfolding in_set_conv_nth by (metis length_take min.cobounded1 length_upper)
  ultimately show ?thesis unfolding path_ok_def by blast
qed

lemma completes_grown:
  assumes c: "completes (read_cr3 k) (upper va) k k1" and P: "table_walk (read_cr3 k) (upper va) k1 = P" and r: "read_cr3 kf = read_cr3 k"
    and l: "linked (P ! 0, upper va ! 0) (P ! 1, upper va ! 1) (P ! 2, upper va ! 2) (P ! 3) kf"
    and e: "\<And>u j. frame u = u \<Longrightarrow> j < 512 \<Longrightarrow> (u, j) \<notin> set (zip P (upper va @ [leaf va])) \<Longrightarrow> entry u j kf = entry u j k1"
  shows "grown va P k kf"
proof -
  have len: "length P = 4" and d: "distinct P" using c P by (auto simp: completes_def path_ok_def)
  have P0: "P ! 0 = read_cr3 k" using P by (cases "upper va") auto
  have zip: "zip P (upper va @ [leaf va]) = zip P (upper va) @ [(P ! 3, leaf va)]"
  proof -
    have "P = take 3 P @ [P ! 3]" using len take_Suc_conv_app_nth [of 3 P] by simp
    then show ?thesis using len zip_append [of "take 3 P" "upper va" "[P ! 3]" "[leaf va]"] zip_append1 [of "take 3 P" "[P ! 3]" "upper va"] by simp
  qed
  have fr: "frame t = t" if "t \<in> set P" for t using table_walk_frames [of "read_cr3 k" t "upper va" k1] that P by simp
  have "reach 3 (read_cr3 k) (take n (upper va)) k = Some (P ! n) \<or> reach 3 (read_cr3 k) (take n (upper va)) k = None \<and> P ! n \<in> spare k \<and>
      (\<forall>j < 512. j \<noteq> (upper va @ [leaf va]) ! n \<longrightarrow> entry (P ! n) j kf = 0)" if n: "n \<le> 3" for n
  proof -
    have "(P ! n, j) \<notin> set (zip P (upper va @ [leaf va]))" if "j \<noteq> (upper va @ [leaf va]) ! n" for j
      using that d n len by (auto simp: set_zip nth_eq_iff_index_eq)
    then have "entry (P ! n) j kf = entry (P ! n) j k1 \<and> (P ! n, j) \<notin> set (zip P (upper va))" if "j < 512" "j \<noteq> (upper va @ [leaf va]) ! n" for j
      using that e [of "P ! n" j] fr [of "P ! n"] n len zip by simp
    moreover have "old_or_new (read_cr3 k) (upper va) k k1 n" using c n by (simp add: completes_def)
    ultimately show ?thesis unfolding old_or_new_def P Let_def by auto
  qed
  moreover have "entry u j kf = entry u j k" if "frame u = u" "j < 512" "u \<notin> spare k" "(u, j) \<notin> set (zip P (upper va @ [leaf va]))" for u j
    using e [of u j] that c zip unfolding completes_def P by auto
  ultimately show ?thesis unfolding grown_def using len d P0 r l by blast
qed

lemma translate_None_page: "indices a = indices va \<Longrightarrow> translate a k = None \<longleftrightarrow> translate va k = None"
  by (auto simp: translate_def translate_in_pml4_def Let_def split: prod.splits)


text \<open>An empty root at \<open>0x2000\<close> and an allocator with four free pages.\<close>
definition empty_kernel :: kernel where
  "empty_kernel = (kernel0 [])\<lparr>k_mem := (\<lambda>_. 0), k_cr3 := 0x2000, k_pmm := pmm_init 0x100000 0x108000 (pmm_new (replicate BITMAP_SIZE 0))\<rparr>"

lemma empty_kernel_spare: "free_addrs (k_pmm empty_kernel) = {0x104000, 0x105000, 0x106000, 0x107000}"
proof -
  let ?p = "pmm_init 0x100000 0x108000 (pmm_new (replicate BITMAP_SIZE 0))"
  have t: "total_pages ?p = 8" "memory_start ?p = 0x100000" using boot_total by (simp_all add: pmm_init_def)
  have "{..<total_pages ?p} - used_pages ?p = {4, 5, 6, 7}"
    using boot_page_used unfolding used_pages_def t(1) by (auto simp: PMM_MAX_PAGES_def)
  then show ?thesis by (simp add: free_addrs_def empty_kernel_def page_addr_def t PMM_PAGE_SIZE_def)
qed


end
