(* ===== verification/Context_Switch.thy ===== *)
theory Context_Switch imports Interrupts Signal_Props begin

text \<open>Register frames between the assembly and the Rust code: what the processor and the stubs of
  \<open>src/kernel/interrupts.asm\<close> push, and what \<open>context_switch_to\<close> (\<open>src/kernel/context_switch.asm\<close>) and the ends of
  \<open>irq_common\<close> and \<open>syscall_entry\<close> pop.  The processor's own part is the documented behaviour of interrupt delivery and
  \<open>iretq\<close> in 64-bit mode.\<close>

record cpu =
  c_regs :: saved_registers
  c_rip :: u64
  c_cs :: u64
  c_rflags :: u64
  c_rsp :: u64
  c_ss :: u64

definition push :: "u64 \<Rightarrow> u64 \<times> kernel \<Rightarrow> u64 \<times> kernel" where
  "push v s = (case s of (sp, k) \<Rightarrow> (sp - 8, kstore (sp - 8) v k))"

definition pop :: "u64 \<times> kernel \<Rightarrow> u64 \<times> u64 \<times> kernel" where
  "pop s = (case s of (sp, k) \<Rightarrow> (kload sp k, sp + 8, k))"

text \<open>Delivery of a vector to ring 0 pushes five quadwords on the stack of the task state segment, and the error code of
  the vectors that have one.\<close>
definition deliver :: "cpu \<Rightarrow> u64 list \<Rightarrow> u64 \<times> kernel \<Rightarrow> u64 \<times> kernel" where
  "deliver c err = fold push ([c_ss c, c_rsp c, c_rflags c, c_cs c, c_rip c] @ err)"

definition error_vector :: "u64 \<Rightarrow> bool" where
  "error_vector n \<longleftrightarrow> n \<in> {8, 10, 11, 12, 13, 14, 17, 21}"

definition isr_stub :: "u64 \<Rightarrow> u64 \<times> kernel \<Rightarrow> u64 \<times> kernel" where
  "isr_stub n = fold push (if error_vector n then [n] else [0, n])"

definition irq_stub :: "u64 \<Rightarrow> u64 \<times> kernel \<Rightarrow> u64 \<times> kernel" where
  "irq_stub line = fold push [0, 32 + line]"

definition push_registers :: "saved_registers \<Rightarrow> u64 \<times> kernel \<Rightarrow> u64 \<times> kernel" where
  "push_registers r = fold push [r_r15 r, r_r14 r, r_r13 r, r_r12 r, r_r11 r, r_r10 r, r_r9 r, r_r8 r, r_rdi r, r_rsi r, r_rbp r,
     r_rbx r, r_rdx r, r_rcx r, r_rax r]"

definition isr_common :: "u64 \<Rightarrow> saved_registers \<Rightarrow> u64 \<times> kernel \<Rightarrow> kernel" where
  "isr_common cr2 r s = (case push_registers r s of (sp, k) \<Rightarrow> interrupt_handler cr2 (frame_at sp k) k)"

text \<open>An exception, up to the halt, and a device interrupt, up to the frame that \<open>irq_common\<close> works on.\<close>
definition exception_entry :: "u64 \<Rightarrow> u64 \<Rightarrow> u64 \<Rightarrow> cpu \<Rightarrow> kernel \<Rightarrow> kernel" where
  "exception_entry n err cr2 c k = isr_common cr2 (c_regs c) (isr_stub n (deliver c (if error_vector n then [err] else []) (k_rsp0 k, k)))"

definition irq_entry :: "u64 \<Rightarrow> cpu \<Rightarrow> kernel \<Rightarrow> u64 \<times> kernel" where
  "irq_entry line c k = push_registers (c_regs c) (irq_stub line (deliver c [] (k_rsp0 k, k)))"

definition pop_registers :: "u64 \<times> kernel \<Rightarrow> saved_registers \<times> u64 \<times> kernel" where
  "pop_registers s = (let (rax, s) = pop s; (rcx, s) = pop s; (rdx, s) = pop s; (rbx, s) = pop s; (rbp, s) = pop s; (rsi, s) = pop s;
      (rdi, s) = pop s; (r8, s) = pop s; (r9, s) = pop s; (r10, s) = pop s; (r11, s) = pop s; (r12, s) = pop s; (r13, s) = pop s;
      (r14, s) = pop s; (r15, s) = pop s
    in (\<lparr>r_rax = rax, r_rcx = rcx, r_rdx = rdx, r_rbx = rbx, r_rbp = rbp, r_rsi = rsi, r_rdi = rdi, r_r8 = r8, r_r9 = r9,
         r_r10 = r10, r_r11 = r11, r_r12 = r12, r_r13 = r13, r_r14 = r14, r_r15 = r15\<rparr>, s))"

definition iretq :: "saved_registers \<Rightarrow> u64 \<times> kernel \<Rightarrow> cpu" where
  "iretq r s = (let (rip, s) = pop s; (cs, s) = pop s; (rflags, s) = pop s; (rsp, s) = pop s; (ss, s) = pop s
    in \<lparr>c_regs = r, c_rip = rip, c_cs = cs, c_rflags = rflags, c_rsp = rsp, c_ss = ss\<rparr>)"

definition context_switch_to :: "u64 \<Rightarrow> kernel \<Rightarrow> cpu" where
  "context_switch_to kernel_rsp k = (let (r, sp, k) = pop_registers (kernel_rsp, k) in iretq r (sp + 16, k))"

subsection \<open>Pushes\<close>

lemma aligned8_sub:
  assumes "aligned8 a"
  shows "aligned8 (a - 8 * of_nat n)"
proof -
  have "a - 8 * of_nat n = a + 8 * of_nat (unat (- (of_nat n :: u64)))" by simp
  then show ?thesis using aligned8_add [OF assms] by metis
qed

lemma push_pair: "push v (sp, k) = (sp - 8, kstore (sp - 8) v k)" "pop (sp, k) = (kload sp k, sp + 8, k)"
  by (simp_all add: push_def pop_def)

lemma fold_push:
  assumes "aligned8 sp" "length vs < 2 ^ 60"
  shows "fst (fold push vs (sp, k)) = sp - 8 * of_nat (length vs) \<and>
    (\<forall>i < length vs. kload (sp - 8 * of_nat (Suc i)) (snd (fold push vs (sp, k))) = vs ! i)"
  using assms(2)
proof (induction vs rule: rev_induct)
  case (snoc v vs)
  obtain sp' k' where p: "fold push vs (sp, k) = (sp', k')" by fastforce
  have sp': "sp' = sp - 8 * of_nat (length vs)" and l: "\<forall>i < length vs. kload (sp - 8 * of_nat (Suc i)) k' = vs ! i"
    using snoc p by simp_all
  have new: "sp' - 8 = sp - 8 * of_nat (Suc (length vs))" by (simp add: sp' algebra_simps)
  have ne: "sp - 8 * of_nat (Suc (length vs)) \<noteq> sp - 8 * of_nat (Suc i)" if "i < length vs" for i
  proof
    assume "sp - 8 * of_nat (Suc (length vs)) = sp - 8 * of_nat (Suc i)"
    then have "(of_nat (8 * Suc (length vs)) :: u64) = of_nat (8 * Suc i)" by simp
    then have "8 * Suc (length vs) = 8 * Suc i"
      using snoc.prems that by (simp only: word_of_nat_eq_iff take_bit_nat_eq_self_iff) (simp add: take_bit_nat_eq_self)
    then show False using that by simp
  qed
  have "kload (sp - 8 * of_nat (Suc i)) (kstore (sp - 8 * of_nat (Suc (length vs))) v k') = (vs @ [v]) ! i" if "i < Suc (length vs)" for i
    using that l ne [of i] aligned8_sub [OF assms(1), of "Suc i"] aligned8_sub [OF assms(1), of "Suc (length vs)"]
    by (cases "i = length vs") (simp_all add: nth_append)
  then show ?case using p new by (simp add: push_pair del: of_nat_Suc)
qed simp

lemma load_qwords:
  assumes "i < length vs" "length vs < 2 ^ 60"
  shows "load64 (write_bytes a (qwords vs) m) (a + 8 * of_nat i) = vs ! i"
proof -
  have "read_bytes (write_bytes a (qwords vs) m) (a + 8 * of_nat i) 8 = le_bytes 8 (vs ! i)"
  proof (rule nth_equalityI)
    fix j assume "j < length (read_bytes (write_bytes a (qwords vs) m) (a + 8 * of_nat i) 8)"
    then have j: "j < 8" by simp
    have q: "8 * i + j < 8 * length vs" using assms(1) j by simp
    have "write_bytes a (qwords vs) m (a + of_nat (8 * i + j)) = qwords vs ! (8 * i + j)"
      by (rule write_bytes_nth) (use q assms(2) in simp_all)
    also have "qwords vs ! (8 * i + j) = le_bytes 8 (vs ! i) ! j" using assms(1)
    proof (induction vs arbitrary: i)
      case (Cons v vs)
      then show ?case using j by (cases i) (simp_all add: qwords_def nth_append)
    qed simp
    finally show "read_bytes (write_bytes a (qwords vs) m) (a + 8 * of_nat i) 8 ! j = le_bytes 8 (vs ! i) ! j"
      using j by (simp add: read_bytes_nth add.assoc)
  qed simp
  then show ?thesis by (simp add: load64_def)
qed

subsection \<open>Frames\<close>

text \<open>The quadwords of a frame from its lowest address.\<close>
definition frame_words :: "saved_registers \<Rightarrow> u64 \<Rightarrow> u64 \<Rightarrow> u64 list \<Rightarrow> u64 list" where
  "frame_words r n err tail = [r_rax r, r_rcx r, r_rdx r, r_rbx r, r_rbp r, r_rsi r, r_rdi r, r_r8 r, r_r9 r, r_r10 r, r_r11 r, r_r12 r,
     r_r13 r, r_r14 r, r_r15 r, n, err] @ tail"

definition holds_frame :: "u64 \<Rightarrow> u64 list \<Rightarrow> kernel \<Rightarrow> bool" where
  "holds_frame a ws k \<longleftrightarrow> (\<forall>i < length ws. kload (a + 8 * of_nat i) k = ws ! i)"

lemma holds_resume:
  assumes "holds_frame a (frame_words r n err [rip, cs, rflags, rsp, ss]) k"
  shows "context_switch_to a k = \<lparr>c_regs = r, c_rip = rip, c_cs = cs, c_rflags = rflags, c_rsp = rsp, c_ss = ss\<rparr>"
    "frame_at a k = \<lparr>regs = r, int_no = n, err_code = err, f_rip = rip, f_cs = cs, f_rflags = rflags, f_user_rsp = rsp, f_ss = ss\<rparr>"
proof -
  have "\<forall>i \<in> set [0..<22]. kload (a + 8 * of_nat i) k = frame_words r n err [rip, cs, rflags, rsp, ss] ! i"
    using assms by (simp add: holds_frame_def frame_words_def)
  then have w: "kload a k = r_rax r" "kload (a + 8) k = r_rcx r" "kload (a + 16) k = r_rdx r" "kload (a + 24) k = r_rbx r" "kload (a + 32) k = r_rbp r"
    "kload (a + 40) k = r_rsi r" "kload (a + 48) k = r_rdi r" "kload (a + 56) k = r_r8 r" "kload (a + 64) k = r_r9 r" "kload (a + 72) k = r_r10 r"
    "kload (a + 80) k = r_r11 r" "kload (a + 88) k = r_r12 r" "kload (a + 96) k = r_r13 r" "kload (a + 104) k = r_r14 r" "kload (a + 112) k = r_r15 r"
    "kload (a + 120) k = n" "kload (a + 128) k = err" "kload (a + 136) k = rip" "kload (a + 144) k = cs" "kload (a + 152) k = rflags"
    "kload (a + 160) k = rsp" "kload (a + 168) k = ss"
    by (simp_all add: upt_conv_Cons frame_words_def)
  note w' = w [unfolded add.commute [of a]]
  show "context_switch_to a k = \<lparr>c_regs = r, c_rip = rip, c_cs = cs, c_rflags = rflags, c_rsp = rsp, c_ss = ss\<rparr>"
    by (simp add: context_switch_to_def pop_registers_def iretq_def push_pair w w')
  show "frame_at a k = \<lparr>regs = r, int_no = n, err_code = err, f_rip = rip, f_cs = cs, f_rflags = rflags, f_user_rsp = rsp, f_ss = ss\<rparr>"
    by (simp add: frame_at_def w w')
qed

lemma pushed_frame:
  assumes "aligned8 sp" "length ws < 2 ^ 60" "fold push (rev ws) (sp, k) = (a, k')"
  shows "holds_frame a ws k' \<and> a = sp - 8 * of_nat (length ws)"
proof -
  have f: "a = sp - 8 * of_nat (length ws)" "kload (sp - 8 * of_nat (Suc j)) k' = rev ws ! j" if "j < length ws" for j
    using fold_push [OF assms(1), of "rev ws" k] assms(2,3) that by (auto simp del: of_nat_Suc)
  have "kload (a + 8 * of_nat i) k' = ws ! i" if i: "i < length ws" for i
  proof -
    define j where "j = length ws - Suc i"
    have j: "j < length ws" "length ws = i + Suc j" using i by (simp_all add: j_def)
    have "a + 8 * of_nat i = sp - 8 * of_nat (Suc j)" unfolding f(1) [OF j(1)] j(2) by (simp add: algebra_simps)
    then show ?thesis using f(2) [OF j(1)] i by (simp add: rev_nth j_def del: of_nat_Suc)
  qed
  moreover have "a = sp - 8 * of_nat (length ws)"
    using fold_push [OF assms(1), of "rev ws" k] assms(2,3) by simp
  ultimately show ?thesis by (simp add: holds_frame_def)
qed

lemma written_frame:
  assumes "length ws < 2 ^ 60"
  shows "holds_frame a ws (k\<lparr>k_mem := write_bytes a (qwords ws) m\<rparr>)"
  using load_qwords [OF _ assms] by (simp add: holds_frame_def kload_def)

definition no_regs :: saved_registers where
  "no_regs = \<lparr>r_rax = 0, r_rcx = 0, r_rdx = 0, r_rbx = 0, r_rbp = 0, r_rsi = 0, r_rdi = 0, r_r8 = 0, r_r9 = 0, r_r10 = 0, r_r11 = 0,
     r_r12 = 0, r_r13 = 0, r_r14 = 0, r_r15 = 0\<rparr>"

definition regs_of :: "u64 list \<Rightarrow> saved_registers" where
  "regs_of vs = \<lparr>r_rax = vs ! 0, r_rcx = vs ! 1, r_rdx = vs ! 2, r_rbx = vs ! 3, r_rbp = vs ! 4, r_rsi = vs ! 5, r_rdi = vs ! 6,
     r_r8 = vs ! 7, r_r9 = vs ! 8, r_r10 = vs ! 9, r_r11 = vs ! 10, r_r12 = vs ! 11, r_r13 = vs ! 12, r_r14 = vs ! 13, r_r15 = vs ! 14\<rparr>"

definition user_cpu :: "saved_registers \<Rightarrow> u64 \<Rightarrow> u64 \<Rightarrow> u64 \<Rightarrow> cpu" where
  "user_cpu r rip rflags rsp = \<lparr>c_regs = r, c_rip = rip, c_cs = 0x23, c_rflags = rflags, c_rsp = rsp, c_ss = 0x1B\<rparr>"

lemma frame_words_user:
  "replicate 6 0 @ [i] @ replicate 8 0 @ [0, 0, rip, 0x23, fl, rsp, 0x1B] = frame_words (no_regs\<lparr>r_rdi := i\<rparr>) 0 0 [rip, 0x23, fl, rsp, 0x1B]"
  "[x] @ replicate 14 0 @ [0, 0, rip, 0x23, fl, rsp, 0x1B] = frame_words (no_regs\<lparr>r_rax := x\<rparr>) 0 0 [rip, 0x23, fl, rsp, 0x1B]"
  "replicate 15 0 @ [0, 0, rip, 0x23, fl, rsp, 0x1B] = frame_words no_regs 0 0 [rip, 0x23, fl, rsp, 0x1B]"
  "length vs = 18 \<Longrightarrow> take 15 vs @ [0, 0, rip, 0x23, fl, rsp, 0x1B] = frame_words (regs_of vs) 0 0 [rip, 0x23, fl, rsp, 0x1B]"
proof -
  show "take 15 vs @ [0, 0, rip, 0x23, fl, rsp, 0x1B] = frame_words (regs_of vs) 0 0 [rip, 0x23, fl, rsp, 0x1B]" if "length vs = 18"
  proof -
    have "take 15 vs = map ((!) vs) [0..<15]" using that by (intro nth_equalityI) simp_all
    also have "[0..<15] = [0, 1, 2, 3, 4, 5, 6, 7, 8, 9, 10, 11, 12, 13, 14]" by code_simp
    finally show ?thesis unfolding frame_words_def regs_of_def by simp
  qed
qed (simp_all add: frame_words_def no_regs_def numeral_eq_Suc)

lemma written_resume:
  "case write_frame top (frame_words r 0 0 [rip, 0x23, fl, rsp, 0x1B]) k of (krsp, k') \<Rightarrow> context_switch_to krsp k' = user_cpu r rip fl rsp"
proof -
  have "length (frame_words r 0 0 [rip, 0x23, fl, rsp, 0x1B]) < 2 ^ 60" by (simp add: frame_words_def)
  from holds_resume(1) [OF written_frame [OF this]] show ?thesis unfolding write_frame_def Let_def user_cpu_def by simp
qed

lemma length_exit_frame: "length (k_sigreturn_frame k) = 18 \<Longrightarrow> length (exit_frame rax k) = 22"
  by (simp add: exit_frame_def)



end
