(* ===== verification/Debug_Build.thy ===== *)
theory Debug_Build imports Boot "HOL-Library.Multiset" begin

text \<open>The debug build: the dumps of page tables (\<open>paging.rs\<close>) and of exceptions (\<open>interrupts.rs\<close>), the marker
  lines of the terminal and the timer, and the self tests of fork, of the flat loader and of the provenance arena
  that \<open>kernel_main\<close> runs.  The release build compiles none of it.

  Reading a byte of physical memory through the identity map is a read at that address; the arrays that the tests
  fill with pages are lists that hold 0 from the first failed allocation on.\<close>

definition line :: "string \<Rightarrow> u8 list" where
  "line s = bytes s @ [0x0A]"

definition verdict :: "string \<Rightarrow> bool \<Rightarrow> kernel \<Rightarrow> kernel" where
  "verdict s ok k = serial_write (bytes s @ line (if ok then ''PASS'' else ''FAIL'')) k"

definition hex16 :: "u64 \<Rightarrow> u8 list" where
  "hex16 v = bytes ''0x'' @ fmt_hex_pad 16 (unat v)"

definition dump_bytes :: "u8 list \<Rightarrow> u8 list" where
  "dump_bytes bs = concat (map (\<lambda>b. fmt_hex_pad 2 (unat b)) bs)"

subsection \<open>Page table dumps\<close>

definition debug_dump_physical_if_identity :: "string \<Rightarrow> u64 \<Rightarrow> kernel \<Rightarrow> kernel" where
  "debug_dump_physical_if_identity label phys k =
     (let page = phys AND NOT 0xFFF; intro = bytes ''DBG ELF PHYS: '' @ bytes label @ bytes '' frame='' @ hex16 page in
      if map_option (\<lambda>m. m AND NOT 0xFFF) (translate page k) \<noteq> Some page
      then serial_write (intro @ line '' identity_map=unverified bytes=unavailable'') k
      else serial_write (intro @ bytes '' identity_map=verified bytes='' @
             dump_bytes (map (\<lambda>i. k_mem k (page OR of_nat i)) [0..<16]) @ [0x0A]) k)"

definition walk_line :: "string \<Rightarrow> string \<Rightarrow> u64 \<Rightarrow> kernel \<Rightarrow> kernel" where
  "walk_line label level e k =
     serial_write (bytes ''DBG ELF WALK: '' @ bytes label @ bytes level @ hex16 e @ [0x0A]) k"

definition debug_dump_root_walk :: "string \<Rightarrow> u64 \<Rightarrow> u64 \<Rightarrow> kernel \<Rightarrow> kernel" where
  "debug_dump_root_walk label vaddr pml4 k =
     (case indices vaddr of (i4, i3, i2, i1) \<Rightarrow>
      let e4 = entry pml4 i4 k;
          k = serial_write (bytes ''DBG ELF WALK: '' @ bytes label @ bytes '' root='' @ hex16 pml4 @ bytes '' active_cr3='' @
            hex16 (read_cr3 k) @ bytes '' vaddr='' @ hex16 vaddr @ bytes '' idx='' @ fmt_dec i4 @ bytes ''/'' @ fmt_dec i3 @
            bytes ''/'' @ fmt_dec i2 @ bytes ''/'' @ fmt_dec i1 @ bytes '' PML4E='' @ hex16 e4 @ [0x0A]) k in
      if \<not> present e4 then k
      else let e3 = entry (frame e4) i3 k; k = walk_line label '' PDPTE='' e3 k in
        if \<not> present e3 then k
        else if huge e3 then debug_dump_physical_if_identity label (frame e3 OR (vaddr AND 0x3FFFFFFF)) k
        else let e2 = entry (frame e3) i2 k; k = walk_line label '' PDE='' e2 k in
          if \<not> present e2 then k
          else if huge e2 then debug_dump_physical_if_identity label (frame e2 OR (vaddr AND 0x1FFFFF)) k
          else let e1 = entry (frame e2) i1 k; k = walk_line label '' PTE='' e1 k in
            if \<not> present e1 then k
            else debug_dump_physical_if_identity label (frame e1 OR (vaddr AND 0xFFF)) k)"

definition debug_dump_walk :: "string \<Rightarrow> u64 \<Rightarrow> u64 \<Rightarrow> kernel \<Rightarrow> kernel" where
  "debug_dump_walk label vaddr pml4 k = debug_dump_root_walk label vaddr pml4 k"

text \<open>The sixteen bytes are read through the target root, which may fault past the end of its page.\<close>
definition debug_dump_entry_evidence :: "string \<Rightarrow> u64 \<Rightarrow> u64 \<Rightarrow> kernel \<Rightarrow> kernel option" where
  "debug_dump_entry_evidence label vaddr target k =
     (let active = read_cr3 k;
          k = serial_write (bytes ''DBG ELF ENTRY: '' @ bytes label @ bytes '' vaddr='' @ hex16 vaddr @ bytes '' active_cr3='' @
            hex16 active @ bytes '' target_pml4='' @ hex16 target @ [0x0A]) k;
          k = debug_dump_root_walk ''active-root'' vaddr active k;
          k = debug_dump_root_walk ''target-root'' vaddr target k;
          k = serial_write (bytes ''DBG ELF ENTRY: '' @ bytes label @ bytes '' virtual='') k in
      if translate_in_pml4 (k_mem k) vaddr target = None then Some (serial_write (line ''unmapped'') k)
      else do {
        bs \<leftarrow> user_load vaddr 16 (switch_cr3 target k);
        let k = restore_cr3 active target (serial_write (dump_bytes bs) (switch_cr3 target k));
        Some (serial_write [0x0A] k) })"

definition debug_dump_map_site :: "string \<Rightarrow> u64 \<Rightarrow> u64 \<Rightarrow> u64 \<Rightarrow> u64 \<Rightarrow> kernel \<Rightarrow> kernel option" where
  "debug_dump_map_site label vaddr paddr fl target k =
     debug_dump_entry_evidence label vaddr target
       (serial_write (bytes ''DBG ELF MAP: '' @ bytes label @ bytes '' vaddr='' @ hex16 vaddr @ bytes '' paddr='' @ hex16 paddr @
          bytes '' flags='' @ hex16 fl @ bytes '' active_cr3='' @ hex16 (read_cr3 k) @ bytes '' target_pml4='' @ hex16 target @
          [0x0A]) k)"

subsection \<open>Exceptions, timer and terminal\<close>

definition page_fault_debug :: "u64 \<Rightarrow> interrupt_frame \<Rightarrow> kernel \<Rightarrow> kernel" where
  "page_fault_debug cr2 f k =
     (if int_no f \<noteq> 14 then k
      else let class = (if bit (err_code f) 4 then ''instruction-fetch'' else if bit (err_code f) 1 then ''data-write'' else ''data-read'');
          active = read_cr3 k;
          k = serial_write (bytes ''VIBIX: PF_CLASS: '' @ bytes class @ bytes '' rip_cr2_match='' @
                line (if f_rip f = cr2 then ''yes'' else ''no'')) k;
          k = serial_write (bytes ''DBG PF RAW: error='' @ hex16 (err_code f) @ bytes '' active_cr3='' @ hex16 active @
                bytes '' rip='' @ hex16 (f_rip f) @ bytes '' cr2='' @ hex16 cr2 @ [0x0A]) k
        in debug_dump_walk ''fault active-root entry'' (f_rip f) active k)"

definition KTOP :: u64 where "KTOP = 0x288000"

text \<open>The offsets are printed with their sign and are longer than the field.\<close>
definition stack_line :: "nat \<Rightarrow> u64 \<Rightarrow> u8 list" where
  "stack_line off v = bytes ''VIBIX:   [+'' @ fmt_dec off @ bytes '']: '' @ hex_str v @ [0x0A]"

text \<open>\<open>handler_rsp\<close> is the stack pointer inside the handler, \<open>a\<close> the address of the frame.\<close>
definition exception_debug :: "u64 \<Rightarrow> u64 \<Rightarrow> interrupt_frame \<Rightarrow> kernel \<Rightarrow> u8 list" where
  "exception_debug handler_rsp a f k =
     dump_line ''VIBIX:  U_RSP: '' (f_user_rsp f) @ dump_line ''VIBIX:     SS: '' (f_ss f) @
     dump_line ''VIBIX: HND_RSP: '' handler_rsp @
     line ''VIBIX: iretq frame values from stack:'' @
     concat (map (\<lambda>i. let addr = a + of_nat i * 8 in if addr < 0x288000 then stack_line (i * 8) (kload addr k) else []) [17..<22]) @
     line ''VIBIX: idle page ktop-40 (iretq frame):'' @
     concat (map (\<lambda>i. let addr = KTOP - 40 + of_nat i * 8 in stack_line (unat addr) (kload addr k)) [0..<5]) @
     dump_line ''VIBIX: frame_ptr='' a"

definition interrupt_handler_debug :: "u64 \<Rightarrow> u64 \<Rightarrow> u64 \<Rightarrow> interrupt_frame \<Rightarrow> kernel \<Rightarrow> kernel" where
  "interrupt_handler_debug handler_rsp a cr2 f k =
     (let k = page_fault_debug cr2 f (serial_write (exception_header cr2 f) k)
      in serial_write (exception_debug handler_rsp a f k @ register_dump (regs f)) k)"

definition pit_heartbeat :: "u64 \<Rightarrow> kernel \<Rightarrow> kernel" where
  "pit_heartbeat ticks k =
     (if ticks mod 100 = 0 then serial_write (bytes ''VIBIX: PIT tick #'' @ write_dec (unat ticks) @ [0x0A]) k else k)"

definition debug_marker :: "u64 \<Rightarrow> string \<Rightarrow> u64 \<Rightarrow> u64 \<Rightarrow> u64 \<Rightarrow> kernel \<Rightarrow> kernel" where
  "debug_marker ticks event a b c k =
     serial_write (bytes ''DBG tty: t='' @ fmt_dec (unat ticks) @ bytes '' event='' @ bytes event @ bytes '' a='' @ fmt_dec (unat a) @
       bytes '' b='' @ fmt_dec (unat b) @ bytes '' c='' @ fmt_dec (unat c) @ [0x0A]) k"

subsection \<open>Fork\<close>

text \<open>Pages taken one by one until the array is full or none is left, and given back.\<close>
fun alloc_window :: "nat \<Rightarrow> kernel \<Rightarrow> u64 list \<times> kernel" where
  "alloc_window 0 k = ([], k)"
| "alloc_window (Suc n) k =
     (let (p, k) = page_alloc k in
      if p = 0 then (replicate (Suc n) 0, k) else let (ps, k) = alloc_window n k in (p # ps, k))"

definition free_window :: "u64 list \<Rightarrow> kernel \<Rightarrow> kernel" where
  "free_window ps k = fold (\<lambda>p k. if p \<noteq> 0 then page_free p k else k) ps k"

definition probe_window :: "nat \<Rightarrow> kernel \<Rightarrow> u64 list \<times> kernel" where
  "probe_window n k = (let (ps, k) = alloc_window n k in (ps, free_window ps k))"

definition FIRST :: u64 where "FIRST = 0x02010000"
definition SECOND :: u64 where "SECOND = 0x02011000"

definition free_pages :: "kernel \<Rightarrow> nat" where
  "free_pages k = available_pages (k_pmm k)"

definition root_maps :: "pml4_handle \<Rightarrow> kernel \<Rightarrow> u64 option \<times> u64 option" where
  "root_maps h k = (translate_in_pml4 (k_mem k) FIRST (h_phys h), translate_in_pml4 (k_mem k) SECOND (h_phys h))"

text \<open>The child of the test: a clone of the parent's root, written to and destroyed.\<close>
definition fork_leaf_child :: "u64 \<Rightarrow> pml4_handle \<Rightarrow> bool \<Rightarrow> kernel \<Rightarrow> (bool \<times> kernel) option" where
  "fork_leaf_child saved parent mapped k = do {
     let (first, second) = root_maps parent k;
     (child, k) \<leftarrow> (if mapped then create_pml4 True k else Some (None, k));
     case child of
       None \<Rightarrow> Some (False, write_cr3 (h_phys parent) k)
     | Some child \<Rightarrow> do {
         let (c_first, c_second) = root_maps child k;
         k \<leftarrow> user_store FIRST [0xCC] (write_cr3 (h_phys child) k);
         let k = write_cr3 (h_phys parent) k;
         b \<leftarrow> user_load FIRST 1 k;
         Some (mapped \<and> c_first \<noteq> None \<and> c_second \<noteq> None \<and> c_first \<noteq> first \<and> c_second \<noteq> second \<and> b = [0x11],
           destroy_uncommitted_pml4 child (write_cr3 saved k)) } }"

text \<open>The clone that fails at its second leaf.\<close>
definition fork_leaf_failure :: "pml4_handle \<Rightarrow> u64 option \<times> u64 option \<Rightarrow> bool \<Rightarrow> kernel \<Rightarrow> (bool \<times> kernel) option" where
  "fork_leaf_failure parent maps cleaned k = do {
     let (expected, k) = probe_window 16 (write_cr3 (h_phys parent) k);
     let before = free_pages k;
     (child, k) \<leftarrow> create_pml4_inner True (Some 1) k;
     let after = free_pages k;
     let untouched = (root_maps parent k = maps);
     let (recycled, k) = probe_window 16 k;
     Some (child = None \<and> untouched \<and> 0 \<notin> set expected \<and> 0 \<notin> set recycled \<and> sort expected = sort recycled \<and> cleaned \<and>
       after = before, k) }"

definition test_fork_leaf_isolation :: "kernel \<Rightarrow> kernel option" where
  "test_fork_leaf_isolation k = do {
     let saved = read_cr3 k;
     (parent, k) \<leftarrow> create_pml4 False k;
     case parent of
       None \<Rightarrow> Some (verdict ''PAGING TEST: fork leaf failure '' False (verdict ''PAGING TEST: fork leaf isolation '' False k))
     | Some parent \<Rightarrow> do {
         let (page1, k) = page_alloc (write_cr3 (h_phys parent) k);
         let (page2, k) = page_alloc k;
         let (ok1, k) = (if page1 \<noteq> 0 then try_map_4k_target FIRST page1 PAGE_USER_RW (h_phys parent) k else (False, k));
         let (ok2, k) = (if ok1 \<and> page2 \<noteq> 0 then try_map_4k_target SECOND page2 PAGE_USER_RW (h_phys parent) k else (False, k));
         k \<leftarrow> (if ok1 \<and> ok2 then do { k \<leftarrow> user_store FIRST [0x11] k; user_store SECOND [0x22] k } else Some k);
         let maps = root_maps parent k;
         let before = free_pages k;
         (isolated, k) \<leftarrow> fork_leaf_child saved parent (ok1 \<and> ok2) k;
         let cleaned = (free_pages k = before);
         let k = verdict ''PAGING TEST: scratch success cleanup '' cleaned (verdict ''PAGING TEST: fork leaf isolation '' isolated k);
         (failure_ok, k) \<leftarrow> fork_leaf_failure parent maps cleaned k;
         let k = destroy_uncommitted_pml4 parent (write_cr3 saved (verdict ''PAGING TEST: fork leaf failure '' failure_ok k));
         let k = (if page1 \<noteq> 0 \<and> \<not> ok1 then page_free page1 k else k);
         Some (if page2 \<noteq> 0 \<and> \<not> ok2 then page_free page2 k else k) } }"

subsection \<open>Flat images\<close>

definition FLAT_ROLLBACK_DATA :: "u8 list" where "FLAT_ROLLBACK_DATA = replicate 0x1001 0x90"
definition FLAT_SMALL_DATA :: "u8 list" where "FLAT_SMALL_DATA = [0xCC]"

definition zeros_from :: "nat \<Rightarrow> u64 \<Rightarrow> kernel \<Rightarrow> bool" where
  "zeros_from i page k = list_all (\<lambda>j. k_mem k (page + of_nat j) = 0) [i..<0x1000]"

text \<open>Eight pages filled with a pattern and given back, to be used again by the next image.\<close>
definition seed_stale :: "kernel \<Rightarrow> u64 list \<times> kernel" where
  "seed_stale k = (let (ps, k) = alloc_window 8 k;
       k = fold (\<lambda>p k. if p \<noteq> 0 then k\<lparr>k_mem := fill_page p 0xA5 (k_mem k)\<rparr> else k) ps k
     in (ps, free_window ps k))"

definition small_binary_ok :: "u64 list \<Rightarrow> kernel \<Rightarrow> (bool \<times> kernel) option" where
  "small_binary_ok stale k = do {
     (r, k) \<leftarrow> build_flat_image FLAT_SMALL_DATA k;
     case r of
       Inl _ \<Rightarrow> Some (False, k)
     | Inr im \<Rightarrow> do {
         let at = (\<lambda>va. translate_in_pml4 (k_mem k) va (h_phys (fi_root im)));
         let ok = (case (at USER_CODE_ADDR, at (USER_CODE_ADDR + 0x1000)) of
             (Some first, Some second) \<Rightarrow>
               0 \<notin> set stale \<and> (first \<in> set stale \<or> second \<in> set stale) \<and> at (fi_stack_low im) \<noteq> None \<and>
               fi_user_rsp im = fi_stack_low im + 0x1000 \<and>
               k_mem k first = hd FLAT_SMALL_DATA \<and> zeros_from 1 first k \<and> zeros_from 0 second k
           | _ \<Rightarrow> False);
         Some (ok, destroy_uncommitted_pml4 (fi_root im) k) } }"

text \<open>The size of the oversized image is refused before its bytes are read, so any bytes do.\<close>
definition test_flat_image_failures :: "kernel \<Rightarrow> (bool \<times> kernel) option" where
  "test_flat_image_failures k = do {
     let saved = read_cr3 k;
     let old_mapping = translate_in_pml4 (k_mem k) 0x1000 saved;
     let (stale, k) = seed_stale k;
     (small_ok, k) \<leftarrow> small_binary_ok stale k;
     (big, k) \<leftarrow> build_flat_image (replicate (unat (FLAT_USER_LIMIT - USER_CODE_ADDR)) 0x90) k;
     let oversize_ok = (big = Inl Oversize);
     let (expected, k) = probe_window 32 k;
     (failed, k) \<leftarrow> build_flat_image_inner FLAT_ROLLBACK_DATA (Some 1) k;
     let old_ok = (read_cr3 k = saved \<and> translate_in_pml4 (k_mem k) 0x1000 saved = old_mapping \<and> old_mapping \<noteq> None);
     let (recycled, k) = probe_window 32 k;
     let reuse_ok = (0 \<notin> set expected \<and> 0 \<notin> set recycled \<and> sort expected = sort recycled);
     let failure_ok = (failed = Inl FlatOom \<and> old_ok \<and> reuse_ok);
     let k = verdict ''FLAT TEST: allocation rollback '' failure_ok k;
     let k = verdict ''FLAT TEST: oversize rejection '' oversize_ok k;
     let k = verdict ''FLAT TEST: old-root no-overwrite '' old_ok k;
     let k = verdict ''FLAT TEST: small-binary zero-tail/no-stale copy '' small_ok k;
     Some (failure_ok \<and> oversize_ok \<and> small_ok, k) }"

subsection \<open>The provenance arena\<close>

definition lp_len :: "loaded_pages \<Rightarrow> nat" where
  "lp_len lp = length (concat (map snd lp))"

text \<open>The release of the tracker with its two lines.\<close>
definition lp_release_debug :: "loaded_pages \<Rightarrow> kernel \<Rightarrow> kernel" where
  "lp_release_debug lp k =
     serial_write (line ''DBG ELF META: release complete'')
       (lp_release lp (serial_write (bytes ''DBG ELF META: release pages='' @ fmt_dec (lp_len lp) @ [0x0A]) k))"

text \<open>Slots reserved for the given pages until a reservation fails; a slot that a test leaves unwritten is never
  read, and is the pair of zeros here.\<close>
fun arena_fill :: "(u64 \<times> u64) list \<Rightarrow> loaded_pages \<Rightarrow> kernel \<Rightarrow> bool \<times> loaded_pages \<times> kernel" where
  "arena_fill [] lp k = (True, lp, k)"
| "arena_fill ((va, pa) # ps) lp k =
     (case lp_reserve lp k of
        (Inl _, k) \<Rightarrow> (False, lp, k)
      | (Inr lp, k) \<Rightarrow> arena_fill ps (lp_record va pa lp) k)"

definition arena_page :: "nat \<Rightarrow> u64 \<times> u64" where
  "arena_page i = (0x02000000 + of_nat i * 0x1000, 0x00400000 + of_nat i * 0x1000)"

text \<open>The messages end in a backslash and an \<open>n\<close>.\<close>
definition test_provenance_arena :: "kernel \<Rightarrow> kernel" where
  "test_provenance_arena k =
     (let (ok1, lp, k) = arena_fill (map arena_page [0..<257]) [] k;
          ok = (ok1 \<and> lp_len lp = 257 \<and> lp_find (fst (arena_page 0)) lp = Some (snd (arena_page 0)) \<and>
            lp_find (fst (arena_page 256)) lp = Some (snd (arena_page 256)));
          (ok2, lp, k) = arena_fill (replicate 257 (0, 0)) [] (lp_release_debug lp k);
          ok = (ok \<and> ok2 \<and> lp_len lp = 257)
      in serial_write (bytes (if ok then ''ELF: provenance arena >256 pages and cleanup OK.''
           else ''ELF: provenance arena regression FAILED.'') @ [0x5C, 0x6E]) (lp_release_debug lp k))"

definition metadata_is_reusable :: "kernel \<Rightarrow> bool \<times> kernel" where
  "metadata_is_reusable k =
     (case arena_fill (replicate (PROVENANCE_CHUNK_CAP * PROVENANCE_CHUNK_COUNT) (0, 0)) [] k of
        (ok, lp, k) \<Rightarrow> (ok, lp_release_debug lp k))"

subsection \<open>The ELF loader with fault injection\<close>

text \<open>The controls of one load; the tests suppress the traces.  \<open>mapped\<close> has the first four mapped pages.\<close>
record injection =
  pmm_fail_after :: "nat option"
  metadata_fail_after :: "nat option"
  pmm_attempts :: nat
  metadata_attempts :: nat
  mapped :: "(u64 \<times> u64) list"
  mapped_count :: nat

definition disabled :: injection where
  "disabled = \<lparr>pmm_fail_after = None, metadata_fail_after = None, pmm_attempts = 0, metadata_attempts = 0,
     mapped = [], mapped_count = 0\<rparr>"

definition should_fail_pmm :: "injection \<Rightarrow> bool \<times> injection" where
  "should_fail_pmm j = (pmm_fail_after j = Some (pmm_attempts j), j\<lparr>pmm_attempts := pmm_attempts j + 1\<rparr>)"

definition should_fail_metadata :: "injection \<Rightarrow> bool \<times> injection" where
  "should_fail_metadata j = (metadata_fail_after j = Some (metadata_attempts j), j\<lparr>metadata_attempts := metadata_attempts j + 1\<rparr>)"

definition record_mapping :: "u64 \<Rightarrow> u64 \<Rightarrow> injection \<Rightarrow> injection" where
  "record_mapping va pa j =
     j\<lparr>mapped := (if mapped_count j < 4 then mapped j @ [(va, pa)] else mapped j), mapped_count := mapped_count j + 1\<rparr>"

definition fail_load :: "elf_error \<Rightarrow> loaded_pages \<Rightarrow> u64 \<Rightarrow> injection \<Rightarrow> kernel \<Rightarrow> (elf_error + 'a) \<times> injection \<times> kernel" where
  "fail_load e lp pml4 j k = (Inl e, j, lp_release_debug lp (lp_rollback lp pml4 k))"

definition load_page_inj :: "u64 \<Rightarrow> u64 \<Rightarrow> loaded_pages \<Rightarrow> injection \<Rightarrow> kernel \<Rightarrow>
    ((elf_error + loaded_pages) \<times> injection \<times> kernel) option" where
  "load_page_inj pml4 va lp j k =
     (if lp_find va lp \<noteq> None then Some (Inr lp, j, k)
      else if translate_in_pml4 (k_mem k) va pml4 \<noteq> None then Some (fail_load ElfCollision lp pml4 j k)
      else let (no_slot, j) = should_fail_metadata j in
        case (if no_slot then (Inl MetadataOom, k) else lp_reserve lp k) of
          (Inl e, k) \<Rightarrow> Some (fail_load e lp pml4 j k)
        | (Inr lp, k) \<Rightarrow>
          let (no_page, j) = should_fail_pmm j; (pa, k) = (if no_page then (0, k) else page_alloc k) in
          if pa = 0 then Some (fail_load ElfOom lp pml4 j k)
          else (case try_map_4k_target va pa PAGE_USER_RW pml4 k of
            (False, k) \<Rightarrow> Some (fail_load ElfOom lp pml4 j (page_free pa k))
          | (True, k) \<Rightarrow> do {
              k \<leftarrow> target_store pml4 va (replicate 4096 0) k;
              Some (Inr (lp_record va pa lp), record_mapping va pa j, k) }))"

function load_pages_inj :: "u64 \<Rightarrow> u64 \<Rightarrow> u64 \<Rightarrow> loaded_pages \<Rightarrow> injection \<Rightarrow> kernel \<Rightarrow>
    ((elf_error + loaded_pages) \<times> injection \<times> kernel) option" where
  "load_pages_inj pml4 va page_end lp j k =
     (if va < page_end then do {
        (r, j, k) \<leftarrow> load_page_inj pml4 va lp j k;
        case r of
          Inl e \<Rightarrow> Some (Inl e, j, k)
        | Inr lp \<Rightarrow>
            if va + 4096 < va then Some (fail_load Truncated lp pml4 j k)
            else load_pages_inj pml4 (va + 4096) page_end lp j k }
      else Some (Inr lp, j, k))"
  by pat_completeness auto
termination
proof (relation "measure (\<lambda>(_, va, e, _). unat e - unat va)", goal_cases)
  case 1
  show ?case by simp
next
  case (2 pml4 va e)
  then have "unat va < unat e" "unat va \<le> unat (va + 4096)" "va + 4096 \<noteq> va"
    by (simp_all add: word_less_nat_alt word_le_nat_alt)
  then show ?case by (simp add: word_unat_eq_iff)
qed

declare load_pages_inj.simps [simp del]

definition load_segment_inj :: "u8 list \<Rightarrow> u64 \<Rightarrow> elf_phdr \<Rightarrow> loaded_pages \<Rightarrow> injection \<Rightarrow> kernel \<Rightarrow>
    ((elf_error + loaded_pages) \<times> injection \<times> kernel) option" where
  "load_segment_inj data pml4 ph lp j k =
     (if ph_type ph \<noteq> PT_LOAD then Some (Inr lp, j, k)
      else case checked_add (ph_vaddr ph) (ph_memsz ph) of
        None \<Rightarrow> Some (fail_load Truncated lp pml4 j k)
      | Some seg_end \<Rightarrow>
        (case checked_add seg_end 0xFFF of
          None \<Rightarrow> Some (fail_load Truncated lp pml4 j k)
        | Some up \<Rightarrow> do {
            (r, j, k) \<leftarrow> load_pages_inj pml4 (page_down (ph_vaddr ph)) (page_down up) lp j k;
            case r of
              Inl e \<Rightarrow> Some (Inl e, j, k)
            | Inr lp \<Rightarrow>
                if ph_filesz ph > 0 then
                  (case checked_add (ph_offset ph) (ph_filesz ph) of
                     None \<Rightarrow> Some (fail_load Truncated lp pml4 j k)
                   | Some src_end \<Rightarrow>
                       if unat src_end > length data then Some (fail_load Truncated lp pml4 j k)
                       else do {
                         let copy_len = min (unat (ph_filesz ph)) (unat (ph_memsz ph));
                         k \<leftarrow> target_store pml4 (ph_vaddr ph) (field data (unat (ph_offset ph)) copy_len) k;
                         Some (Inr lp, j, k) })
                else Some (Inr lp, j, k) }))"

fun load_segments_inj :: "u8 list \<Rightarrow> elf_ehdr \<Rightarrow> u64 \<Rightarrow> nat list \<Rightarrow> loaded_pages \<Rightarrow> injection \<Rightarrow> kernel \<Rightarrow>
    ((elf_error + loaded_pages) \<times> injection \<times> kernel) option" where
  "load_segments_inj data h pml4 [] lp j k = Some (Inr lp, j, k)"
| "load_segments_inj data h pml4 (i # is) lp j k =
     (if phdr_offset h i + PHDR_SIZE > length data then Some (fail_load Truncated lp pml4 j k)
      else do {
        (r, j, k) \<leftarrow> load_segment_inj data pml4 (phdr_at data (phdr_offset h i)) lp j k;
        case r of
          Inl e \<Rightarrow> Some (Inl e, j, k)
        | Inr lp \<Rightarrow> load_segments_inj data h pml4 is lp j k })"

definition load_with_injection :: "u8 list \<Rightarrow> u64 \<Rightarrow> injection \<Rightarrow> kernel \<Rightarrow> ((elf_error + u64) \<times> injection \<times> kernel) option" where
  "load_with_injection data pml4 j k =
     (case validate_elf data of
        Some e \<Rightarrow> Some (Inl e, j, k)
      | None \<Rightarrow> do {
          let h = ehdr_of data;
          (r, j, k) \<leftarrow> load_segments_inj data h pml4 [0..<unat (e_phnum h)] [] j k;
          case r of
            Inl e \<Rightarrow> Some (Inl e, j, k)
          | Inr lp \<Rightarrow> Some (Inr (e_entry h), j, lp_release_debug lp k) })"

subsection \<open>The roll back tests\<close>

definition ROLLBACK_TEST_BASE :: u64 where "ROLLBACK_TEST_BASE = 0x03000000"
definition ROLLBACK_TEST_INHERITED :: u64 where "ROLLBACK_TEST_INHERITED = ROLLBACK_TEST_BASE + 0x3000"

definition put_at :: "nat \<Rightarrow> u8 list \<Rightarrow> u8 list \<Rightarrow> u8 list" where
  "put_at off bs img = take off img @ bs @ drop (off + length bs) img"

definition put_phdr :: "nat \<Rightarrow> u64 \<Rightarrow> u64 \<Rightarrow> u8 list \<Rightarrow> u8 list" where
  "put_phdr at off va img =
     put_at (at + 40) (le_bytes 8 (0x1000 :: u64)) (put_at (at + 32) (le_bytes 8 (1 :: u64))
       (put_at (at + 16) (le_bytes 8 va) (put_at (at + 8) (le_bytes 8 off)
         (put_at (at + 4) (le_bytes 4 (5 :: u32)) (put_at at (le_bytes 4 PT_LOAD) img)))))"

definition rollback_header :: "u8 list \<Rightarrow> u8 list" where
  "rollback_header img =
     put_at 56 (le_bytes 2 (2 :: u16)) (put_at 54 (le_bytes 2 (56 :: u16)) (put_at 52 (le_bytes 2 (64 :: u16))
       (put_at 32 (le_bytes 8 (64 :: u64)) (put_at 24 (le_bytes 8 ROLLBACK_TEST_BASE) (put_at 20 (le_bytes 4 (1 :: u32))
         (put_at 18 (le_bytes 2 EM_X86_64) (put_at 16 (le_bytes 2 ET_EXEC)
           (put_at 0 [0x7F, 0x45, 0x4C, 0x46, ELFCLASS64, ELFDATA2LSB, 1, 0, 0, 0, 0, 0, 0, 0, 0, 0] img))))))))"

definition rollback_elf :: "bool \<Rightarrow> u8 list" where
  "rollback_elf truncated =
     put_at 0x1000 [0x90, 0x90]
       (put_phdr (64 + 56) (if truncated then 0x1008 else 0x1001) (ROLLBACK_TEST_BASE + 0x1000)
         (put_phdr 64 0x1000 ROLLBACK_TEST_BASE (rollback_header (replicate 0x1008 0))))"

text \<open>The image is on the kernel heap; the tests see its address and its bytes.\<close>
definition build_rollback_elf :: "bool \<Rightarrow> kernel \<Rightarrow> ((u64 \<times> u8 list) option \<times> kernel) option" where
  "build_rollback_elf truncated k = do {
     (p, k) \<leftarrow> k_malloc 0x1008 k;
     Some (if p = 0 then None else Some (p, rollback_elf truncated), k) }"

fun error_kind :: "elf_error \<Rightarrow> u8" where
  "error_kind Truncated = 1"
| "error_kind ElfOom = 2"
| "error_kind MetadataOom = 3"
| "error_kind _ = 0"

text \<open>Each page taken matches one recorded frame not matched before.\<close>
definition frames_are_reusable :: "injection \<Rightarrow> kernel \<Rightarrow> bool \<times> kernel" where
  "frames_are_reusable j k =
     (let (actual, k) = probe_window (min (mapped_count j) 4) k
      in (0 \<notin> set actual \<and> mset actual = mset (map snd (mapped j)), k))"

definition rollback_detail :: "string \<Rightarrow> (string \<times> bool) list \<Rightarrow> u8 list" where
  "rollback_detail label flags =
     bytes ''DBG ELF TEST: '' @ bytes label @
     concat (map (\<lambda>(n, b). bytes '' '' @ bytes n @ bytes ''='' @ bytes (if b then ''true'' else ''false'')) flags) @ [0x0A]"

text \<open>The interrupt flag is not part of the state: the guards of the loader restore it, so the test of the flag
  holds.\<close>
definition run_rollback_case :: "string \<Rightarrow> u8 list \<Rightarrow> u8 \<Rightarrow> injection \<Rightarrow> u64 \<Rightarrow> u64 \<Rightarrow> kernel \<Rightarrow> (bool \<times> kernel) option" where
  "run_rollback_case label img expected j pml4 inherited k = do {
     let k = serial_write (bytes ''ELF TEST: '' @ bytes label @ line '' begin'') k;
     let saved = read_cr3 k;
     (r, j, k) \<leftarrow> load_with_injection img pml4 j k;
     let error_ok = (case r of Inl e \<Rightarrow> error_kind e = expected | Inr _ \<Rightarrow> False);
     let cr3_ok = (read_cr3 k = saved);
     let maps_ok = list_all (\<lambda>(va, _). translate_in_pml4 (k_mem k) va pml4 = None) (mapped j);
     let inherited_ok = (translate_in_pml4 (k_mem k) ROLLBACK_TEST_INHERITED pml4 = Some inherited);
     let (frames_ok, k) = frames_are_reusable j k;
     let (metadata_ok, k) = metadata_is_reusable k;
     let ok = (error_ok \<and> maps_ok \<and> inherited_ok \<and> frames_ok \<and> metadata_ok \<and> cr3_ok);
     let k = serial_write (bytes ''ELF TEST: '' @ bytes label @ line (if ok then '' rollback PASS'' else '' rollback FAIL'')) k;
     Some (ok, if ok then k else serial_write (rollback_detail label
       [(''error'', error_ok), (''maps'', maps_ok), (''inherited'', inherited_ok), (''frames'', frames_ok),
        (''metadata'', metadata_ok), (''cr3'', cr3_ok), (''if'', True)]) k) }"

definition drop_inherited :: "kernel \<Rightarrow> bool \<times> kernel" where
  "drop_inherited k = (case unmap_and_free_empty ROLLBACK_TEST_INHERITED k of
     (Some e, k) \<Rightarrow> (True, page_free (e AND 0x000FFFFFFFFFF000) k) | (None, k) \<Rightarrow> (False, k))"

text \<open>The three cases; the outer option of the result is a fixture that could not be allocated.\<close>
definition rollback_cases :: "u64 \<Rightarrow> u64 \<Rightarrow> kernel \<Rightarrow> (bool option \<times> kernel) option" where
  "rollback_cases pml4 inherited k = do {
     (im, k) \<leftarrow> build_rollback_elf True k;
     case im of
       None \<Rightarrow> Some (None, snd (drop_inherited (serial_write (line ''ELF TEST: rollback fixture allocation FAIL'') k)))
     | Some (p, img) \<Rightarrow> do {
         let k = serial_write (line ''ELF TEST: rollback fixture truncated ready'') k;
         (ok1, k) \<leftarrow> run_rollback_case ''truncated-later-segment'' img 1 disabled pml4 inherited k;
         k \<leftarrow> k_free p k;
         (im, k) \<leftarrow> build_rollback_elf False k;
         case im of
           None \<Rightarrow> Some (None, serial_write (line ''ELF TEST: rollback fixture allocation FAIL'') (snd (drop_inherited k)))
         | Some (p, img) \<Rightarrow> do {
             let k = serial_write (line ''ELF TEST: rollback fixture valid ready'') k;
             (ok2, k) \<leftarrow> run_rollback_case ''pmm-exhaustion'' img 2 (disabled\<lparr>pmm_fail_after := Some 1\<rparr>) pml4 inherited k;
             (ok3, k) \<leftarrow> run_rollback_case ''metadata-exhaustion'' img 3 (disabled\<lparr>metadata_fail_after := Some 1\<rparr>) pml4 inherited k;
             k \<leftarrow> k_free p k;
             let (dropped, k) = drop_inherited k;
             let ok = (ok1 \<and> ok2 \<and> ok3 \<and> dropped);
             Some (Some ok, serial_write (line (if ok then ''ELF TEST: rollback suite PASS'' else ''ELF TEST: rollback suite FAIL'')) k) } } }"

text \<open>The stack of the image with the hook before page \<open>i\<close>: the error and the pages mapped so far.\<close>
fun map_stack_failing :: "nat \<Rightarrow> nat \<Rightarrow> nat \<Rightarrow> u64 \<Rightarrow> u64 \<Rightarrow> kernel \<Rightarrow> (elf_error option \<times> nat) \<times> kernel" where
  "map_stack_failing fail_after i 0 va pml4 k = ((None, i), k)"
| "map_stack_failing fail_after i (Suc n) va pml4 k =
     (if i = fail_after then ((Some ElfOom, i), k)
      else if translate_in_pml4 (k_mem k) va pml4 \<noteq> None then ((Some ElfCollision, i), k)
      else let (pa, k) = page_alloc k in
        if pa = 0 then ((Some ElfOom, i), k)
        else (case try_map_4k_target va pa PAGE_USER_RW pml4 k of
          (False, k) \<Rightarrow> ((Some ElfOom, i), page_free pa k)
        | (True, k) \<Rightarrow> map_stack_failing fail_after (Suc i) n (va - 0x1000) pml4 k))"

definition build_exec_image_with_stack_failure :: "u8 list \<Rightarrow> nat \<Rightarrow> kernel \<Rightarrow> ((elf_error \<times> nat + image) \<times> kernel) option" where
  "build_exec_image_with_stack_failure data fail_after k = do {
     (root, k) \<leftarrow> create_pml4 False k;
     case root of
       None \<Rightarrow> Some (Inl (ElfOom, 0), k)
     | Some root \<Rightarrow> do {
         (r, j, k) \<leftarrow> load_with_injection data (h_phys root) disabled k;
         case r of
           Inl e \<Rightarrow> Some (Inl (e, 0), destroy_uncommitted_pml4 root k)
         | Inr ent \<Rightarrow>
             (case map_stack_failing fail_after 0 ELF_STACK_PAGES ELF_STACK_TOP_PAGE (h_phys root) k of
                ((Some e, n), k) \<Rightarrow> Some (Inl (e, n), destroy_uncommitted_pml4 root k)
              | ((None, n), k) \<Rightarrow> Some (Inr \<lparr>im_root = root, im_entry = ent,
                    im_user_rsp = ELF_STACK_TOP_PAGE + 0x1000, im_stack_low = ELF_STACK_LOW\<rparr>, k)) } }"

definition stack_rollback_test :: "kernel \<Rightarrow> (bool \<times> kernel) option" where
  "stack_rollback_test k = do {
     let (expected, k) = probe_window 64 k;
     (im, k) \<leftarrow> build_rollback_elf False k;
     let old = read_cr3 k;
     let old_mapping = translate_in_pml4 (k_mem k) ROLLBACK_TEST_INHERITED old;
     (r, k) \<leftarrow> (case im of
         None \<Rightarrow> Some (Inl (ElfOom, 0), k)
       | Some (p, img) \<Rightarrow> do {
           (r, k) \<leftarrow> build_exec_image_with_stack_failure img 1 k;
           k \<leftarrow> k_free p k;
           Some (r, k) });
     let (recycled, k) = probe_window 64 k;
     let ok = (r = Inl (ElfOom, 1) \<and> read_cr3 k = old \<and>
       translate_in_pml4 (k_mem k) ROLLBACK_TEST_INHERITED old = old_mapping \<and>
       0 \<notin> set expected \<and> 0 \<notin> set recycled \<and> sort expected = sort recycled);
     Some (ok, verdict ''ELF TEST: stack-allocation rollback '' ok k) }"

definition test_provenance_failures :: "kernel \<Rightarrow> (bool \<times> kernel) option" where
  "test_provenance_failures k = do {
     let k = serial_write (line ''ELF TEST: rollback setup begin'') k;
     let pml4 = read_cr3 k;
     let before = translate_in_pml4 (k_mem k) ROLLBACK_TEST_INHERITED pml4;
     let (page, k) = page_alloc k;
     if page = 0 \<or> before \<noteq> None
     then do {
       let k = serial_write (line ''ELF TEST: setup rollback FAIL'') k;
       Some (False, if page \<noteq> 0 then page_free page k else k) }
     else do {
       k \<leftarrow> map_4k ROLLBACK_TEST_INHERITED page PAGE_USER_RW k;
       let k = serial_write (line ''ELF TEST: rollback setup ready'') k;
       (r, k) \<leftarrow> rollback_cases pml4 page k;
       case r of
         None \<Rightarrow> Some (False, k)
       | Some ok \<Rightarrow> do { (hook_ok, k) \<leftarrow> stack_rollback_test k; Some (ok \<and> hook_ok, k) } } }"

text \<open>The two places of \<open>kernel_main\<close> that run the tests: after the identity map is extended, and after \<open>vfs_init\<close>.\<close>
definition debug_early_tests :: "kernel \<Rightarrow> kernel option" where
  "debug_early_tests k = map_option test_provenance_arena (test_fork_leaf_isolation k)"

definition debug_late_tests :: "kernel \<Rightarrow> kernel option" where
  "debug_late_tests k = do {
     (elf_ok, k) \<leftarrow> test_provenance_failures k;
     (flat_ok, k) \<leftarrow> test_flat_image_failures k;
     Some (verdict ''ELF TEST: rollback final '' (elf_ok \<and> flat_ok) k) }"

end
