(* ===== verification/Arena_Props.thy ===== *)
theory Arena_Props imports Debug_Build begin

text \<open>The provenance arena of the ELF loader: reservations succeed while the pool has slots, pages are recorded in
  order, releasing a tracker restores the pool, and so the arena test of the debug build passes.\<close>

definition free_chunks :: "kernel \<Rightarrow> nat" where
  "free_chunks k = card {i. i < PROVENANCE_CHUNK_COUNT \<and> bit (k_prov_mask k) i}"

text \<open>The slots a tracker can still reserve, and the pool once it is released.\<close>
definition slots_left :: "loaded_pages \<Rightarrow> kernel \<Rightarrow> nat" where
  "slots_left lp k = PROVENANCE_CHUNK_CAP * free_chunks k + (if lp = [] then 0 else PROVENANCE_CHUNK_CAP - length (snd (last lp)))"

definition lp_ok :: "loaded_pages \<Rightarrow> bool" where
  "lp_ok lp \<longleftrightarrow> lp = [] \<or> length (snd (last lp)) \<le> PROVENANCE_CHUNK_CAP"

lemma or_bits: "bit (fold (\<lambda>(i, _) w. w OR push_bit i (1 :: u64)) lp w) n \<longleftrightarrow> n < 64 \<and> (bit w n \<or> n \<in> fst ` set lp)"
  by (induction lp arbitrary: w) (auto simp: bit_or_iff bit_exp_iff dest: bit_imp_le_length)

lemma release_mask: "k_prov_mask (lp_release lp k) = fold (\<lambda>(i, _) w. w OR push_bit i 1) lp (k_prov_mask k)"
  unfolding lp_release_def by (induction lp arbitrary: k) (simp_all add: case_prod_beta)

lemma mask_bits: "bit (k_prov_mask (lp_release lp k)) n \<longleftrightarrow> n < 64 \<and> (bit (k_prov_mask k) n \<or> n \<in> fst ` set lp)"
  unfolding release_mask by (rule or_bits)

lemma release_only_mask: "lp_release lp k = k\<lparr>k_prov_mask := k_prov_mask (lp_release lp k)\<rparr>"
proof (induction lp arbitrary: k)
  case (Cons c lp)
  obtain i ps where c: "c = (i, ps)" by force
  have "lp_release (c # lp) k = lp_release lp (k\<lparr>k_prov_mask := k_prov_mask k OR push_bit i 1\<rparr>)"
    by (simp add: lp_release_def c)
  then show ?case using Cons.IH [of "k\<lparr>k_prov_mask := k_prov_mask k OR push_bit i 1\<rparr>"] by simp
qed (simp add: lp_release_def)

lemma take_chunk:
  assumes "i < 64" "bit (k_prov_mask k) i" "k' = k\<lparr>k_prov_mask := k_prov_mask k AND NOT (push_bit i 1)\<rparr>"
  shows "lp_release (lp @ [(i, [])]) k' = lp_release lp k" "Suc (free_chunks k') = free_chunks k"
proof -
  have b: "bit (k_prov_mask k') n \<longleftrightarrow> bit (k_prov_mask k) n \<and> n \<noteq> i" for n
    using assms by (auto simp: bit_and_iff bit_not_iff bit_exp_iff dest: bit_imp_le_length)
  have "k_prov_mask (lp_release (lp @ [(i, [])]) k') = k_prov_mask (lp_release lp k)"
    by (rule bit_eqI) (use assms(1,2) in \<open>auto simp: mask_bits b\<close>)
  then show "lp_release (lp @ [(i, [])]) k' = lp_release lp k"
    by (subst (1 2) release_only_mask) (simp add: assms(3))
  have "{n. n < PROVENANCE_CHUNK_COUNT \<and> bit (k_prov_mask k) n} = insert i {n. n < PROVENANCE_CHUNK_COUNT \<and> bit (k_prov_mask k') n}"
    using assms(1,2) by (auto simp: b PROVENANCE_CHUNK_COUNT_def)
  then show "Suc (free_chunks k') = free_chunks k" unfolding free_chunks_def by (simp add: b)
qed

text \<open>A reservation keeps the pages, the pool once the tracker is released, and the slots that are left.\<close>
lemma reserve_step:
  assumes "lp_reserve lp k = (Inr lp', k')" "lp_ok lp"
  shows "concat (map snd lp') = concat (map snd lp)" "lp' \<noteq> [] \<and> length (snd (last lp')) < PROVENANCE_CHUNK_CAP"
    "lp_release lp' k' = lp_release lp k" "slots_left lp' k' = slots_left lp k"
proof -
  have "concat (map snd lp') = concat (map snd lp) \<and> lp' \<noteq> [] \<and> length (snd (last lp')) < PROVENANCE_CHUNK_CAP \<and>
    lp_release lp' k' = lp_release lp k \<and> slots_left lp' k' = slots_left lp k"
  proof (cases "lp = [] \<or> length (snd (last lp)) = PROVENANCE_CHUNK_CAP")
    case True
    then obtain i where i: "find (bit (k_prov_mask k)) [0..<PROVENANCE_CHUNK_COUNT] = Some i"
      and lp': "lp' = lp @ [(i, [])]" and k': "k' = k\<lparr>k_prov_mask := k_prov_mask k AND NOT (push_bit i 1)\<rparr>"
      using assms(1) unfolding lp_reserve_def by (simp split: option.splits)
    have "i < 64" "bit (k_prov_mask k) i" using i by (auto simp: find_Some_iff PROVENANCE_CHUNK_COUNT_def)
    note t = take_chunk [OF this k']
    show ?thesis using True t(1) t(2) [symmetric] by (auto simp: lp' slots_left_def PROVENANCE_CHUNK_CAP_def)
  qed (use assms in \<open>auto simp: lp_reserve_def lp_ok_def\<close>)
  then show "concat (map snd lp') = concat (map snd lp)" "lp' \<noteq> [] \<and> length (snd (last lp')) < PROVENANCE_CHUNK_CAP"
    "lp_release lp' k' = lp_release lp k" "slots_left lp' k' = slots_left lp k" by blast+
qed

lemma reserve_fails:
  assumes "lp_reserve lp k = (Inl e, k')"
  shows "slots_left lp k = 0"
proof -
  have "(lp = [] \<or> length (snd (last lp)) = PROVENANCE_CHUNK_CAP) \<and> find (bit (k_prov_mask k)) [0..<PROVENANCE_CHUNK_COUNT] = None"
    using assms by (auto simp: lp_reserve_def split: if_splits option.splits)
  then show ?thesis by (auto simp: slots_left_def free_chunks_def find_None_iff)
qed

lemma record_step:
  assumes "lp \<noteq> [] \<and> length (snd (last lp)) < PROVENANCE_CHUNK_CAP"
  shows "concat (map snd (lp_record va pa lp)) = concat (map snd lp) @ [(va, pa)]" "lp_ok (lp_record va pa lp)"
    "lp_release (lp_record va pa lp) k = lp_release lp k" "Suc (slots_left (lp_record va pa lp) k) = slots_left lp k"
proof -
  obtain lp0 i ps where lp: "lp = lp0 @ [(i, ps)]" using assms by (metis append_butlast_last_id surj_pair)
  then show "concat (map snd (lp_record va pa lp)) = concat (map snd lp) @ [(va, pa)]" "lp_ok (lp_record va pa lp)"
    "lp_release (lp_record va pa lp) k = lp_release lp k" "Suc (slots_left (lp_record va pa lp) k) = slots_left lp k"
    using assms by (auto simp: lp_record_def lp_ok_def slots_left_def lp_release_def)
qed

text \<open>Filling the arena succeeds while there are slots, records the pages in order and leaves the pool to be restored.\<close>
lemma arena_fill_ok:
  assumes "length ps \<le> slots_left lp k" "lp_ok lp"
  shows "\<exists>lp' k'. arena_fill ps lp k = (True, lp', k') \<and> concat (map snd lp') = concat (map snd lp) @ ps \<and>
    lp_release lp' k' = lp_release lp k"
  using assms
proof (induction ps arbitrary: lp k)
  case (Cons p ps)
  obtain va pa where p: "p = (va, pa)" by force
  obtain x k1 where x: "lp_reserve lp k = (x, k1)" by force
  then obtain lp1 where lp1: "x = Inr lp1" using Cons.prems(1) reserve_fails [of lp k] by (cases x) auto
  note r = reserve_step [OF x [unfolded lp1] Cons.prems(2)]
  note c = record_step [OF r(2)]
  have "length ps \<le> slots_left (lp_record va pa lp1) k1" using Cons.prems(1) c(4) [of va pa k1] r(4) by simp
  from Cons.IH [OF this c(2)] show ?case by (simp add: p x lp1 c(1,3) r(1,3))
qed simp

lemma find_distinct:
  assumes "distinct (map fst ps)" "(va, pa) \<in> set ps"
  shows "map_option snd (find (\<lambda>p. fst p = va) ps) = Some pa"
  using assms by (induction ps) (auto simp: image_iff)

lemma arena_pages_distinct: "distinct (map fst (map arena_page [0..<257]))"
proof -
  have "inj_on (fst \<circ> arena_page) {0..<257}"
  proof (rule inj_onI)
    fix i j :: nat
    assume "i \<in> {0..<257}" "j \<in> {0..<257}" "(fst \<circ> arena_page) i = (fst \<circ> arena_page) j"
    then have e: "of_nat (i * 0x1000) = (of_nat (j * 0x1000) :: u64)" and l: "i < 257" "j < 257" by (simp_all add: arena_page_def)
    show "i = j" using e l unfolding word_of_nat_eq_iff by (simp add: take_bit_nat_def)
  qed
  then show ?thesis by (simp only: map_map distinct_map distinct_upt set_upt simp_thms)
qed

lemma serial_write_append: "serial_write (as @ bs) k = serial_write bs (serial_write as k)"
  by (simp add: serial_write_def)

lemma prov_mask_serial [simp]: "k_prov_mask (serial_write bs k) = k_prov_mask k"
  by (induction bs arbitrary: k) (simp_all add: putchar_def)

lemma mask_serial: "(serial_write bs k)\<lparr>k_prov_mask := w\<rparr> = serial_write bs (k\<lparr>k_prov_mask := w\<rparr>)"
proof (induction bs arbitrary: k)
  case (Cons b bs)
  have "(putchar b k)\<lparr>k_prov_mask := w\<rparr> = putchar b (k\<lparr>k_prov_mask := w\<rparr>)" by (simp add: putchar_def)
  then show ?case by (simp add: Cons.IH)
qed simp

lemma release_serial: "lp_release lp (serial_write bs k) = serial_write bs (lp_release lp k)"
  by (subst (1 2) release_only_mask) (simp add: release_mask mask_serial)

lemma release_debug_prints: "\<exists>bs. lp_release_debug lp k = serial_write bs (lp_release lp k)"
  unfolding lp_release_debug_def release_serial serial_write_append [symmetric] by blast

text \<open>With five free chunks the arena test passes and only prints.\<close>
lemma test_provenance_arena_passes:
  assumes "5 \<le> free_chunks k"
  shows "\<exists>bs. test_provenance_arena k = serial_write (bytes ''ELF: provenance arena >256 pages and cleanup OK.'' @ [0x5C, 0x6E])
    (serial_write bs k)"
proof -
  have s: "257 \<le> slots_left [] k'" if "k_prov_mask k' = k_prov_mask k" for k'
    using assms that by (simp add: slots_left_def PROVENANCE_CHUNK_CAP_def free_chunks_def)
  have fill: "\<exists>lp k2. arena_fill ps [] k' = (True, lp, k2) \<and> concat (map snd lp) = ps \<and> lp_release lp k2 = k'"
    if "length ps = 257" "k_prov_mask k' = k_prov_mask k" for ps k'
    using arena_fill_ok [of ps "[]" k'] s [OF that(2)] that(1) by (auto simp: lp_ok_def lp_release_def)
  obtain lp1 k1 where f1: "arena_fill (map arena_page [0..<257]) [] k = (True, lp1, k1)"
    "concat (map snd lp1) = map arena_page [0..<257]" "lp_release lp1 k1 = k" using fill [of "map arena_page [0..<257]" k] by auto
  obtain b1 where b1: "lp_release_debug lp1 k1 = serial_write b1 k" using release_debug_prints [of lp1 k1] f1(3) by auto
  obtain lp2 k2 where f2: "arena_fill (replicate 257 (0, 0)) [] (serial_write b1 k) = (True, lp2, k2)"
    "concat (map snd lp2) = replicate 257 (0, 0)" "lp_release lp2 k2 = serial_write b1 k"
    using fill [of "replicate 257 (0, 0)" "serial_write b1 k"] by auto
  obtain b2 where b2: "lp_release_debug lp2 k2 = serial_write (b1 @ b2) k"
    using release_debug_prints [of lp2 k2] f2(3) by (auto simp: serial_write_append)
  have "lp_find (fst (arena_page i)) lp1 = Some (snd (arena_page i))" if "i < 257" for i
    unfolding lp_find_def f1(2) by (rule find_distinct [OF arena_pages_distinct]) (use that in simp)
  then have "lp_find (fst (arena_page 0)) lp1 = Some (snd (arena_page 0))" "lp_find (fst (arena_page 256)) lp1 = Some (snd (arena_page 256))"
    by simp_all
  moreover have "lp_len lp1 = 257" "lp_len lp2 = 257" by (simp_all only: lp_len_def f1(2) f2(2) length_map length_upt length_replicate)
  ultimately show ?thesis unfolding test_provenance_arena_def Let_def f1(1) prod.case b1 f2(1) b2 by auto
qed

end
