(* ===== verification/Spec2Isabelle.thy ===== *)
theory Spec2Isabelle imports Interrupt_Props Boot Evidence_Props Framebuffer_Props Pipe_Props Call_Props Elf_Props Paging_Props Context_Switch Debug_Props Arena_Props begin

text \<open>
A verification library for the vibix kernel: the Rust kernel under \<open>src/kernel_rust/src\<close> with the assembly that enters
and leaves it (\<open>src/kernel/interrupts.asm\<close>, \<open>syscall_entry.asm\<close>, \<open>context_switch.asm\<close>).

\<^bold>\<open>The program.\<close>  \<open>kernel_main\<close> (\<open>lib.rs\<close>) sets up memory, display, interrupts, segments and the virtual file system, creates
the first two processes and enters the scheduler.  From then on the kernel runs in response to three events: a system
call (\<open>syscall_entry\<close>, then \<open>syscall_handler\<close>), a device interrupt (\<open>irq_common\<close>, then \<open>irq_handler\<close> and
\<open>scheduler_tick\<close>), and an exception (\<open>interrupt_handler\<close>, which reports and halts).  System calls reach processes and
signals (\<open>process.rs\<close>, \<open>signal.rs\<close>), files (\<open>vfs/\<close>) and memory (\<open>paging.rs\<close>); these share the page allocator (\<open>pmm.rs\<close>) and
the heap (\<open>kmm.rs\<close>).

\<^bold>\<open>The model.\<close>  \<open>Kernel_State\<close> puts the static variables of the Rust sources into one record, \<^typ>\<open>kernel\<close>.  An operation
that may panic, halt or fault is a function \<open>kernel \<Rightarrow> ('a \<times> kernel) option\<close>, where \<^term>\<open>None\<close> is a run that does not come
back; an error that the code returns is a value of a sum, an option or a negative number as in the source.  Integers have
their width (\<open>u64\<close>, \<open>u32\<close>, \<open>u16\<close>, \<open>u8\<close> of \<open>Vibix_Prelude\<close>) and wrap as in the release build; indices that the code keeps
below a constant are naturals.  Physical memory is a function from addresses to bytes (\<open>Memory\<close>).  User memory is accessed
through the page tables; page tables and kernel stacks, which lie in the identity map, at their physical address.
Objects on the heap (vnodes, pipe buffers) are kept in typed stores under the address \<open>kmalloc\<close> returned.  Devices, PCI
configuration space, the addresses of the linker and the embedded archive are parameters; what a theorem needs of them is
among its hypotheses.  The definitions are those of the release build, except in \<open>Evidence\<close> and \<open>Debug_Build\<close>.

\<^bold>\<open>Memory.\<close>
\<^item> \<open>Pmm\<close> (\<open>pmm.rs\<close>): the page bitmap.  \<open>alloc\<close> takes the lowest free page and \<open>free\<close> undoes it (C34), \<open>alloc_pages\<close> agrees with
  a reference and leaves the bitmap alone when it fails (C23), regions mark exactly the pages they touch (C35).  The
  locale \<open>page_allocator\<close> (\<open>Page_Allocator\<close>) is its contract with the clients that roll back, interpreted in \<open>Pmm\<close>.
\<^item> \<open>Kmm\<close> (\<open>kmm.rs\<close>): the first-fit heap.  \<open>kmalloc\<close> and \<open>kfree\<close> always return and refine allocation and merging on a list
  of adjacent blocks (C7, C8); blocks are disjoint (C15), \<open>kfree\<close> undoes \<open>kmalloc\<close> (C32), and a heap with nothing allocated is
  one free block (C33).
\<^item> \<open>Paging\<close> (\<open>paging.rs\<close>) and \<open>Paging_Props\<close>: mapping, unmapping, the scratch page, the constructor of process roots with its
  roll back and the destructor.  Mapping a page makes it translate to its frame and changes no other translation;
  unmapping restores them (C2).
\<^item> \<open>Multiboot\<close> (\<open>multiboot.rs\<close>): the memory map; on a well-formed map exactly the available pages become free (C19).

\<^bold>\<open>Processes.\<close>
\<^item> \<open>Proc_Table\<close>, \<open>Process\<close>, \<open>Scheduling\<close> (\<open>process.rs\<close>): the table with the locale \<open>keyed_store\<close>, the round-robin choice and its
  fairness (C36, C16), \<open>fork\<close>, \<open>exec\<close>, \<open>waitpid\<close>, the timer tick and the switch after a call, both of which end with one
  Running process installed (C5, C17).
\<^item> \<open>Flat_Image\<close>, \<open>Elf\<close>, \<open>Elf_Props\<close> (\<open>process.rs\<close>, \<open>elf.rs\<close>): the loaders; the ELF validator accepts exactly the images of a
  specification in unbounded arithmetic (C4).
\<^item> \<open>Signal\<close>, \<open>Signal_Props\<close> (\<open>signal.rs\<close>): delivery on both paths, \<open>kill\<close>, \<open>sigaction\<close>, \<open>sigreturn\<close>.  \<open>sigreturn\<close> restores the
  interrupted state (C10), SIGKILL cannot be escaped (C12), the check before a call has the stated outcomes (C20).
\<^item> \<open>Syscall\<close>, \<open>Call_Props\<close> (\<open>syscall.rs\<close>, \<open>syscall_entry.asm\<close>): the remaining handlers, the table and the whole path of a call.
  Every number runs its own handler or fails (C25); \<open>exit\<close> and \<open>waitpid\<close> meet (C3); when \<open>nanosleep\<close>
  returns (C22).
\<^item> \<open>Context_Switch\<close>: the frames that the stubs push and \<open>context_switch_to\<close> pops (C21).

\<^bold>\<open>Files.\<close>
\<^item> \<open>Vfs_Types\<close>, \<open>Open_File\<close>, \<open>Mount\<close>, \<open>Chardev\<close>, \<open>Fs\<close>, \<open>Vfs_Path\<close> (\<open>vfs/mod.rs\<close>, \<open>open_file.rs\<close>, \<open>mount.rs\<close>, \<open>chardev.rs\<close>, \<open>devfs.rs\<close>,
  \<open>rootfs.rs\<close>, \<open>initramfs.rs\<close>): the tables, the file systems and path resolution, which equals a walk over the normalised path
  (C9); what resolves after boot (C14, C37).  The locale \<open>refcounted\<close> is the contract of the open file table.
\<^item> \<open>Ustar\<close> (\<open>vfs/initramfs.rs\<close>): the archive parser returns exactly the archived files (C13).
\<^item> \<open>Ring\<close>, \<open>Pipe_Buffer\<close>, \<open>Pipe_Props\<close> (\<open>vfs/pipe.rs\<close>): the locale \<open>byte_fifo\<close>, interpreted by the keyboard, terminal and pipe
  buffers; bytes go through a pipe in order, from user memory to user memory (C11).
\<^item> \<open>Tty_Buffer\<close>, \<open>Tty\<close> (\<open>vfs/tty.rs\<close>): polling refines a line-discipline specification (C6); a blocked reader is woken, and
  nobody else (C28, C29).
\<^item> \<open>File_Calls\<close>, \<open>Fd_Calls\<close> (\<open>vfs/mod.rs\<close>, \<open>vfs/pipe.rs\<close>, \<open>syscall.rs\<close>): one definition per call, every branch.

\<^bold>\<open>Devices and boot.\<close>
\<^item> \<open>Serial_Port\<close> (\<open>serial.rs\<close>; C31), \<open>Ps2\<close> and \<open>Keyboard\<close> (\<open>keyboard.rs\<close>; C38, C24), \<open>Framebuffer\<close> and \<open>Framebuffer_Props\<close>
  (\<open>fb.rs\<close>; C26, C27), \<open>Interrupts\<close> and \<open>Interrupt_Props\<close> (\<open>interrupts.rs\<close>, \<open>pit.rs\<close>, \<open>irq_common\<close>; C39), \<open>Gdt\<close> (\<open>gdt.rs\<close>; C40),
  \<open>Format\<close> (the number formats of the messages), \<open>Boot\<close> (\<open>kernel_main\<close> and the panic handler).
\<^item> \<open>Evidence\<close>, \<open>Evidence_Props\<close> (\<open>scheduler_evidence.rs\<close>; C18, C30): the executable intervals and the round trips counted.
\<^item> \<open>Debug_Build\<close>, \<open>Debug_Props\<close>, \<open>Arena_Props\<close>: dumps, fault injection and self tests of the debug build.  Dumps only print, the
  loader without injected faults is the release loader but for its output, and the arena test passes.

\<^bold>\<open>Across components.\<close>  \<open>Frames\<close> and \<open>Fd_Refs\<close> show what each operation leaves alone and that the file calls keep the
reference counts.  \<open>Kernel_Inv\<close> defines the step relation \<open>kstep\<close> of the running machine (system calls, timer, input, stores
by user code) and proves by rule induction that in every reachable state the count of each open file is the number of
descriptors of all processes that hold it (C1).  \<open>User_Memory\<close> has what the theorems about user buffers need of the page
tables.

\<^bold>\<open>Loops and bounds.\<close>  There is no fuel.  Loops that may not end are partial functions over options, so that an endless run
is \<^term>\<open>None\<close>: the free-list walks of the heap, the walk of the memory map, the scheduler's loop, the wait of \<open>nanosleep\<close>
and the mapping loop of \<open>mmap\<close>.  C5, C7, C8, C17 and C19 prove that the runs they speak of end.  All other loops are
structural or have a termination proof.  The spin loops of the drivers count down the limits of the source.  Table sizes
are those of the source (64 processes, 64 open files, 16 descriptors, 4 mounts, 8 devices, 128 archive entries).

\<^bold>\<open>Not modelled.\<close>
\<^item> \<open>src/boot.asm\<close> and \<open>src/kernel/kernel64_entry.asm\<close> run before the Rust code and work on processor modes that the model does
  not have; the address space they leave is a hypothesis where one is needed.
\<^item> Interrupts that arrive inside the kernel: the code disables them around page table work and runs system calls with them
  masked, so an operation is one step.  \<open>invlpg\<close> and the guards that save the interrupt flag change no modelled state.
\<^item> The trace lines that the debug build prints inside the loader, \<open>exec\<close>, \<open>fork\<close>, the scheduler and the assembly stubs.
\<^item> The programs under \<open>src/userspace\<close>, which are clients of the kernel, the retired C kernel under \<open>src/legacy\<close>, and the build
  and test scripts.
\<close>

end
